(* ===== verification/Prelude.thy ===== *)
theory Prelude
  imports Main "HOL-Library.Word" "HOL-Library.While_Combinator"
begin

text \<open>
  Shared vocabulary of the development: bytes, the constants of
  \<^verbatim>\<open>newt/common.h\<close> and \<^verbatim>\<open>newt/frame.h\<close>, the faults a C operation can run into, the
  parts of the C string library that the sources call, and the generic lemmas on
  lists and loops that the component theories share.
\<close>

unbundle bit_operations_syntax

named_theorems cstring_simps \<open>evaluation of the C string functions\<close>
named_theorems res_simps \<open>sequencing of operations that may fault\<close>

section \<open>Bytes, pointers and return codes\<close>

type_synonym byte = char
type_synonym ptr = nat

abbreviation NUL :: byte where "NUL \<equiv> CHR 0x00"
abbreviation NL :: byte where "NL \<equiv> CHR 0x0A"
abbreviation CR :: byte where "CR \<equiv> CHR 0x0D"

text \<open>The two return codes of \<^verbatim>\<open>common.h\<close>.\<close>

datatype ret = RET_SUCCESS | RET_ERROR

text \<open>
  The ways in which an operation can leave defined behaviour: a failed
  \<^verbatim>\<open>assert\<close>, a null or dangling dereference, a write or read outside an object, a
  \<^verbatim>\<open>free\<close> of something that is not a live allocation, and a thread that blocks
  forever on a lock it holds itself.
\<close>

datatype fault =
    Assert_Fail
  | Null_Deref
  | Buffer_Overflow
  | Use_After_Free
  | Bad_Free
  | Deadlock

type_synonym 'a res = "fault + 'a"

definition and_then :: "'a res \<Rightarrow> ('a \<Rightarrow> 'b res) \<Rightarrow> 'b res" where
  "and_then r k = (case r of Inl e \<Rightarrow> Inl e | Inr x \<Rightarrow> k x)"

lemma and_then_simps [simp, res_simps]:
  "and_then (Inl e) k = Inl e"
  "and_then (Inr x) k = k x"
  by (simp_all add: and_then_def)

lemma and_then_eq_Inr: "and_then r k = Inr y \<longleftrightarrow> (\<exists>x. r = Inr x \<and> k x = Inr y)"
  by (cases r) auto

lemma and_then_eq_Inl:
  "and_then r k = Inl e \<longleftrightarrow> r = Inl e \<or> (\<exists>x. r = Inr x \<and> k x = Inl e)"
  by (cases r) auto

text \<open>Running an operation over a list of arguments, stopping at the first fault.\<close>

fun each_res :: "('a \<Rightarrow> 's \<Rightarrow> 's res) \<Rightarrow> 'a list \<Rightarrow> 's \<Rightarrow> 's res" where
  "each_res f [] s = Inr s"
| "each_res f (x # xs) s = and_then (f x s) (each_res f xs)"

section \<open>Constants of the headers\<close>

definition LD_MAX :: nat where "LD_MAX = 1024"
definition FNAME_LEN :: nat where "FNAME_LEN = 12"
definition FRAME_ID_LEN :: nat where "FRAME_ID_LEN = 32"
definition CONN_ID_LEN :: nat where "CONN_ID_LEN = 10"
definition QNAME_LENGTH :: nat where "QNAME_LENGTH = 256"
definition QB_SIZE :: nat where "QB_SIZE = 512"

lemmas size_consts = LD_MAX_def FNAME_LEN_def FRAME_ID_LEN_def CONN_ID_LEN_def
  QNAME_LENGTH_def QB_SIZE_def

text \<open>
  The status macros \<^verbatim>\<open>GET\<close>, \<^verbatim>\<open>DEL\<close>, \<^verbatim>\<open>SET\<close> and \<^verbatim>\<open>CLR\<close> of \<^verbatim>\<open>common.h\<close>, on the value
  of the \<^verbatim>\<open>status\<close> member.
\<close>

type_synonym flags = "32 word"

definition GET :: "flags \<Rightarrow> flags \<Rightarrow> bool" where "GET status v = (status AND v > 0)"
definition DEL :: "flags \<Rightarrow> flags \<Rightarrow> flags" where "DEL status v = status AND NOT v"
definition SET :: "flags \<Rightarrow> flags \<Rightarrow> flags" where "SET status v = status OR v"
definition CLR :: "flags \<Rightarrow> flags" where "CLR status = 0"

lemma GET_SET_same: "v \<noteq> 0 \<Longrightarrow> GET (SET s v) v"
proof -
  assume "v \<noteq> 0"
  have "(s OR v) AND v = v"
    by (metis word_bw_comms(1) word_ao_absorbs(1))
  then show ?thesis
    using \<open>v \<noteq> 0\<close> by (simp add: GET_def SET_def word_gt_0)
qed

lemma not_GET_DEL: "\<not> GET (DEL s v) v"
  by (simp add: GET_def DEL_def and.assoc)

lemma GET_CLR: "\<not> GET (CLR s) v"
  by (simp add: GET_def CLR_def)

section \<open>C strings\<close>

text \<open>
  Memory is a list of bytes starting at the pointer; a string literal is the list of
  its characters, and the end of a list stands for the terminating null byte.
\<close>

definition cstr :: "byte list \<Rightarrow> byte list" where
  "cstr s = takeWhile (\<lambda>c. c \<noteq> NUL) s"

definition strlen :: "byte list \<Rightarrow> nat" where
  "strlen s = length (cstr s)"

text \<open>The byte at the pointer.\<close>

definition deref :: "byte list \<Rightarrow> byte" where
  "deref s = (case s of [] \<Rightarrow> NUL | c # _ \<Rightarrow> c)"

text \<open>\<^verbatim>\<open>strncmp(a, b, n) == 0\<close>.\<close>

fun strncmp0 :: "byte list \<Rightarrow> byte list \<Rightarrow> nat \<Rightarrow> bool" where
  "strncmp0 a b 0 = True"
| "strncmp0 a b (Suc n) =
     (deref a = deref b \<and> (deref a = NUL \<or> strncmp0 (tl a) (tl b) n))"

text \<open>\<^verbatim>\<open>strncpy\<close>: the \<open>n\<close> bytes written to the destination.\<close>

definition strncpy :: "byte list \<Rightarrow> nat \<Rightarrow> byte list" where
  "strncpy src n =
     (let s = cstr (take n src) in s @ replicate (n - length s) NUL)"

text \<open>\<^verbatim>\<open>memcpy(dst, src, n)\<close>: the destination array afterwards.\<close>

definition memcpy :: "byte list \<Rightarrow> byte list \<Rightarrow> nat \<Rightarrow> byte list" where
  "memcpy dst src n = take n src @ drop n dst"

definition is_space :: "byte \<Rightarrow> bool" where
  "is_space c \<longleftrightarrow> c \<in> {CHR '' '', CHR 0x09, CHR 0x0A, CHR 0x0B, CHR 0x0C, CHR 0x0D}"

definition is_digit :: "byte \<Rightarrow> bool" where
  "is_digit c \<longleftrightarrow> 48 \<le> (of_char c :: nat) \<and> (of_char c :: nat) \<le> 57"

fun digits_value :: "int \<Rightarrow> byte list \<Rightarrow> int" where
  "digits_value v [] = v"
| "digits_value v (c # cs) =
     (if is_digit c then digits_value (10 * v + int (of_char c) - 48) cs else v)"

text \<open>
  \<^verbatim>\<open>atoi\<close>: optional white space, an optional sign, then digits; the value saturates
  at the range of \<^verbatim>\<open>long\<close> (as \<^verbatim>\<open>strtol\<close> does) and is converted to a 32-bit \<^verbatim>\<open>int\<close>.
\<close>

definition strtol :: "byte list \<Rightarrow> int" where
  "strtol s =
     (let t = dropWhile is_space s;
          v = (if deref t = CHR ''-'' then - digits_value 0 (tl t)
               else if deref t = CHR ''+'' then digits_value 0 (tl t)
               else digits_value 0 t)
      in max (- (2 ^ 63)) (min (2 ^ 63 - 1) v))"

definition atoi :: "byte list \<Rightarrow> int" where
  "atoi s = sint (word_of_int (strtol s) :: 32 word)"

section \<open>Facts about the C string functions\<close>

lemma deref_simps [simp, cstring_simps]:
  "deref [] = NUL"
  "deref (c # s) = c"
  by (simp_all add: deref_def)

lemma cstr_simps [simp, cstring_simps]:
  "cstr [] = []"
  "cstr (c # s) = (if c = NUL then [] else c # cstr s)"
  by (simp_all add: cstr_def)

lemma NUL_notin_cstr [simp]: "NUL \<notin> set (cstr s)"
  by (auto simp: cstr_def dest: set_takeWhileD)

lemma cstr_id: "NUL \<notin> set s \<Longrightarrow> cstr s = s"
  by (induction s) auto

lemma cstr_append_NUL: "NUL \<notin> set s \<Longrightarrow> cstr (s @ NUL # t) = s"
  by (induction s) auto

lemma cstr_append_replicate: "NUL \<notin> set s \<Longrightarrow> cstr (s @ replicate n NUL) = s"
  by (cases n) (simp_all add: cstr_append_NUL cstr_id)

lemma length_cstr_le: "length (cstr s) \<le> length s"
  by (simp add: cstr_def length_takeWhile_le)

lemma strncpy_id: "NUL \<notin> set (take n src) \<Longrightarrow> n \<le> length src \<Longrightarrow> strncpy src n = take n src"
  by (simp add: strncpy_def cstr_id)

lemma length_strncpy [simp]: "length (strncpy src n) = n"
proof -
  have "length (cstr (take n src)) \<le> n"
    using length_cstr_le [of "take n src"] by simp
  then show ?thesis by (simp add: strncpy_def Let_def)
qed

lemma length_memcpy: "n \<le> length src \<Longrightarrow> n \<le> length dst \<Longrightarrow> length (memcpy dst src n) = length dst"
  by (simp add: memcpy_def)

text \<open>
  Against a literal without null bytes, \<^verbatim>\<open>strncmp\<close> over the literal's length is a
  prefix test.
\<close>

lemma strncmp0_prefix:
  "NUL \<notin> set b \<Longrightarrow> strncmp0 a b (length b) \<longleftrightarrow> take (length b) a = b"
proof (induction b arbitrary: a)
  case Nil
  then show ?case by simp
next
  case (Cons c b)
  then show ?case by (cases a) auto
qed

lemma strncmp0_take:
  "n \<le> m \<Longrightarrow> strncmp0 (take m a) b n = strncmp0 a b n"
proof (induction n arbitrary: a b m)
  case 0
  then show ?case by simp
next
  case (Suc n)
  then obtain m' where "m = Suc m'" by (cases m) auto
  with Suc show ?case by (cases a) auto
qed

lemma strncmp0_literal:
  "n = length b \<Longrightarrow> NUL \<notin> set b \<Longrightarrow> strncmp0 a b n \<longleftrightarrow> take n a = b"
  by (simp add: strncmp0_prefix)

lemma strncmp0_cstr: "strncmp0 a (cstr b) n = strncmp0 a b n"
proof (induction n arbitrary: a b)
  case (Suc n)
  show ?case
  proof (cases b)
    case (Cons c cs)
    then show ?thesis using Suc.IH [of "tl a" cs] by auto
  qed simp
qed simp

lemma cstr_cstr [simp]: "cstr (cstr s) = cstr s"
  by (simp add: cstr_id)

lemma strlen_cstr [simp]: "strlen (cstr s) = strlen s"
  by (simp add: strlen_def)

lemma take_strlen: "take (strlen s) s = cstr s"
  by (simp add: strlen_def cstr_def takeWhile_eq_take [symmetric])

lemma memcpy_cstr: "memcpy dst (cstr s) (strlen s) = memcpy dst s (strlen s)"
  by (simp add: memcpy_def take_strlen) (simp add: strlen_def)

declare strncmp0.simps(2) [simp del]

lemma atoi_in_range:
  "strtol s \<in> {- (2 ^ 31) ..< 2 ^ 31} \<Longrightarrow> atoi s = strtol s"
  by (simp add: atoi_def sint_sbintrunc' signed_take_bit_int_eq_self)

lemma atoi_bounds: "- (2 ^ 31) \<le> atoi s \<and> atoi s < 2 ^ 31"
  using sint_greater_eq [of "word_of_int (strtol s) :: 32 word"]
    sint_less [of "word_of_int (strtol s) :: 32 word"]
  by (simp add: atoi_def)

section \<open>Loops\<close>

text \<open>
  A loop whose guard holds in every state of a set that the body does not leave
  never returns.
\<close>

lemma while_option_diverges:
  assumes "P s" and "\<And>s. P s \<Longrightarrow> b s" and "\<And>s. P s \<Longrightarrow> P (c s)"
  shows "while_option b c s = None"
proof -
  have "P ((c ^^ k) s)" for k
    by (induction k) (auto intro: assms)
  then have "b ((c ^^ k) s)" for k
    by (rule assms(2))
  then show ?thesis by (simp add: while_option_def)
qed

lemma while_option_step: "b s \<Longrightarrow> while_option b c s = while_option b c (c s)"
  by (subst while_option_unfold) simp

lemma while_option_exit: "\<not> b s \<Longrightarrow> while_option b c s = Some s"
  by (subst while_option_unfold) simp

lemma while_option_terminates:
  assumes "P s" and "\<And>s. P s \<Longrightarrow> b s \<Longrightarrow> P (c s)"
    and "\<And>s. P s \<Longrightarrow> b s \<Longrightarrow> f (c s) < (f s :: nat)"
  shows "\<exists>t. while_option b c s = Some t \<and> P t \<and> \<not> b t"
proof -
  have "\<exists>t. while_option b c s = Some t"
    using assms by (intro measure_while_option_Some [where P = P and f = f]) auto
  then obtain t where t: "while_option b c s = Some t" ..
  moreover have "P t"
    using while_option_rule [OF _ t, of P] assms(1,2) by blast
  moreover have "\<not> b t" using t by (rule while_option_stop)
  ultimately show ?thesis by blast
qed

section \<open>Lists\<close>

text \<open>
  The search loops of the sources run over a whole list and keep the last match.
\<close>

definition find_last :: "('a \<Rightarrow> bool) \<Rightarrow> 'a list \<Rightarrow> 'a option" where
  "find_last P xs = fold (\<lambda>x r. if P x then Some x else r) xs None"

lemma find_last_fold:
  "fold (\<lambda>x r. if P x then Some x else r) xs r =
     (case find_last P xs of None \<Rightarrow> r | Some y \<Rightarrow> Some y)"
proof (induction xs arbitrary: r)
  case Nil
  then show ?case by (simp add: find_last_def)
next
  case (Cons x xs)
  have "find_last P (x # xs) =
      (case find_last P xs of None \<Rightarrow> if P x then Some x else None | Some y \<Rightarrow> Some y)"
    using Cons.IH [of "if P x then Some x else None"] by (simp add: find_last_def)
  then show ?case
    using Cons.IH [of "if P x then Some x else r"] by (auto split: option.splits)
qed

lemma find_last_Nil [simp]: "find_last P [] = None"
  by (simp add: find_last_def)

lemma find_last_Cons [simp]:
  "find_last P (x # xs) =
     (case find_last P xs of None \<Rightarrow> if P x then Some x else None | Some y \<Rightarrow> Some y)"
proof -
  have "find_last P (x # xs) =
      fold (\<lambda>x r. if P x then Some x else r) xs (if P x then Some x else None)"
    by (simp add: find_last_def)
  also note find_last_fold
  finally show ?thesis .
qed

lemma find_last_None_iff: "find_last P xs = None \<longleftrightarrow> (\<forall>x\<in>set xs. \<not> P x)"
  by (induction xs) (auto split: option.splits)

lemma find_last_SomeD: "find_last P xs = Some y \<Longrightarrow> y \<in> set xs \<and> P y"
  by (induction xs) (auto split: option.splits if_splits)

lemma find_last_append:
  "find_last P (xs @ ys) =
     (case find_last P ys of None \<Rightarrow> find_last P xs | Some y \<Rightarrow> Some y)"
  by (induction xs) (auto split: option.splits)

lemma find_last_cong:
  "(\<And>x. x \<in> set xs \<Longrightarrow> P x = Q x) \<Longrightarrow> find_last P xs = find_last Q xs"
  by (induction xs) auto

lemma drop_behind: "drop a xs = u @ v \<Longrightarrow> drop (a + length u) xs = v"
  by (metis add.commute append_eq_conv_conj drop_drop)

lemma drop_further: "drop a xs = u \<Longrightarrow> drop (a + b) xs = drop b u"
  by (metis add.commute drop_drop)

lemma distinct_map_cong:
  "(\<And>x. x \<in> set xs \<Longrightarrow> f x = g x) \<Longrightarrow> distinct (map f xs) = distinct (map g xs)"
  by (metis map_cong)

lemma find_last_unique:
  assumes "x \<in> set xs" and "P x" and "\<And>y. y \<in> set xs \<Longrightarrow> P y \<Longrightarrow> y = x"
  shows "find_last P xs = Some x"
proof (cases "find_last P xs")
  case None
  then have "\<forall>x\<in>set xs. \<not> P x" by (simp add: find_last_None_iff)
  with assms(1,2) show ?thesis by blast
next
  case (Some y)
  then have "y \<in> set xs" and "P y" by (auto dest: find_last_SomeD)
  then have "y = x" by (rule assms(3))
  with Some show ?thesis by simp
qed

end
