(* ===== verification/Intrusive_List.thy ===== *)
theory Intrusive_List
  imports Prelude
begin

text \<open>
  The circular doubly linked lists of \<^verbatim>\<open>newt/list.h\<close>, on an explicit heap of
  \<^verbatim>\<open>struct list_head\<close> cells. The predicate \<open>dlist h head xs\<close> says that the cells
  \<open>xs\<close> are linked, in this order, behind the head cell; every operation of the header
  is shown to be the list operation the rest of the development uses in its place
  (\<^verbatim>\<open>list_add\<close> is \<open>Cons\<close>, \<^verbatim>\<open>list_add_tail\<close> appends, \<^verbatim>\<open>list_del\<close> removes one cell,
  \<^verbatim>\<open>list_for_each\<close> visits the cells in order) and to leave every disjoint list alone.
\<close>

section \<open>Cells and operations\<close>

record list_head =
  nxt :: ptr
  prv :: ptr

text \<open>Address 0 is \<^verbatim>\<open>NULL\<close>; an address outside the domain is not allocated.\<close>

type_synonym heap = "ptr \<Rightarrow> list_head option"

definition read_next :: "heap \<Rightarrow> ptr \<Rightarrow> ptr res" where
  "read_next h p = (case h p of None \<Rightarrow> Inl Null_Deref | Some c \<Rightarrow> Inr (nxt c))"

definition read_prev :: "heap \<Rightarrow> ptr \<Rightarrow> ptr res" where
  "read_prev h p = (case h p of None \<Rightarrow> Inl Null_Deref | Some c \<Rightarrow> Inr (prv c))"

definition write_next :: "ptr \<Rightarrow> ptr \<Rightarrow> heap \<Rightarrow> heap res" where
  "write_next p v h =
     (case h p of None \<Rightarrow> Inl Null_Deref | Some c \<Rightarrow> Inr (h(p \<mapsto> c\<lparr>nxt := v\<rparr>)))"

definition write_prev :: "ptr \<Rightarrow> ptr \<Rightarrow> heap \<Rightarrow> heap res" where
  "write_prev p v h =
     (case h p of None \<Rightarrow> Inl Null_Deref | Some c \<Rightarrow> Inr (h(p \<mapsto> c\<lparr>prv := v\<rparr>)))"

definition INIT_LIST_HEAD :: "ptr \<Rightarrow> heap \<Rightarrow> heap res" where
  "INIT_LIST_HEAD list h = and_then (write_next list list h) (write_prev list list)"

text \<open>\<^verbatim>\<open>__list_add(new, prev, next)\<close>, its four stores in order.\<close>

definition list_add_between :: "ptr \<Rightarrow> ptr \<Rightarrow> ptr \<Rightarrow> heap \<Rightarrow> heap res" where
  "list_add_between new prev next h =
     and_then (write_prev next new h) (\<lambda>h.
     and_then (write_next new next h) (\<lambda>h.
     and_then (write_prev new prev h) (\<lambda>h.
     write_next prev new h)))"

definition list_add :: "ptr \<Rightarrow> ptr \<Rightarrow> heap \<Rightarrow> heap res" where
  "list_add new head h =
     and_then (read_next h head) (\<lambda>next. list_add_between new head next h)"

definition list_add_tail :: "ptr \<Rightarrow> ptr \<Rightarrow> heap \<Rightarrow> heap res" where
  "list_add_tail new head h =
     and_then (read_prev h head) (\<lambda>prev. list_add_between new prev head h)"

text \<open>\<^verbatim>\<open>__list_del(prev, next)\<close>.\<close>

definition list_del_between :: "ptr \<Rightarrow> ptr \<Rightarrow> heap \<Rightarrow> heap res" where
  "list_del_between prev next h =
     and_then (write_prev next prev h) (write_next prev next)"

definition list_del :: "ptr \<Rightarrow> heap \<Rightarrow> heap res" where
  "list_del entry h =
     and_then (read_prev h entry) (\<lambda>prev.
     and_then (read_next h entry) (\<lambda>next.
     and_then (list_del_between prev next h) (\<lambda>h.
     and_then (write_next entry 0 h) (write_prev entry 0))))"

definition list_empty :: "ptr \<Rightarrow> heap \<Rightarrow> bool res" where
  "list_empty head h = and_then (read_next h head) (\<lambda>next. Inr (next = head))"

text \<open>\<^verbatim>\<open>list_first_entry\<close>, up to the constant offset of \<^verbatim>\<open>container_of\<close>.\<close>

definition list_first_entry :: "ptr \<Rightarrow> heap \<Rightarrow> ptr res" where
  "list_first_entry head h = read_next h head"

text \<open>
  The critical section of \<^verbatim>\<open>get_frame_from_bucket\<close>: unlink and return the first cell, if
  there is one.
\<close>

definition bucket_pop :: "ptr \<Rightarrow> heap \<Rightarrow> (ptr option \<times> heap) res" where
  "bucket_pop head h =
     and_then (list_empty head h) (\<lambda>e.
       if \<not> e
       then and_then (list_first_entry head h) (\<lambda>p.
            and_then (list_del p h) (\<lambda>h. Inr (Some p, h)))
       else Inr (None, h))"

fun pop_all :: "nat \<Rightarrow> ptr \<Rightarrow> heap \<Rightarrow> (ptr list \<times> heap) res" where
  "pop_all 0 head h = Inr ([], h)"
| "pop_all (Suc n) head h =
     and_then (bucket_pop head h) (\<lambda>(p, h).
       case p of None \<Rightarrow> Inr ([], h)
       | Some x \<Rightarrow> and_then (pop_all n head h) (\<lambda>(xs, h). Inr (x # xs, h)))"

text \<open>
  The loop of \<^verbatim>\<open>list_for_each\<close>: the cursor starts behind the head and follows \<^verbatim>\<open>next\<close>
  until it meets the head again; the visited cells are collected. The cursor is a
  fault once it has been read from a cell that is not allocated.
\<close>

definition list_for_each :: "ptr \<Rightarrow> heap \<Rightarrow> (ptr res \<times> ptr list) option" where
  "list_for_each head h =
     while_option
       (\<lambda>(pos, visited). case pos of Inl _ \<Rightarrow> False | Inr p \<Rightarrow> p \<noteq> head)
       (\<lambda>(pos, visited). case pos of Inl e \<Rightarrow> (Inl e, visited)
                         | Inr p \<Rightarrow> (read_next h p, visited @ [p]))
       (read_next h head, [])"

text \<open>
  \<^verbatim>\<open>list_for_each_entry_safe\<close> with a body that may unlink the visited cell: the next cell
  is read before the body runs. A fault of the cursor or of the body stops the loop.
\<close>

definition list_for_each_entry_safe ::
    "(ptr \<Rightarrow> heap \<Rightarrow> heap res) \<Rightarrow> ptr \<Rightarrow> heap \<Rightarrow> ((ptr \<times> ptr \<times> heap) res \<times> ptr list) option" where
  "list_for_each_entry_safe body head h =
     while_option
       (\<lambda>(s, visited). case s of Inl _ \<Rightarrow> False | Inr (pos, n, h) \<Rightarrow> pos \<noteq> head)
       (\<lambda>(s, visited). case s of Inl e \<Rightarrow> (Inl e, visited)
          | Inr (pos, n, h) \<Rightarrow>
              (and_then (body pos h) (\<lambda>h. and_then (read_next h n) (\<lambda>n'. Inr (n, n', h))), visited @ [pos]))
       (and_then (read_next h head) (\<lambda>pos. and_then (read_next h pos) (\<lambda>n. Inr (pos, n, h))), [])"

section \<open>The list behind a head\<close>

fun linked :: "heap \<Rightarrow> ptr list \<Rightarrow> bool" where
  "linked h [] = True"
| "linked h [a] = (h a \<noteq> None)"
| "linked h (a # b # ps) =
     (map_option nxt (h a) = Some b \<and> map_option prv (h b) = Some a \<and> linked h (b # ps))"

definition dlist :: "heap \<Rightarrow> ptr \<Rightarrow> ptr list \<Rightarrow> bool" where
  "dlist h head xs \<longleftrightarrow> distinct (head # xs) \<and> linked h (head # xs @ [head])"

lemma linked_allocated: "linked h ps \<Longrightarrow> p \<in> set ps \<Longrightarrow> h p \<noteq> None"
  by (induction h ps rule: linked.induct) auto

lemma linked_append:
  "linked h (us @ a # vs) \<longleftrightarrow> linked h (us @ [a]) \<and> linked h (a # vs)"
proof (induction us)
  case Nil
  show ?case by (cases vs) auto
next
  case (Cons u us)
  then show ?case by (cases us) auto
qed

text \<open>
  Which stores a chain does not see: \<^verbatim>\<open>next\<close> of anything but its inner cells and first
  cell, \<^verbatim>\<open>prev\<close> of anything but its cells after the first.
\<close>

lemma linked_upd_next:
  "h p = Some c \<Longrightarrow> p \<notin> set (butlast ps) \<Longrightarrow> linked (h(p \<mapsto> c\<lparr>nxt := v\<rparr>)) ps = linked h ps"
  by (induction h ps rule: linked.induct) auto

lemma linked_upd_prev:
  "h p = Some c \<Longrightarrow> p \<notin> set (tl ps) \<Longrightarrow> linked (h(p \<mapsto> c\<lparr>prv := v\<rparr>)) ps = linked h ps"
  by (induction h ps rule: linked.induct) auto

lemma linked_cong:
  "(\<And>p. p \<in> set ps \<Longrightarrow> h' p = h p) \<Longrightarrow> linked h' ps = linked h ps"
  by (induction h ps rule: linked.induct) auto

lemma linked_upd_other: "p \<notin> set ps \<Longrightarrow> linked (h(p \<mapsto> c)) ps = linked h ps"
  by (rule linked_cong) auto

text \<open>Both ends of the ring, opened for the proofs about a neighbour of the head.\<close>

lemma ring_front:
  assumes "distinct (head # xs)"
  obtains b vs where "xs @ [head] = b # vs" "butlast (b # vs) = xs" "b \<notin> set vs"
    "set (b # vs) = set (head # xs)" "b \<in> set (head # xs)"
  using assms by (cases xs) auto

lemma ring_back:
  assumes "distinct (head # xs)"
  obtains us a where "head # xs = us @ [a]" "tl (us @ [a]) = xs" "a \<notin> set us"
    "set (us @ [a]) = set (head # xs)" "a \<in> set (head # xs)"
proof (cases xs rule: rev_cases)
  case Nil
  with that [of "[]" head] show ?thesis by simp
next
  case (snoc ys y)
  with that [of "head # ys" y] assms show ?thesis by auto
qed

lemma dlist_cong:
  "(\<And>p. p \<in> set (head # xs) \<Longrightarrow> h' p = h p) \<Longrightarrow> dlist h' head xs = dlist h head xs"
  using linked_cong [of "head # xs @ [head]" h' h] by (auto simp: dlist_def)

lemma dlist_next: "dlist h head xs \<Longrightarrow> read_next h head = Inr (hd (xs @ [head]))"
  by (cases xs) (auto simp: dlist_def read_next_def split: option.splits)

lemma dlist_prev:
  assumes "dlist h head xs"
  shows "read_prev h head = Inr (last (head # xs))"
proof (cases xs rule: rev_cases)
  case Nil
  with assms show ?thesis by (auto simp: dlist_def read_prev_def)
next
  case (snoc ys y)
  with assms have "linked h ((head # ys) @ y # [head])" by (simp add: dlist_def)
  then have "linked h (y # [head])" using linked_append by blast
  with snoc show ?thesis by (auto simp: read_prev_def)
qed

section \<open>The operations on the list\<close>

lemma INIT_LIST_HEAD_empty:
  assumes "h p = Some c"
  shows "\<exists>h'. INIT_LIST_HEAD p h = Inr h' \<and> dlist h' p [] \<and> (\<forall>q. q \<noteq> p \<longrightarrow> h' q = h q)"
  using assms
  by (simp add: INIT_LIST_HEAD_def write_next_def write_prev_def dlist_def)

text \<open>
  Linking a new cell between two neighbours, and unlinking one: the stores change the
  chain only at the joint.
\<close>

lemma insert_between:
  assumes l: "linked h (us @ [a])" "linked h (b # vs)" and n: "h n \<noteq> None"
    and fresh: "n \<notin> set (us @ a # b # vs)"
    and a: "a \<notin> set us" "a \<notin> set (butlast (b # vs))"
    and b: "b \<notin> set (tl (us @ [a]))" "b \<notin> set vs"
  shows "\<exists>h'. list_add_between n a b h = Inr h' \<and> linked h' (us @ a # n # b # vs)
           \<and> (\<forall>q. q \<notin> {n, a, b} \<longrightarrow> h' q = h q)"
proof -
  obtain cb where cb: "h b = Some cb" using linked_allocated [OF l(2), of b] by auto
  obtain ca where ca: "h a = Some ca" using linked_allocated [OF l(1), of a] by auto
  obtain cn where cn: "h n = Some cn" using n by auto
  have nab: "n \<noteq> a" "n \<noteq> b" using fresh by auto
  define h1 where "h1 = h(b \<mapsto> cb\<lparr>prv := n\<rparr>)"
  define h2 where "h2 = h1(n \<mapsto> \<lparr>nxt = b, prv = a\<rparr>)"
  obtain ca' where ca': "h2 a = Some ca'" using ca nab by (cases "a = b") (simp_all add: h2_def h1_def)
  define h3 where "h3 = h2(a \<mapsto> ca'\<lparr>nxt := n\<rparr>)"
  have run: "list_add_between n a b h = Inr h3"
    using cb cn nab ca ca'
    by (cases cn) (auto simp: list_add_between_def write_next_def write_prev_def
        h3_def h2_def h1_def split: if_splits)
  have 1: "linked h1 (us @ [a])" "linked h1 (b # vs)"
    using l cb b by (simp_all add: h1_def linked_upd_prev)
  have 2: "linked h2 (us @ [a])" "linked h2 (b # vs)"
    using 1 fresh by (simp_all add: h2_def linked_upd_other)
  have 3: "linked h3 (us @ [a])" "linked h3 (b # vs)"
    using 2 ca' a by (simp_all add: h3_def linked_upd_next)
  have "linked h3 (a # n # b # vs)"
    using 3(2) nab cb ca' by (auto simp: h3_def h2_def h1_def)
  with 3(1) have "linked h3 (us @ a # n # b # vs)" using linked_append by blast
  then show ?thesis using run by (auto simp: h3_def h2_def h1_def)
qed

lemma delete_between:
  assumes l: "linked h (us @ a # e # b # vs)" and e: "e \<notin> set (us @ a # b # vs)"
    and a: "a \<notin> set us" "a \<notin> set (butlast (b # vs))"
    and b: "b \<notin> set (tl (us @ [a]))" "b \<notin> set vs"
  shows "\<exists>h'. list_del e h = Inr h' \<and> linked h' (us @ a # b # vs)
           \<and> h' e = Some \<lparr>nxt = 0, prv = 0\<rparr> \<and> (\<forall>q. q \<notin> {e, a, b} \<longrightarrow> h' q = h q)"
proof -
  have la: "linked h (us @ [a])" and "linked h (a # e # b # vs)"
    using l linked_append by blast+
  then have lb: "linked h (b # vs)" and ce: "h e = Some \<lparr>nxt = b, prv = a\<rparr>"
    and eb: "e \<noteq> b" "e \<noteq> a"
    using e by auto
  obtain cb where cb: "h b = Some cb" using linked_allocated [OF lb, of b] by auto
  obtain ca where ca: "h a = Some ca" using linked_allocated [OF la, of a] by auto
  define h1 where "h1 = h(b \<mapsto> cb\<lparr>prv := a\<rparr>)"
  obtain ca' where ca': "h1 a = Some ca'" using ca by (cases "a = b") (simp_all add: h1_def)
  define h2 where "h2 = h1(a \<mapsto> ca'\<lparr>nxt := b\<rparr>)"
  define h3 where "h3 = h2(e \<mapsto> \<lparr>nxt = 0, prv = 0\<rparr>)"
  have run: "list_del e h = Inr h3"
    using cb ce eb ca'
    by (auto simp: list_del_def list_del_between_def read_next_def read_prev_def
        write_next_def write_prev_def h3_def h2_def h1_def)
  have 1: "linked h1 (us @ [a])" "linked h1 (b # vs)"
    using la lb cb b by (simp_all add: h1_def linked_upd_prev)
  have 2: "linked h2 (us @ [a])" "linked h2 (b # vs)"
    using 1 ca' a by (simp_all add: h2_def linked_upd_next)
  have 3: "linked h3 (us @ [a])" "linked h3 (b # vs)"
    using 2 e by (simp_all add: h3_def linked_upd_other)
  have "linked h3 (a # b # vs)"
    using 3(2) eb cb ca' by (auto simp: h3_def h2_def h1_def)
  with 3(1) have "linked h3 (us @ a # b # vs)" using linked_append by blast
  then show ?thesis using run eb by (auto simp: h3_def h2_def h1_def)
qed

text \<open>The effect of each operation on the list, and the cells it touches.\<close>

lemma list_add_dlist:
  assumes d: "dlist h head xs" and n: "h n \<noteq> None" "n \<notin> set (head # xs)"
  shows "\<exists>h'. list_add n head h = Inr h' \<and> dlist h' head (n # xs)
           \<and> (\<forall>q. q \<notin> set (n # head # xs) \<longrightarrow> h' q = h q)"
proof -
  have dist: "distinct (head # xs)" using d by (simp add: dlist_def)
  then obtain b vs where bvs: "xs @ [head] = b # vs" "butlast (b # vs) = xs" "b \<notin> set vs"
    "set (b # vs) = set (head # xs)" "b \<in> set (head # xs)" by (rule ring_front)
  have l: "linked h ([] @ [head])" "linked h (b # vs)"
    using d bvs(1) by (auto simp: dlist_def)
  obtain h' where run: "list_add_between n head b h = Inr h'"
    and l': "linked h' ([] @ head # n # b # vs)" and fr: "\<forall>q. q \<notin> {n, head, b} \<longrightarrow> h' q = h q"
    using insert_between [OF l n(1)] n(2) dist bvs by auto
  have "read_next h head = Inr b" using dlist_next [OF d] bvs(1) by simp
  with run have "list_add n head h = Inr h'" by (simp add: list_add_def)
  moreover have "dlist h' head (n # xs)"
    using l' dist n(2) bvs(1) by (simp add: dlist_def)
  moreover have "\<forall>q. q \<notin> set (n # head # xs) \<longrightarrow> h' q = h q"
    using fr bvs(5) by auto
  ultimately show ?thesis by blast
qed

lemma list_add_tail_dlist:
  assumes d: "dlist h head xs" and n: "h n \<noteq> None" "n \<notin> set (head # xs)"
  shows "\<exists>h'. list_add_tail n head h = Inr h' \<and> dlist h' head (xs @ [n])
           \<and> (\<forall>q. q \<notin> set (n # head # xs) \<longrightarrow> h' q = h q)"
proof -
  have dist: "distinct (head # xs)" using d by (simp add: dlist_def)
  then obtain us a where usa: "head # xs = us @ [a]" "tl (us @ [a]) = xs" "a \<notin> set us"
    "set (us @ [a]) = set (head # xs)" "a \<in> set (head # xs)" by (rule ring_back)
  have ring: "head # xs @ ys = us @ a # ys" for ys
    using usa(1) by (metis append.assoc append_Cons append_Nil)
  have l: "linked h (us @ [a])" "linked h [head]"
    using d linked_append [of h us a "[head]"] ring [of "[head]"]
    by (auto simp: dlist_def linked_allocated)
  have "n \<notin> set (us @ a # [head])" and "head \<notin> set (tl (us @ [a]))"
    using n(2) dist usa(2) usa(4) by auto
  then obtain h' where run: "list_add_between n a head h = Inr h'"
    and l': "linked h' (us @ a # n # [head])" and fr: "\<forall>q. q \<notin> {n, a, head} \<longrightarrow> h' q = h q"
    using insert_between [OF l n(1)] usa(3) by auto
  have "read_prev h head = Inr a" using dlist_prev [OF d] usa(1) by simp
  with run have "list_add_tail n head h = Inr h'" by (simp add: list_add_tail_def)
  moreover have "dlist h' head (xs @ [n])"
    using l' dist n(2) by (simp add: dlist_def flip: ring)
  moreover have "\<forall>q. q \<notin> set (n # head # xs) \<longrightarrow> h' q = h q"
    using fr usa(5) by auto
  ultimately show ?thesis by blast
qed

lemma list_del_dlist:
  assumes d: "dlist h head (xs @ e # ys)"
  shows "\<exists>h'. list_del e h = Inr h' \<and> dlist h' head (xs @ ys)
           \<and> h' e = Some \<lparr>nxt = 0, prv = 0\<rparr>
           \<and> (\<forall>q. q \<notin> set (head # xs @ e # ys) \<longrightarrow> h' q = h q)"
proof -
  have dist: "distinct (head # xs @ e # ys)" using d by (simp add: dlist_def)
  then have dxs: "distinct (head # xs)" and dys: "distinct (head # ys)" by auto
  from dxs obtain us a where usa: "head # xs = us @ [a]" "tl (us @ [a]) = xs" "a \<notin> set us"
    "set (us @ [a]) = set (head # xs)" "a \<in> set (head # xs)" by (rule ring_back)
  from dys obtain b vs where bvs: "ys @ [head] = b # vs" "butlast (b # vs) = ys" "b \<notin> set vs"
    "set (b # vs) = set (head # ys)" "b \<in> set (head # ys)" by (rule ring_front)
  have ring: "head # xs @ zs = us @ a # zs" for zs
    using usa(1) by (metis append.assoc append_Cons append_Nil)
  have l: "linked h (us @ a # e # b # vs)"
    using d ring [of "e # b # vs"] bvs(1) by (simp add: dlist_def)
  have e: "e \<notin> set (us @ a # b # vs)"
  proof -
    have "set (us @ a # b # vs) = set (us @ [a]) \<union> set (b # vs)" by auto
    then show ?thesis using dist unfolding usa(4) bvs(4) by auto
  qed
  have a: "a \<notin> set (butlast (b # vs))" and b: "b \<notin> set (tl (us @ [a]))"
    using dist usa(5) bvs(5) unfolding usa(2) bvs(2) by auto
  obtain h' where run: "list_del e h = Inr h'" and l': "linked h' (us @ a # b # vs)"
    and z: "h' e = Some \<lparr>nxt = 0, prv = 0\<rparr>" and fr: "\<forall>q. q \<notin> {e, a, b} \<longrightarrow> h' q = h q"
    using delete_between [OF l e usa(3) a b bvs(3)] by blast
  have "dlist h' head (xs @ ys)"
    using l' dist bvs(1) by (simp add: dlist_def flip: ring)
  moreover have "\<forall>q. q \<notin> set (head # xs @ e # ys) \<longrightarrow> h' q = h q"
    using fr usa(5) bvs(5) by auto
  ultimately show ?thesis using run z by blast
qed

lemma list_empty_dlist: "dlist h head xs \<Longrightarrow> list_empty head h = Inr (xs = [])"
  using dlist_next [of h head xs] by (cases xs) (auto simp: list_empty_def dlist_def)

lemma list_first_entry_dlist:
  "dlist h head (x # xs) \<Longrightarrow> list_first_entry head h = Inr x"
  by (simp add: list_first_entry_def dlist_next)

lemma read_next_inside:
  assumes "dlist h head (xs @ p # ys)"
  shows "read_next h p = Inr (hd (ys @ [head]))"
proof -
  have "linked h ((head # xs) @ p # (ys @ [head]))" using assms by (simp add: dlist_def)
  then have "linked h (p # (ys @ [head]))" using linked_append by blast
  then show ?thesis by (cases ys) (auto simp: read_next_def)
qed

text \<open>A traversal visits exactly the cells of the list, in order, and returns.\<close>

lemma list_for_each_from:
  assumes "dlist h head (done @ todo)"
  shows "while_option
       (\<lambda>(pos, visited). case pos of Inl _ \<Rightarrow> False | Inr p \<Rightarrow> p \<noteq> head)
       (\<lambda>(pos, visited). case pos of Inl e \<Rightarrow> (Inl e, visited)
                         | Inr p \<Rightarrow> (read_next h p, visited @ [p]))
       (Inr (hd (todo @ [head])), done) = Some (Inr head, done @ todo)"
  using assms
proof (induction todo arbitrary: "done")
  case Nil
  then show ?case by (simp add: while_option_exit)
next
  case (Cons p todo)
  then have "p \<noteq> head" and nx: "read_next h p = Inr (hd (todo @ [head]))"
    using read_next_inside [of h head "done" p todo] by (auto simp: dlist_def)
  with Cons.IH [of "done @ [p]"] Cons.prems show ?case
    by (subst while_option_unfold) simp
qed

lemma list_for_each_dlist:
  "dlist h head xs \<Longrightarrow> list_for_each head h = Some (Inr head, xs)"
  using list_for_each_from [of h head "[]" xs]
  by (simp add: list_for_each_def dlist_next)

lemma bucket_pop_Nil: "dlist h head [] \<Longrightarrow> bucket_pop head h = Inr (None, h)"
  by (simp add: bucket_pop_def list_empty_dlist)

lemma bucket_pop_Cons:
  assumes "dlist h head (x # xs)"
  shows "\<exists>h'. bucket_pop head h = Inr (Some x, h') \<and> dlist h' head xs
           \<and> (\<forall>q. q \<notin> set (head # x # xs) \<longrightarrow> h' q = h q)"
  using list_del_dlist [of h head "[]" x xs] assms
  by (auto simp: bucket_pop_def list_empty_dlist list_first_entry_dlist)

section \<open>The interface the components rely on\<close>

text \<open>
  What a component that keeps a queue of cells uses of \<^verbatim>\<open>list.h\<close>: a representation
  relation between a heap and the cells behind a head, an append, and a removal at
  the front, each leaving the cells outside the list alone.
\<close>

locale cell_queue =
  fixes rep :: "('p \<Rightarrow> 'c option) \<Rightarrow> 'p \<Rightarrow> 'p list \<Rightarrow> bool"
    and put :: "'p \<Rightarrow> 'p \<Rightarrow> ('p \<Rightarrow> 'c option) \<Rightarrow> ('p \<Rightarrow> 'c option) res"
    and get :: "'p \<Rightarrow> ('p \<Rightarrow> 'c option) \<Rightarrow> ('p option \<times> ('p \<Rightarrow> 'c option)) res"
  assumes put_law: "rep h hp xs \<Longrightarrow> h n \<noteq> None \<Longrightarrow> n \<notin> set (hp # xs) \<Longrightarrow>
      \<exists>h'. put n hp h = Inr h' \<and> rep h' hp (xs @ [n]) \<and> (\<forall>q. q \<notin> set (n # hp # xs) \<longrightarrow> h' q = h q)"
    and get_Nil: "rep h hp [] \<Longrightarrow> get hp h = Inr (None, h)"
    and get_Cons: "rep h hp (x # xs) \<Longrightarrow>
      \<exists>h'. get hp h = Inr (Some x, h') \<and> rep h' hp xs \<and> (\<forall>q. q \<notin> set (hp # x # xs) \<longrightarrow> h' q = h q)"
    and rep_local: "(\<And>p. p \<in> set (hp # xs) \<Longrightarrow> h' p = h p) \<Longrightarrow> rep h' hp xs = rep h hp xs"
begin

lemma put_all:
  assumes "rep h hp xs" and "distinct ns" and "\<forall>n\<in>set ns. h n \<noteq> None \<and> n \<notin> set (hp # xs)"
  shows "\<exists>h'. each_res (\<lambda>n. put n hp) ns h = Inr h' \<and> rep h' hp (xs @ ns)
           \<and> (\<forall>q. q \<notin> set (hp # xs @ ns) \<longrightarrow> h' q = h q)"
  using assms
proof (induction ns arbitrary: h xs)
  case Nil
  then show ?case by simp
next
  case (Cons n ns)
  then obtain h1 where h1: "put n hp h = Inr h1" "rep h1 hp (xs @ [n])"
    "\<forall>q. q \<notin> set (n # hp # xs) \<longrightarrow> h1 q = h q"
    using put_law [of h hp xs n] by auto
  have "\<forall>m\<in>set ns. h1 m \<noteq> None \<and> m \<notin> set (hp # xs @ [n])"
    using Cons.prems h1(3) by auto
  with Cons.IH [OF h1(2)] Cons.prems(2) obtain h' where
    "each_res (\<lambda>n. put n hp) ns h1 = Inr h'" "rep h' hp ((xs @ [n]) @ ns)"
    "\<forall>q. q \<notin> set (hp # (xs @ [n]) @ ns) \<longrightarrow> h' q = h1 q" by auto
  with h1 show ?case by auto
qed

lemma put_keeps_other:
  assumes "rep h hp xs" "h n \<noteq> None" "n \<notin> set (hp # xs)"
    and "rep h hp2 ys" "set (hp2 # ys) \<inter> set (n # hp # xs) = {}"
  shows "\<exists>h'. put n hp h = Inr h' \<and> rep h' hp (xs @ [n]) \<and> rep h' hp2 ys"
proof -
  from put_law [OF assms(1-3)] obtain h' where h': "put n hp h = Inr h'" "rep h' hp (xs @ [n])"
    and fr: "\<forall>q. q \<notin> set (n # hp # xs) \<longrightarrow> h' q = h q" by blast
  have "rep h' hp2 ys = rep h hp2 ys"
    using fr assms(5) by (intro rep_local) auto
  with h' assms(4) show ?thesis by blast
qed

end

interpretation ring: cell_queue dlist list_add_tail bucket_pop
  by unfold_locales
    (erule (2) list_add_tail_dlist, erule bucket_pop_Nil, erule bucket_pop_Cons, rule dlist_cong)

lemma pop_all_dlist:
  assumes "dlist h head (xs @ ys)"
  shows "\<exists>h'. pop_all (length xs) head h = Inr (xs, h') \<and> dlist h' head ys"
  using assms
proof (induction xs arbitrary: h)
  case Nil
  then show ?case by simp
next
  case (Cons x xs)
  then obtain h1 where h1: "bucket_pop head h = Inr (Some x, h1)" "dlist h1 head (xs @ ys)"
    using bucket_pop_Cons [of h head x "xs @ ys"] by auto
  with Cons.IH [OF h1(2)] show ?case by auto
qed

text \<open>The loops that empty a list by deleting every visited cell.\<close>

lemma read_next_ring:
  "dlist h head xs \<Longrightarrow> read_next h (hd (xs @ [head])) = Inr (hd (tl (xs @ [head]) @ [hd (xs @ [head])]))"
  using dlist_next [of h head xs] read_next_inside [of h head "[]" "hd xs" "tl xs"]
  by (cases xs) (auto simp: hd_append)

lemma list_for_each_entry_safe_del:
  assumes "dlist h head xs"
  shows "\<exists>h' n. list_for_each_entry_safe list_del head h = Some (Inr (head, n, h'), xs) \<and> dlist h' head []
           \<and> (\<forall>q. q \<notin> set (head # xs) \<longrightarrow> h' q = h q)"
proof -
  let ?b = "\<lambda>(s, visited). case s of Inl _ \<Rightarrow> False | Inr (pos, n, h) \<Rightarrow> pos \<noteq> head"
  let ?c = "\<lambda>(s, visited). case s of Inl e \<Rightarrow> (Inl e, visited)
          | Inr (pos, n, h) \<Rightarrow>
              (and_then (list_del pos h) (\<lambda>h. and_then (read_next h n) (\<lambda>n'. Inr (n, n', h))), visited @ [pos])"
  let ?n = "\<lambda>ys. hd (tl (ys @ [head]) @ [hd (ys @ [head])])"
  have "\<exists>h' n. while_option ?b ?c (Inr (hd (ys @ [head]), ?n ys, h), done)
        = Some (Inr (head, n, h'), done @ ys) \<and> dlist h' head []
        \<and> (\<forall>q. q \<notin> set (head # ys) \<longrightarrow> h' q = h q)" if "dlist h head ys" for h ys "done"
    using that
  proof (induction ys arbitrary: h "done")
    case Nil
    then show ?case by (simp add: while_option_exit)
  next
    case (Cons p ys)
    obtain h1 where h1: "list_del p h = Inr h1" "dlist h1 head ys"
      "\<forall>q. q \<notin> set (head # p # ys) \<longrightarrow> h1 q = h q"
      using list_del_dlist [of h head "[]" p ys] Cons.prems by auto
    have "p \<noteq> head" using Cons.prems by (auto simp: dlist_def)
    moreover have "?n (p # ys) = hd (ys @ [head])" by (cases ys) auto
    ultimately have step: "while_option ?b ?c (Inr (hd ((p # ys) @ [head]), ?n (p # ys), h), done)
        = while_option ?b ?c (Inr (hd (ys @ [head]), ?n ys, h1), done @ [p])"
      using h1(1) read_next_ring [OF h1(2)] by (subst while_option_unfold) simp
    obtain h' n where "while_option ?b ?c (Inr (hd (ys @ [head]), ?n ys, h1), done @ [p])
        = Some (Inr (head, n, h'), (done @ [p]) @ ys)" "dlist h' head []"
        "\<forall>q. q \<notin> set (head # ys) \<longrightarrow> h' q = h1 q"
      using Cons.IH [OF h1(2), of "done @ [p]"] by blast
    then show ?case using h1(3) unfolding step by auto
  qed
  from this [OF assms, of "[]"] show ?thesis
    by (simp add: list_for_each_entry_safe_def dlist_next [OF assms] read_next_ring [OF assms])
qed

section \<open>Properties\<close>

text \<open>A heap of single cells, each an empty list of its own, for the concrete instances.\<close>

definition cells :: "ptr set \<Rightarrow> heap" where
  "cells A = (\<lambda>p. if p \<in> A then Some \<lparr>nxt = p, prv = p\<rparr> else None)"

text \<open>
  C18. A list used as a queue is first in, first out: whatever is in a well-formed list,
  appending any distinct unlinked cells with \<^verbatim>\<open>list_add_tail\<close> and then taking cells with the
  critical section of \<^verbatim>\<open>get_frame_from_bucket\<close> never faults, returns the old cells and then
  the new ones in the order they were added, and leaves a well-formed empty list.
\<close>

theorem list_queue_fifo:
  assumes "dlist h head xs" and "distinct ns" and "\<forall>n\<in>set ns. h n \<noteq> None \<and> n \<notin> set (head # xs)"
  shows "\<exists>h1 h2. each_res (\<lambda>n. list_add_tail n head) ns h = Inr h1 \<and>
    pop_all (length (xs @ ns)) head h1 = Inr (xs @ ns, h2) \<and> dlist h2 head []"
proof -
  obtain h1 where h1: "each_res (\<lambda>n. list_add_tail n head) ns h = Inr h1" "dlist h1 head ((xs @ ns) @ [])"
    using ring.put_all [OF assms] by auto
  with pop_all_dlist [OF h1(2)] show ?thesis by blast
qed

theorem list_queue_fifo_witness:
  "\<exists>h1 h2. each_res (\<lambda>n. list_add_tail n 1) [4, 2, 3] (cells {1, 2, 3, 4}) = Inr h1 \<and>
    pop_all 3 1 h1 = Inr ([4, 2, 3], h2) \<and> dlist h2 1 []"
  using list_queue_fifo [of "cells {1, 2, 3, 4}" 1 "[]" "[4, 2, 3]"]
  by (simp add: cells_def dlist_def eval_nat_numeral)

text \<open>
  C19. \<^verbatim>\<open>list_del\<close> removes exactly the given cell: the rest of the list stays well formed
  in its order, a traversal of it returns and visits exactly the remaining cells,
  every list that shares no cell with it is unchanged, and the removed cell's null
  links make a second \<^verbatim>\<open>list_del\<close> of it a null dereference instead of a silent
  corruption.
\<close>

theorem list_del_exact:
  assumes "dlist h head (xs @ e # ys)" and "dlist h head2 zs"
    and "set (head2 # zs) \<inter> set (head # xs @ e # ys) = {}" and "h 0 = None"
  shows "\<exists>h'. list_del e h = Inr h' \<and> dlist h' head (xs @ ys) \<and>
    list_for_each head h' = Some (Inr head, xs @ ys) \<and> dlist h' head2 zs \<and>
    list_del e h' = Inl Null_Deref"
proof -
  obtain h' where h': "list_del e h = Inr h'" "dlist h' head (xs @ ys)" "h' e = Some \<lparr>nxt = 0, prv = 0\<rparr>"
    and fr: "\<forall>q. q \<notin> set (head # xs @ e # ys) \<longrightarrow> h' q = h q"
    using list_del_dlist [OF assms(1)] by blast
  have "dlist h' head2 zs = dlist h head2 zs"
    using fr assms(3) by (intro dlist_cong) auto
  moreover have "0 \<notin> set (head # xs @ e # ys)"
    using assms(1,4) linked_allocated [of h "head # (xs @ e # ys) @ [head]" 0] by (auto simp: dlist_def)
  then have "h' 0 = None" using fr assms(4) by auto
  then have "list_del e h' = Inl Null_Deref"
    using h'(3) by (simp add: list_del_def list_del_between_def read_next_def read_prev_def write_prev_def)
  ultimately show ?thesis using h' assms(2) list_for_each_dlist [OF h'(2)] by blast
qed

theorem list_del_exact_witness:
  "\<exists>h'. list_del 2 ((cells {4})(1 \<mapsto> \<lparr>nxt = 2, prv = 3\<rparr>, 2 \<mapsto> \<lparr>nxt = 3, prv = 1\<rparr>, 3 \<mapsto> \<lparr>nxt = 1, prv = 2\<rparr>)) = Inr h' \<and>
    dlist h' 1 [3] \<and> list_for_each 1 h' = Some (Inr 1, [3]) \<and> dlist h' 4 [] \<and> list_del 2 h' = Inl Null_Deref"
  using list_del_exact [of "(cells {4})(1 \<mapsto> \<lparr>nxt = 2, prv = 3\<rparr>, 2 \<mapsto> \<lparr>nxt = 3, prv = 1\<rparr>, 3 \<mapsto> \<lparr>nxt = 1, prv = 2\<rparr>)"
      1 "[]" 2 "[3]" 4 "[]"]
  by (simp add: cells_def dlist_def)

text \<open>
  C20. Emptying a list with \<^verbatim>\<open>list_for_each_entry_safe\<close> and \<^verbatim>\<open>list_del\<close>, as \<^verbatim>\<open>free_frame\<close> and
  \<^verbatim>\<open>cleanup\<close> do: the loop returns without a fault, visits every cell
  once in the list's order, and leaves the list empty and every other cell as it was.
\<close>

theorem drain_list:
  assumes "dlist h head xs"
  shows "\<exists>h' n. list_for_each_entry_safe list_del head h = Some (Inr (head, n, h'), xs) \<and>
    list_empty head h' = Inr True \<and> dlist h' head [] \<and> (\<forall>q. q \<notin> set (head # xs) \<longrightarrow> h' q = h q)"
  using list_for_each_entry_safe_del [OF assms] list_empty_dlist [of _ head "[]"] by auto

theorem drain_list_witness:
  "\<exists>h' n. list_for_each_entry_safe list_del 1 [1 \<mapsto> \<lparr>nxt = 2, prv = 3\<rparr>, 2 \<mapsto> \<lparr>nxt = 3, prv = 1\<rparr>, 3 \<mapsto> \<lparr>nxt = 1, prv = 2\<rparr>]
      = Some (Inr (1, n, h'), [2, 3]) \<and>
    list_empty 1 h' = Inr True \<and> dlist h' 1 [] \<and>
    (\<forall>q. q \<notin> set [1, 2, 3] \<longrightarrow> h' q = [1 \<mapsto> \<lparr>nxt = 2, prv = 3\<rparr>, 2 \<mapsto> \<lparr>nxt = 3, prv = 1\<rparr>, 3 \<mapsto> \<lparr>nxt = 1, prv = 2\<rparr>] q)"
proof -
  have "dlist [1 \<mapsto> \<lparr>nxt = 2, prv = 3\<rparr>, 2 \<mapsto> \<lparr>nxt = 3, prv = 1\<rparr>, 3 \<mapsto> \<lparr>nxt = 1, prv = 2\<rparr>] 1 [2, 3]"
    by (simp add: dlist_def)
  from drain_list [OF this] show ?thesis .
qed

end
