(* ===== verification/Common.thy ===== *)
theory Common
  imports Prelude "HOL-Library.Sublist"
begin

text \<open>
  The helpers of \<^verbatim>\<open>lib/common.c\<close>: random identifiers, the queue-name hash on 64-bit
  words, and the recursive directory creation, as the sequence of paths it passes to
  \<^verbatim>\<open>mkdir\<close>.
\<close>

section \<open>Definitions\<close>

definition alphanum :: "byte list" where
  "alphanum = ''0123456789'' @ ''ABCDEFGHIJKLMNOPQRSTUVWXYZ'' @ ''abcdefghijklmnopqrstuvwxyz''"

text \<open>
  \<^verbatim>\<open>gen_random(s, len)\<close>: the \<open>len\<close> bytes stored at \<open>s\<close>. The values that \<^verbatim>\<open>rand()\<close>
  returns are the sequence \<open>rnd\<close>, of which the first \<open>k\<close> have been consumed.
\<close>

definition gen_random :: "(nat \<Rightarrow> nat) \<Rightarrow> nat \<Rightarrow> nat \<Rightarrow> byte list" where
  "gen_random rnd k len =
     map (\<lambda>i. alphanum ! (rnd (k + i) mod length alphanum)) [0..<len - 1] @ [NUL]"

fun hash_loop :: "64 word \<Rightarrow> byte list \<Rightarrow> 64 word" where
  "hash_loop hash [] = hash"
| "hash_loop hash (c # str) =
     (if c = NUL then hash else hash_loop ((push_bit 5 hash + hash) + of_char c) str)"

definition get_hash :: "byte list \<Rightarrow> 64 word" where
  "get_hash str = hash_loop 5381 str"

text \<open>
  \<^verbatim>\<open>mkdir_recursive(dir)\<close>: \<^verbatim>\<open>tmp\<close> is a zeroed array of 512 bytes, \<^verbatim>\<open>snprintf\<close> returns the
  length of \<open>dir\<close> whether or not it fits, and \<^verbatim>\<open>tmp[len - 1]\<close> is read before the loop.
  The result is the list of paths given to \<^verbatim>\<open>mkdir\<close>, in order.
\<close>

fun mkdir_loop :: "byte list \<Rightarrow> byte list \<Rightarrow> byte list list" where
  "mkdir_loop pre [] = []"
| "mkdir_loop pre (c # cs) =
     (if c = CHR ''/'' then [pre] else []) @ mkdir_loop (pre @ [c]) cs"

definition mkdir_recursive :: "byte list \<Rightarrow> byte list list res" where
  "mkdir_recursive dir =
     (let len = strlen dir in
      if len = 0 \<or> len > 512 then Inl Buffer_Overflow
      else let tmp = take 511 (cstr dir);
               tmp = (if len \<le> 511 \<and> last tmp = CHR ''/'' then butlast tmp else tmp)
           in Inr (mkdir_loop (take 1 tmp) (drop 1 tmp) @ [tmp]))"

section \<open>Random identifiers\<close>

lemma length_gen_random [simp]: "0 < len \<Longrightarrow> length (gen_random rnd k len) = len"
  by (simp add: gen_random_def)

lemma length_alphanum: "length alphanum = 62"
  by (simp add: alphanum_def)

lemma gen_random_chars:
  "c \<in> set (butlast (gen_random rnd k len)) \<Longrightarrow> c \<in> set alphanum"
  by (auto simp: gen_random_def length_alphanum)

lemma alphanum_plain: "c \<in> set alphanum \<Longrightarrow> c \<noteq> NUL \<and> c \<noteq> NL \<and> c \<noteq> CR \<and> c \<noteq> CHR '':''"
  by (auto simp: alphanum_def)

lemma cstr_gen_random: "cstr (gen_random rnd k len) = butlast (gen_random rnd k len)"
proof -
  have "NUL \<notin> set (butlast (gen_random rnd k len))"
    using gen_random_chars alphanum_plain by blast
  moreover have "gen_random rnd k len = butlast (gen_random rnd k len) @ [NUL]"
    by (simp add: gen_random_def)
  ultimately show ?thesis
    using cstr_append_NUL [of "butlast (gen_random rnd k len)" "[]"] by metis
qed

lemma strlen_gen_random: "strlen (gen_random rnd k len) = len - 1"
  by (simp add: strlen_def cstr_gen_random) (simp add: gen_random_def)

section \<open>The queue-name hash\<close>

text \<open>The polynomial that the shift-and-add loop computes.\<close>

fun djb2 :: "nat \<Rightarrow> byte list \<Rightarrow> nat" where
  "djb2 h [] = h"
| "djb2 h (c # cs) = djb2 (33 * h + of_char c) cs"

lemma hash_step: "push_bit 5 h + h = 33 * (h :: 64 word)"
  by (simp add: push_bit_eq_mult)

lemma hash_loop_cstr: "hash_loop h s = hash_loop h (cstr s)"
  by (induction h s rule: hash_loop.induct) auto

lemma hash_loop_djb2:
  "NUL \<notin> set s \<Longrightarrow> hash_loop (of_nat n) s = of_nat (djb2 n s)"
proof (induction s arbitrary: n)
  case Nil
  then show ?case by simp
next
  case (Cons c s)
  have "push_bit 5 (of_nat n) + of_nat n + of_char c = (of_nat (33 * n + of_char c) :: 64 word)"
    by (simp add: hash_step of_nat_of_char)
  then have "hash_loop (of_nat n) (c # s) = hash_loop (of_nat (33 * n + of_char c)) s"
    using Cons.prems by (simp only: hash_loop.simps) auto
  with Cons.IH [of "33 * n + of_char c"] Cons.prems show ?case by simp
qed

lemma get_hash_djb2: "get_hash s = of_nat (djb2 5381 (cstr s))"
proof -
  have "get_hash s = hash_loop (of_nat 5381) (cstr s)"
    by (simp add: get_hash_def hash_loop_cstr [of _ s])
  also have "\<dots> = of_nat (djb2 5381 (cstr s))" by (rule hash_loop_djb2) simp
  finally show ?thesis .
qed

section \<open>Recursive directory creation\<close>

lemma mkdir_loop_complete:
  "prefix (pre @ ds @ [CHR ''/'']) (pre @ cs) \<Longrightarrow> pre @ ds \<in> set (mkdir_loop pre cs)"
proof (induction pre cs arbitrary: ds rule: mkdir_loop.induct)
  case (1 pre)
  then show ?case by simp
next
  case (2 pre c cs)
  then show ?case by (cases ds) auto
qed

lemma mkdir_loop_sound: "q \<in> set (mkdir_loop pre cs) \<Longrightarrow> prefix pre q \<and> prefix (q @ ''/'') (pre @ cs)"
proof (induction pre cs rule: mkdir_loop.induct)
  case (1 pre)
  then show ?case by simp
next
  case (2 pre c cs)
  show ?case
  proof (cases "q \<in> set (mkdir_loop (pre @ [c]) cs)")
    case True
    with 2 have "prefix (pre @ [c]) q \<and> prefix (q @ ''/'') ((pre @ [c]) @ cs)" by blast
    then show ?thesis by (auto dest: append_prefixD)
  next
    case False
    with 2 show ?thesis by (auto split: if_splits)
  qed
qed

lemma mkdir_loop_prefix:
  "q \<in> set (mkdir_loop pre cs) \<Longrightarrow> prefix pre q \<and> strict_prefix q (pre @ cs)"
  using mkdir_loop_sound [of q pre cs]
  by (metis append_prefixD append_self_conv list.distinct(1) prefix_order.antisym prefixI
      strict_prefix_def)

lemma mkdir_loop_sorted: "sorted_wrt strict_prefix (mkdir_loop pre cs)"
proof (induction pre cs rule: mkdir_loop.induct)
  case (1 pre)
  then show ?case by simp
next
  case (2 pre c cs)
  have "strict_prefix pre q" if "q \<in> set (mkdir_loop (pre @ [c]) cs)" for q
    using mkdir_loop_prefix [OF that] by (metis append_prefixD prefix_snoc same_prefix_nil
        strict_prefix_def append_self_conv list.distinct(1) prefix_order.antisym)
  with 2 show ?case by auto
qed

section \<open>Properties\<close>

text \<open>C29. The hash of a queue name is the polynomial djb2 hash of its bytes up to the
  terminating null byte, modulo \<open>2 ^ 64\<close>: the shift-and-add of the loop never differs
  from the multiplication by 33 it stands for, also when it wraps around.\<close>

theorem get_hash_polynomial: "unat (get_hash s) = djb2 5381 (cstr s) mod 2 ^ 64"
  by (simp add: get_hash_djb2 unsigned_of_nat take_bit_eq_mod)

text \<open>A generated identifier of \<open>len\<close> bytes is a C string of \<open>len - 1\<close> letters and
  digits followed by its null terminator, whatever \<^verbatim>\<open>rand\<close> returns.\<close>

theorem gen_random_wellformed:
  assumes "0 < len"
  shows "length (gen_random rnd k len) = len \<and> last (gen_random rnd k len) = NUL
    \<and> strlen (gen_random rnd k len) = len - 1
    \<and> set (butlast (gen_random rnd k len)) \<subseteq> set alphanum"
proof -
  have "last (gen_random rnd k len) = NUL" by (simp add: gen_random_def)
  with assms gen_random_chars strlen_gen_random [of rnd k len] show ?thesis by auto
qed

theorem gen_random_wellformed_witness:
  "length (gen_random (\<lambda>i. 7 * i) 3 10) = 10"
  using gen_random_wellformed [of 10 "\<lambda>i. 7 * i" 3] by simp

text \<open>For a path of 1 to 511 bytes without a trailing slash, \<^verbatim>\<open>mkdir_recursive\<close>
  creates exactly the ancestors named by the slashes after its first byte and then the
  path itself, every directory after all of its ancestors.\<close>

theorem mkdir_recursive_order:
  assumes "NUL \<notin> set dir" and "0 < length dir" and "length dir \<le> 511"
    and "last dir \<noteq> CHR ''/''"
  shows "\<exists>ps. mkdir_recursive dir = Inr (ps @ [dir]) \<and> sorted_wrt strict_prefix (ps @ [dir])
    \<and> (\<forall>q. q \<in> set ps \<longleftrightarrow> q \<noteq> [] \<and> prefix (q @ ''/'') dir)"
proof -
  obtain c cs where dir: "dir = c # cs" using assms(2) by (cases dir) auto
  have run: "mkdir_recursive dir = Inr (mkdir_loop [c] cs @ [dir])"
    using assms by (auto simp: mkdir_recursive_def strlen_def cstr_id dir)
  have srt: "sorted_wrt strict_prefix (mkdir_loop [c] cs @ [dir])"
    using mkdir_loop_sorted [of "[c]" cs] mkdir_loop_prefix [of _ "[c]" cs]
    by (auto simp: sorted_wrt_append dir)
  have "q \<in> set (mkdir_loop [c] cs) \<longleftrightarrow> q \<noteq> [] \<and> prefix (q @ ''/'') dir" for q
    using mkdir_loop_complete [of "[c]" "tl q" cs] mkdir_loop_sound [of q "[c]" cs]
    by (cases q) (auto simp: dir)
  with run srt show ?thesis by blast
qed

theorem mkdir_recursive_order_witness:
  "\<exists>ps. mkdir_recursive ''/tmp/newtmq/q'' = Inr (ps @ [''/tmp/newtmq/q''])
    \<and> ''/tmp'' \<in> set ps"
proof -
  have "\<exists>ps. mkdir_recursive ''/tmp/newtmq/q'' = Inr (ps @ [''/tmp/newtmq/q''])
    \<and> sorted_wrt strict_prefix (ps @ [''/tmp/newtmq/q''])
    \<and> (\<forall>q. q \<in> set ps \<longleftrightarrow> q \<noteq> [] \<and> prefix (q @ ''/'') ''/tmp/newtmq/q'')"
    by (rule mkdir_recursive_order) simp_all
  moreover have "prefix (''/tmp'' @ ''/'') ''/tmp/newtmq/q''" by simp
  ultimately show ?thesis by blast
qed

end
