(* ===== verification/Frame.thy ===== *)
theory Frame
  imports Common
begin

text \<open>
  STOMP frames: the data of \<^verbatim>\<open>newt/frame.h\<close>, \<^verbatim>\<open>stomp_setdata\<close> of \<^verbatim>\<open>lib/stomp.c\<close>, and the
  stream parser \<^verbatim>\<open>parse_frame\<close> of \<^verbatim>\<open>lib/frame.c\<close> that reads persisted frames back. A pointer
  into a buffer is the list of bytes from there on, a position is an offset, and the
  static \<^verbatim>\<open>prev_buffer\<close> is an explicit argument and result. The second half of the theory
  gives the wire format of a frame and shows what the line-by-line update of a frame
  does on it; both parsers of the program use these facts through the locale
  \<open>line_loop\<close>.
\<close>

section \<open>Data\<close>

definition STATUS_BORN :: flags where "STATUS_BORN = 1"
definition STATUS_INPUT_NAME :: flags where "STATUS_INPUT_NAME = 2"
definition STATUS_INPUT_HEADER :: flags where "STATUS_INPUT_HEADER = 4"
definition STATUS_INPUT_BODY :: flags where "STATUS_INPUT_BODY = 8"
definition STATUS_IN_BUCKET :: flags where "STATUS_IN_BUCKET = 16"
definition STATUS_IN_QUEUE :: flags where "STATUS_IN_QUEUE = 32"

lemmas status_defs = STATUS_BORN_def STATUS_INPUT_NAME_def STATUS_INPUT_HEADER_def
  STATUS_INPUT_BODY_def STATUS_IN_BUCKET_def STATUS_IN_QUEUE_def

text \<open>\<^verbatim>\<open>linedata_t\<close>: an array of \<^verbatim>\<open>LD_MAX\<close> bytes and the number of bytes in use.\<close>

record linedata_t =
  ld_data :: "byte list"
  ld_len :: nat

text \<open>
  \<^verbatim>\<open>frame_t\<close>: \<open>f_cinfo\<close> points to the connection, \<open>f_callback\<close> is the function pointer
  \<^verbatim>\<open>transaction_callback\<close> and \<open>f_tdata\<close> the string that \<^verbatim>\<open>transaction_data\<close> points to.
  Membership in the bucket, transaction and persistence lists is kept by those
  components.
\<close>

record frame_t =
  f_name :: "byte list"
  f_id :: "byte list"
  f_sock :: int
  f_status :: flags
  f_contentlen :: int
  f_has_contentlen :: int
  f_attrs :: "linedata_t list"
  f_data :: "linedata_t list"
  f_size :: int
  f_cinfo :: "ptr option"
  f_callback :: "ptr option"
  f_tdata :: "byte list option"

definition alloc_frame :: frame_t where
  "alloc_frame =
     \<lparr>f_name = replicate FNAME_LEN NUL, f_id = replicate FRAME_ID_LEN NUL, f_sock = 0,
      f_status = STATUS_BORN, f_contentlen = -1, f_has_contentlen = 0,
      f_attrs = [], f_data = [], f_size = 0, f_cinfo = None, f_callback = None, f_tdata = None\<rparr>"

text \<open>The command table.\<close>

definition finfo_arr :: "(byte list \<times> nat) list" where
  "finfo_arr =
     [(''SEND'', 4), (''SUBSCRIBE'', 9), (''CONNECT'', 7), (''STOMP'', 5), (''ACK'', 3),
      (''BEGIN'', 5), (''COMMIT'', 6), (''ABORT'', 5), (''NACK'', 4), (''UNSUBSCRIBE'', 11),
      (''DISCONNECT'', 10)]"

section \<open>Lines\<close>

definition IS_BL :: "byte list \<Rightarrow> bool" where "IS_BL buf \<longleftrightarrow> deref buf = NUL"
definition IS_NL :: "byte list \<Rightarrow> bool" where "IS_NL buf \<longleftrightarrow> deref buf = NL \<or> deref buf = CR"

text \<open>
  \<^verbatim>\<open>ssplit(start, end, &len, is_body)\<close>: \<open>s\<close> is the memory at \<^verbatim>\<open>start\<close> and \<open>n\<close> is
  \<^verbatim>\<open>end - start\<close>. The byte at \<^verbatim>\<open>p\<close> is read before \<^verbatim>\<open>p >= end\<close> is tested.
\<close>

definition ssplit_stop :: "byte list \<Rightarrow> nat \<Rightarrow> bool \<Rightarrow> nat \<Rightarrow> bool" where
  "ssplit_stop s n is_body count \<longleftrightarrow>
     deref (drop count s) = NUL \<or> (deref (drop count s) = NL \<and> \<not> is_body) \<or> count \<ge> n \<or> count \<ge> LD_MAX"

function ssplit_loop :: "byte list \<Rightarrow> nat \<Rightarrow> bool \<Rightarrow> ret \<Rightarrow> nat \<Rightarrow> ret \<times> nat" where
  "ssplit_loop s n is_body ret count =
     (let count = count + 1; ret = (if count \<ge> n then RET_ERROR else ret) in
      if ssplit_stop s n is_body count then (ret, count)
      else ssplit_loop s n is_body ret count)"
  by pat_completeness auto
termination
  by (relation "measure (\<lambda>(s, n, is_body, ret, count). LD_MAX - count)") (auto simp: ssplit_stop_def)

declare ssplit_loop.simps [simp del]

definition ssplit :: "byte list \<Rightarrow> nat \<Rightarrow> bool \<Rightarrow> ret \<times> nat" where
  "ssplit s n is_body =
     (if IS_BL s \<or> (\<not> is_body \<and> IS_NL s) then (RET_SUCCESS, 0)
      else ssplit_loop s n is_body RET_SUCCESS 0)"

text \<open>
  \<^verbatim>\<open>stomp_setdata\<close>: the line cut into nodes of at most \<^verbatim>\<open>LD_MAX\<close> bytes. \<open>ok offset\<close> says whether the
  node for the bytes from \<open>offset\<close> on can be allocated; otherwise the result is null and the rest of
  the line is lost. The callers ignore the result; they are modelled with \<open>allocated\<close>.
\<close>

definition mk_linedata :: "byte list \<Rightarrow> nat \<Rightarrow> linedata_t" where
  "mk_linedata data attrlen =
     \<lparr>ld_data = memcpy (replicate LD_MAX NUL) data attrlen, ld_len = attrlen\<rparr>"

function setdata_loop :: "(nat \<Rightarrow> bool) \<Rightarrow> byte list \<Rightarrow> nat \<Rightarrow> nat \<Rightarrow> linedata_t option \<times> linedata_t list" where
  "setdata_loop ok data len offset =
     (if \<not> ok offset then (None, [])
      else let attrlen = min (len - offset) LD_MAX; attr = mk_linedata (drop offset data) attrlen;
          offset = offset + attrlen
      in if offset < len then (case setdata_loop ok data len offset of (ret, attrs) \<Rightarrow> (ret, attr # attrs))
         else (Some attr, [attr]))"
  by pat_completeness auto
termination
  by (relation "measure (\<lambda>(ok, data, len, offset). len - offset)") (auto simp: size_consts)

declare setdata_loop.simps [simp del]

definition stomp_setdata :: "(nat \<Rightarrow> bool) \<Rightarrow> byte list \<Rightarrow> nat \<Rightarrow> linedata_t list \<Rightarrow> linedata_t option \<times> linedata_t list" where
  "stomp_setdata ok data len head = (case setdata_loop ok data len 0 of (ret, attrs) \<Rightarrow> (ret, head @ attrs))"

abbreviation allocated :: "nat \<Rightarrow> bool" where
  "allocated \<equiv> \<lambda>_. True"

section \<open>Building a frame line by line\<close>

fun setname_loop :: "(byte list \<times> nat) list \<Rightarrow> byte list \<Rightarrow> nat \<Rightarrow> frame_t \<Rightarrow> ret \<times> frame_t" where
  "setname_loop [] data len frame = (RET_ERROR, frame)"
| "setname_loop ((name, flen) # finfos) data len frame =
     (if len < flen then setname_loop finfos data len frame
      else if strncmp0 data name flen
      then (RET_SUCCESS, frame\<lparr>f_name := memcpy (f_name frame) data flen,
              f_status := SET (CLR (f_status frame)) STATUS_INPUT_HEADER\<rparr>)
      else setname_loop finfos data len frame)"

definition frame_setname :: "byte list \<Rightarrow> nat \<Rightarrow> frame_t \<Rightarrow> ret \<times> frame_t" where
  "frame_setname data len frame = setname_loop finfo_arr data len frame"

definition frame_finish :: "(nat \<Rightarrow> nat) \<Rightarrow> nat \<Rightarrow> frame_t \<Rightarrow> frame_t" where
  "frame_finish rnd k frame =
     frame\<lparr>f_status := CLR (f_status frame), f_id := gen_random rnd k FRAME_ID_LEN\<rparr>"

definition get_contentlen :: "byte list \<Rightarrow> int" where
  "get_contentlen input = atoi (drop 15 input)"

definition is_contentlen :: "byte list \<Rightarrow> nat \<Rightarrow> ret" where
  "is_contentlen input len =
     (if len > 15 \<and> strncmp0 input ''content-length:'' 15 then RET_SUCCESS else RET_ERROR)"

text \<open>\<^verbatim>\<open>while(! IS_NL(line)) { line++; len -= 1; }\<close>\<close>

fun seek_nl :: "byte list \<Rightarrow> nat \<Rightarrow> byte list \<times> nat" where
  "seek_nl [] len = ([], len)"
| "seek_nl (c # line) len = (if IS_NL (c # line) then (c # line, len) else seek_nl line (len - 1))"

definition frame_update :: "(nat \<Rightarrow> nat) \<Rightarrow> nat \<Rightarrow> byte list \<Rightarrow> nat \<Rightarrow> frame_t \<Rightarrow> int \<times> frame_t" where
  "frame_update rnd k line len frame =
     (if GET (f_status frame) STATUS_BORN then
        (case frame_setname line len frame of
           (RET_ERROR, frame) \<Rightarrow> (-1, frame)
         | (RET_SUCCESS, frame) \<Rightarrow> (0, frame\<lparr>f_size := f_size frame + (int len + 1)\<rparr>))
      else if GET (f_status frame) STATUS_INPUT_HEADER then
        (if IS_NL line \<and> f_contentlen frame > 0 then
           (0, frame\<lparr>f_status := SET (CLR (f_status frame)) STATUS_INPUT_BODY,
                     f_size := f_size frame + 1\<rparr>)
         else if IS_NL line \<and> f_contentlen frame = 0 then
           (1, (frame_finish rnd k frame)\<lparr>f_size := f_size frame + 1\<rparr>)
         else
           (let (line, len) = (if IS_NL line then seek_nl line len else (line, len)) in
            if len > 0 then
              (let frame = (if is_contentlen line len = RET_SUCCESS
                            then frame\<lparr>f_contentlen := get_contentlen line\<rparr> else frame)
               in (0, frame\<lparr>f_attrs := snd (stomp_setdata allocated line len (f_attrs frame)),
                            f_size := f_size frame + (int len + 1)\<rparr>))
            else (0, frame)))
      else if GET (f_status frame) STATUS_INPUT_BODY then
        (let frame = (if len > 0
                      then frame\<lparr>f_has_contentlen := f_has_contentlen frame + int len,
                                 f_data := snd (stomp_setdata allocated line len (f_data frame)),
                                 f_size := f_size frame + int len\<rparr>
                      else frame)
         in if f_contentlen frame \<le> f_has_contentlen frame
            then (1, (frame_finish rnd k frame)\<lparr>f_size := f_size frame + 1\<rparr>)
            else (0, frame))
      else (0, frame))"

section \<open>The stream parser\<close>

text \<open>
  The static variables of \<^verbatim>\<open>parse_frame\<close>. The list is the content of the allocation that
  \<^verbatim>\<open>prev_buffer\<close> points to, so that its length is the size of the allocation.
\<close>

record parse_static =
  prev_buffer :: "byte list option"
  prev_buffer_len :: nat

definition parse_static0 :: parse_static where
  "parse_static0 = \<lparr>prev_buffer = None, prev_buffer_len = 0\<rparr>"

text \<open>
  Saving an unfinished body: \<^verbatim>\<open>malloc(line_len)\<close> or \<^verbatim>\<open>realloc(prev_buffer, prev_buffer_len +
  line_len)\<close>, then a \<^verbatim>\<open>memset\<close> of \<^verbatim>\<open>input_len\<close> bytes and a \<^verbatim>\<open>strncpy\<close> of \<^verbatim>\<open>line_len\<close> bytes behind the
  old content.
\<close>

definition save_rest :: "byte list \<Rightarrow> nat \<Rightarrow> nat \<Rightarrow> parse_static \<Rightarrow> parse_static res" where
  "save_rest cur line_len input_len st =
     (let old = (case prev_buffer st of None \<Rightarrow> [] | Some b \<Rightarrow> b);
          cap = (case prev_buffer st of None \<Rightarrow> line_len | Some b \<Rightarrow> prev_buffer_len st + line_len)
      in if prev_buffer_len st + input_len > cap then Inl Buffer_Overflow
         else Inr \<lparr>prev_buffer = Some (take (prev_buffer_len st) old @ strncpy cur line_len),
                   prev_buffer_len = prev_buffer_len st + input_len\<rparr>)"

record parse_result =
  pr_ret :: ret
  pr_offset :: int
  pr_frame :: frame_t
  pr_static :: parse_static
  pr_rand :: nat

lemma ssplit_loop_pos: "snd (ssplit_loop s n is_body ret count) > count"
proof (induction s n is_body ret count rule: ssplit_loop.induct)
  case (1 s n is_body ret count)
  show ?case
  proof (cases "ssplit_stop s n is_body (count + 1)")
    case True
    then show ?thesis by (subst ssplit_loop.simps) simp
  next
    case False
    with 1 [OF refl refl] show ?thesis by (subst ssplit_loop.simps) simp
  qed
qed

lemma ssplit_posD: "(r, l) = ssplit s n is_body \<Longrightarrow> \<not> IS_BL s \<Longrightarrow> is_body \<Longrightarrow> 0 < l"
  using ssplit_loop_pos [of 0 s n is_body RET_SUCCESS]
  by (simp add: ssplit_def) (metis snd_conv)

text \<open>
  The loop of \<^verbatim>\<open>parse_frame\<close>, at offset \<open>cur\<close>. With a saved buffer, the line is copied
  behind the end of that allocation, which is then freed before \<^verbatim>\<open>frame_update\<close> reads it.
\<close>

function parse_loop :: "(nat \<Rightarrow> nat) \<Rightarrow> byte list \<Rightarrow> nat \<Rightarrow> nat \<Rightarrow> int \<Rightarrow> frame_t \<Rightarrow> parse_static \<Rightarrow> nat
    \<Rightarrow> parse_result res" where
  "parse_loop rnd input input_len cur offset frame st k =
     (if cur < input_len then
        (let body = GET (f_status frame) STATUS_INPUT_BODY;
             (ret, line_len) = ssplit (drop cur input) (input_len - cur) body in
         if ret = RET_ERROR \<and> body then
           and_then (save_rest (drop cur input) line_len input_len st) (\<lambda>st.
             Inr \<lparr>pr_ret = RET_ERROR, pr_offset = offset, pr_frame = frame, pr_static = st, pr_rand = k\<rparr>)
         else
           (case prev_buffer st of
              Some b \<Rightarrow> (if prev_buffer_len st + line_len > length b
                         then Inl Buffer_Overflow else Inl Use_After_Free)
            | None \<Rightarrow>
              (let line = drop cur input;
                   next = (if body then (if IS_BL line then cur + line_len + 1 else cur + line_len)
                           else cur + line_len + 1);
                   offset = int (next + 1);
                   (ret, frame') = frame_update rnd k line line_len frame in
               if ret > 0
               then Inr \<lparr>pr_ret = RET_SUCCESS, pr_offset = offset, pr_frame = frame', pr_static = st,
                         pr_rand = k + (FRAME_ID_LEN - 1)\<rparr>
               else parse_loop rnd input input_len next offset frame' st k)))
      else Inr \<lparr>pr_ret = RET_ERROR, pr_offset = offset, pr_frame = frame, pr_static = st, pr_rand = k\<rparr>)"
  by pat_completeness auto
termination
  by (relation "measure (\<lambda>(rnd, input, input_len, cur, offset, frame, st, k). input_len - cur)",
      simp, simp, safe) (drule (2) ssplit_posD, arith | arith)+

declare parse_loop.simps [simp del]

definition parse_frame :: "(nat \<Rightarrow> nat) \<Rightarrow> nat \<Rightarrow> parse_static \<Rightarrow> frame_t \<Rightarrow> byte list \<Rightarrow> nat
    \<Rightarrow> parse_result res" where
  "parse_frame rnd k st frame input input_len = parse_loop rnd input input_len 0 (-1) frame st k"

end
