(* ===== verification/Wire_Format.thy ===== *)
theory Wire_Format
  imports Frame
begin

text \<open>
  The wire format of a frame and what the parsers do on it. A \<open>message\<close> is a command,
  header lines and a body; \<open>encode\<close> is its byte sequence on a socket and in a queue's
  data file. The lemmas say what one line, one body chunk and one blank line do to a
  frame under construction; the locale \<open>line_loop\<close> is the interface of a parser loop that
  feeds lines to \<^verbatim>\<open>frame_update\<close>, and its lemma \<open>run_message\<close> takes such a loop over a
  whole message. \<^verbatim>\<open>parse_frame\<close> is the first instance.
\<close>

section \<open>Messages\<close>

record message =
  msg_name :: "byte list"
  msg_headers :: "byte list list"
  msg_body :: "byte list"

definition encode_headers :: "byte list list \<Rightarrow> byte list" where
  "encode_headers hs = concat (map (\<lambda>h. h @ [NL]) hs)"

definition encode_head :: "message \<Rightarrow> byte list" where
  "encode_head m = msg_name m @ [NL] @ encode_headers (msg_headers m)"

definition encode :: "message \<Rightarrow> byte list" where
  "encode m = msg_name m @ [NL] @ encode_headers (msg_headers m) @ [NL] @ msg_body m @ [NUL]"

lemma encode_head: "encode m = encode_head m @ NL # msg_body m @ [NUL]"
  by (simp add: encode_def encode_head_def)

definition is_cl :: "byte list \<Rightarrow> bool" where
  "is_cl h \<longleftrightarrow> 15 < length h \<and> take 15 h = ''content-length:''"

definition cl_step :: "byte list \<Rightarrow> int \<Rightarrow> int" where
  "cl_step h c = (if is_cl h then atoi (drop 15 h) else c)"

text \<open>
  A header line that survives the parsers as one line: not empty, no null byte and no
  line break inside, no carriage return at its start, not longer than a \<^verbatim>\<open>linedata_t\<close>, and
  a \<^verbatim>\<open>content-length\<close> whose value is not all white space (\<^verbatim>\<open>atoi\<close> would skip the line break).
\<close>

definition header_ok :: "byte list \<Rightarrow> bool" where
  "header_ok h \<longleftrightarrow> h \<noteq> [] \<and> NUL \<notin> set h \<and> NL \<notin> set h \<and> hd h \<noteq> CR \<and> length h \<le> LD_MAX \<and>
     (is_cl h \<longrightarrow> (\<exists>c\<in>set (drop 15 h). \<not> is_space c))"

definition msg_ok :: "message \<Rightarrow> bool" where
  "msg_ok m \<longleftrightarrow> msg_name m \<in> fst ` set finfo_arr \<and> (\<forall>h\<in>set (msg_headers m). header_ok h) \<and>
     NUL \<notin> set (msg_body m) \<and> fold cl_step (msg_headers m) (-1) = int (length (msg_body m))"

text \<open>The nodes that hold a body.\<close>

function chunks :: "byte list \<Rightarrow> byte list list" where
  "chunks xs = (if length xs \<le> LD_MAX then [xs] else take LD_MAX xs # chunks (drop LD_MAX xs))"
  by pat_completeness auto
termination by (relation "measure length") (auto simp: size_consts)

declare chunks.simps [simp del]

abbreviation ld :: "byte list \<Rightarrow> linedata_t" where
  "ld xs \<equiv> mk_linedata xs (length xs)"

section \<open>Splitting off one line\<close>

lemma ssplit_loop_to:
  assumes "count < m" and "\<And>i. count < i \<Longrightarrow> i < m \<Longrightarrow> \<not> ssplit_stop s n b i" and "ssplit_stop s n b m"
  shows "ssplit_loop s n b RET_SUCCESS count = (if m \<ge> n then RET_ERROR else RET_SUCCESS, m)"
  using assms
proof (induction "m - count" arbitrary: count)
  case 0
  then show ?case by simp
next
  case (Suc d)
  show ?case
  proof (cases "count + 1 = m")
    case True
    with Suc.prems show ?thesis by (subst ssplit_loop.simps) (simp add: Let_def)
  next
    case False
    with Suc.prems have "\<not> ssplit_stop s n b (count + 1)" by simp
    moreover from this have "\<not> n \<le> count + 1" by (simp add: ssplit_stop_def)
    moreover have "ssplit_loop s n b RET_SUCCESS (count + 1) = (if m \<ge> n then RET_ERROR else RET_SUCCESS, m)"
      using Suc False by (intro Suc.hyps) auto
    ultimately show ?thesis by (subst ssplit_loop.simps) (simp add: Let_def)
  qed
qed

lemma deref_drop_append: "i < length xs \<Longrightarrow> deref (drop i xs @ t) = xs ! i"
  by (simp add: Cons_nth_drop_Suc [symmetric])

lemma ssplit_upto:
  assumes "xs \<noteq> []" and "NUL \<notin> set xs" and "b \<or> NL \<notin> set xs" and "b \<or> hd xs \<noteq> CR"
    and "length xs \<le> n" and "length xs \<le> LD_MAX" and "ssplit_stop (xs @ t) n b (length xs)"
  shows "ssplit (xs @ t) n b = (if length xs \<ge> n then RET_ERROR else RET_SUCCESS, length xs)"
proof -
  have "\<not> ssplit_stop (xs @ t) n b i" if "0 < i" "i < length xs" for i
  proof -
    have "xs ! i \<noteq> NUL" "b \<or> xs ! i \<noteq> NL" using assms(2,3) nth_mem [OF that(2)] by metis+
    then show ?thesis using assms(5,6) that by (auto simp: ssplit_stop_def deref_drop_append)
  qed
  moreover have "deref (xs @ t) = hd xs" "hd xs \<noteq> NUL" "b \<or> hd xs \<noteq> NL"
    using assms(1-3) by (cases xs; auto)+
  ultimately show ?thesis
    using assms ssplit_loop_to [of 0 "length xs" "xs @ t" n b]
    by (auto simp: ssplit_def IS_BL_def IS_NL_def)
qed

lemma ssplit_line:
  "header_ok h \<Longrightarrow> length h < n \<Longrightarrow> ssplit (h @ NL # t) n False = (RET_SUCCESS, length h)"
  by (subst ssplit_upto) (auto simp: header_ok_def ssplit_stop_def)

lemma ssplit_blank: "ssplit (NL # t) n False = (RET_SUCCESS, 0)"
  by (simp add: ssplit_def IS_NL_def)

lemma ssplit_body_end:
  "c \<noteq> [] \<Longrightarrow> NUL \<notin> set c \<Longrightarrow> length c \<le> LD_MAX \<Longrightarrow> length c < n \<Longrightarrow>
     ssplit (c @ NUL # t) n True = (RET_SUCCESS, length c)"
  by (subst ssplit_upto) (auto simp: ssplit_stop_def)

lemma ssplit_body_chunk:
  "NUL \<notin> set c \<Longrightarrow> length c = LD_MAX \<Longrightarrow> LD_MAX < n \<Longrightarrow>
     ssplit (c @ t) n True = (RET_SUCCESS, LD_MAX)"
  by (subst ssplit_upto) (auto simp: ssplit_stop_def size_consts)

section \<open>One line into a frame\<close>

lemma digits_value_stop: "\<not> is_digit c \<Longrightarrow> digits_value v (s @ c # t) = digits_value v s"
  by (induction v s rule: digits_value.induct) auto

lemma strtol_line:
  assumes "\<exists>c\<in>set s. \<not> is_space c"
  shows "strtol (s @ NL # t) = strtol s"
proof -
  have dw: "dropWhile is_space (s @ NL # t) = dropWhile is_space s @ NL # t"
    using assms by (auto simp: dropWhile_append)
  have "dropWhile is_space s \<noteq> []" using assms by simp
  then obtain d ds where ds: "dropWhile is_space s = d # ds" by (cases "dropWhile is_space s") auto
  have "\<not> is_digit NL" by (simp add: is_digit_def)
  then show ?thesis
    using digits_value_stop [of NL 0 ds t] digits_value_stop [of NL 0 "d # ds" t]
    by (simp add: strtol_def dw ds Let_def)
qed

lemma setdata_one: "len \<le> LD_MAX \<Longrightarrow> setdata_loop allocated data len 0 = (Some (mk_linedata data len), [mk_linedata data len])"
  by (subst setdata_loop.simps) (simp add: Let_def)

lemma mk_linedata_append: "mk_linedata (xs @ t) (length xs) = ld xs"
  by (simp add: mk_linedata_def memcpy_def)

lemmas status_simps = status_defs GET_def SET_def CLR_def

lemma frame_update_header:
  assumes "header_ok h" and "f_status f = STATUS_INPUT_HEADER"
  shows "frame_update rnd k (h @ NL # t) (length h) f =
    (0, f\<lparr>f_contentlen := cl_step h (f_contentlen f), f_attrs := f_attrs f @ [ld h],
          f_size := f_size f + (int (length h) + 1)\<rparr>)"
proof -
  have h: "h \<noteq> []" "\<not> IS_NL (h @ NL # t)" "length h \<le> LD_MAX"
    using assms(1) by (auto simp: header_ok_def IS_NL_def) (cases h; auto)+
  have "strncmp0 (h @ NL # t) ''content-length:'' 15 \<longleftrightarrow> take 15 (h @ NL # t) = ''content-length:''"
    by (rule strncmp0_literal) simp_all
  then have cl: "is_contentlen (h @ NL # t) (length h) = RET_SUCCESS \<longleftrightarrow> is_cl h"
    by (auto simp: is_contentlen_def is_cl_def)
  moreover have "get_contentlen (h @ NL # t) = atoi (drop 15 h)" if "is_cl h"
  proof -
    have "drop 15 (h @ NL # t) = drop 15 h @ NL # t" using that by (simp add: is_cl_def)
    moreover have "\<exists>c\<in>set (drop 15 h). \<not> is_space c" using that assms(1) by (simp add: header_ok_def)
    ultimately show ?thesis by (simp add: get_contentlen_def atoi_def strtol_line)
  qed
  ultimately show ?thesis
    using h assms(2)
    by (auto simp: frame_update_def status_simps cl_step_def stomp_setdata_def setdata_one mk_linedata_append)
qed

lemma frame_update_blank:
  assumes "f_status f = STATUS_INPUT_HEADER" and "f_contentlen f > 0"
  shows "frame_update rnd k (NL # t) 0 f =
    (0, f\<lparr>f_status := STATUS_INPUT_BODY, f_size := f_size f + 1\<rparr>)"
  using assms by (simp add: frame_update_def status_simps IS_NL_def)

lemma frame_update_blank_end:
  assumes "f_status f = STATUS_INPUT_HEADER" and "f_contentlen f = 0"
  shows "frame_update rnd k (NL # t) 0 f = (1, (frame_finish rnd k f)\<lparr>f_size := f_size f + 1\<rparr>)"
  using assms by (simp add: frame_update_def status_simps IS_NL_def)

lemma frame_update_body:
  assumes "f_status f = STATUS_INPUT_BODY" and "c \<noteq> []" and "length c \<le> LD_MAX"
  defines "f' \<equiv> f\<lparr>f_has_contentlen := f_has_contentlen f + int (length c), f_data := f_data f @ [ld c],
    f_size := f_size f + int (length c)\<rparr>"
  shows "frame_update rnd k (c @ t) (length c) f =
    (if f_contentlen f \<le> f_has_contentlen f + int (length c)
     then (1, (frame_finish rnd k f')\<lparr>f_size := f_size f' + 1\<rparr>) else (0, f'))"
  using assms by (simp add: frame_update_def status_simps stomp_setdata_def setdata_one mk_linedata_append Let_def)

text \<open>The first line: the command table decides by prefix.\<close>

lemma setname_loop_match:
  assumes "(name, flen) \<in> set finfos" and "\<forall>(nm, l)\<in>set finfos. l = length nm \<and> NUL \<notin> set nm"
    and "\<forall>(nm, l)\<in>set finfos. take l data = nm \<longrightarrow> l \<le> len \<longrightarrow> nm = name"
    and "take flen data = name" and "flen \<le> len"
  shows "setname_loop finfos data len frame =
    (RET_SUCCESS, frame\<lparr>f_name := memcpy (f_name frame) data flen,
       f_status := SET (CLR (f_status frame)) STATUS_INPUT_HEADER\<rparr>)"
  using assms
proof (induction finfos)
  case Nil
  then show ?case by simp
next
  case (Cons x finfos)
  obtain nm l where x: "x = (nm, l)" by (cases x)
  have l: "l = length nm" "NUL \<notin> set nm" "flen = length name"
    using Cons.prems(1,2) x by auto
  then have m: "strncmp0 data nm l \<longleftrightarrow> take l data = nm" by (intro strncmp0_literal)
  show ?case
  proof (cases "l \<le> len \<and> take l data = nm")
    case True
    with Cons.prems(3) x have "nm = name" by auto
    with True m x l show ?thesis by simp
  next
    case False
    with Cons.prems x l have "(name, flen) \<in> set finfos" by auto
    with Cons.IH Cons.prems False m x show ?thesis by auto
  qed
qed

lemma finfo_arr_wf: "(nm, l) \<in> set finfo_arr \<Longrightarrow> l = length nm \<and> NUL \<notin> set nm"
  by (auto simp: finfo_arr_def)

lemma command_line:
  assumes "name \<in> fst ` set finfo_arr"
  shows "name \<noteq> []" "NUL \<notin> set name" "NL \<notin> set name" "hd name \<noteq> CR" "length name \<le> 11"
proof -
  have "\<forall>x\<in>set finfo_arr. fst x \<noteq> [] \<and> NUL \<notin> set (fst x) \<and> NL \<notin> set (fst x) \<and> hd (fst x) \<noteq> CR
    \<and> length (fst x) \<le> 11"
    by (simp add: finfo_arr_def)
  with assms show "name \<noteq> []" "NUL \<notin> set name" "NL \<notin> set name" "hd name \<noteq> CR" "length name \<le> 11"
    by auto
qed

text \<open>No command is a proper prefix of another one.\<close>

lemma finfo_arr_prefix_free:
  assumes "(nm, l) \<in> set finfo_arr" and "name \<in> fst ` set finfo_arr" and "take l (name @ NL # t) = nm"
  shows "nm = name"
proof (cases "l \<le> length name")
  case True
  have "\<forall>x\<in>set finfo_arr. \<forall>y\<in>set finfo_arr. take (snd x) (fst y) = fst x \<longrightarrow> fst x = fst y"
    by code_simp
  with assms True show ?thesis by fastforce
next
  case False
  then have "NL \<in> set nm" using assms(3) by (auto simp: take_Cons' split: if_splits)
  moreover have "NL \<notin> set nm" using assms(1) by (intro command_line(3)) force
  ultimately show ?thesis by simp
qed

lemma frame_update_name:
  assumes "name \<in> fst ` set finfo_arr" and "f_status f = STATUS_BORN"
  shows "frame_update rnd k (name @ NL # t) (length name) f =
    (0, f\<lparr>f_name := name @ drop (length name) (f_name f), f_status := STATUS_INPUT_HEADER,
          f_size := f_size f + (int (length name) + 1)\<rparr>)"
proof -
  from assms(1) obtain l where "(name, l) \<in> set finfo_arr" by auto
  then have m: "(name, length name) \<in> set finfo_arr" using finfo_arr_wf by auto
  have "frame_setname (name @ NL # t) (length name) f =
    (RET_SUCCESS, f\<lparr>f_name := memcpy (f_name f) (name @ NL # t) (length name),
       f_status := SET (CLR (f_status f)) STATUS_INPUT_HEADER\<rparr>)"
    unfolding frame_setname_def
  proof (rule setname_loop_match [OF m])
    show "\<forall>(nm, l)\<in>set finfo_arr. l = length nm \<and> NUL \<notin> set nm"
      using finfo_arr_wf by blast
    show "\<forall>(nm, l)\<in>set finfo_arr. take l (name @ NL # t) = nm \<longrightarrow> l \<le> length name \<longrightarrow> nm = name"
      using finfo_arr_prefix_free [OF _ assms(1)] by blast
  qed simp_all
  then show ?thesis
    using assms(2) by (simp add: frame_update_def status_simps memcpy_def)
qed

lemma ssplit_name:
  assumes "name \<in> fst ` set finfo_arr" and "length name < n"
  shows "ssplit (name @ NL # t) n False = (RET_SUCCESS, length name)"
  using command_line [OF assms(1)] assms(2)
  by (subst ssplit_upto) (auto simp: ssplit_stop_def size_consts)

section \<open>A parser loop over a message\<close>

text \<open>The frame after the command and the headers, and the one before the last chunk.\<close>

definition header_frame :: "message \<Rightarrow> frame_t \<Rightarrow> frame_t" where
  "header_frame m f =
     f\<lparr>f_name := msg_name m @ drop (length (msg_name m)) (f_name f), f_status := STATUS_INPUT_HEADER,
       f_contentlen := fold cl_step (msg_headers m) (f_contentlen f),
       f_attrs := f_attrs f @ map ld (msg_headers m),
       f_size := f_size f + int (length (msg_name m) + 1 + length (encode_headers (msg_headers m)))\<rparr>"

definition body_frame :: "byte list \<Rightarrow> frame_t \<Rightarrow> frame_t" where
  "body_frame body f =
     f\<lparr>f_has_contentlen := f_has_contentlen f + int (length (concat (butlast (chunks body)))),
       f_data := f_data f @ map ld (butlast (chunks body)),
       f_size := f_size f + int (length (concat (butlast (chunks body))))\<rparr>"

lemma chunks_nonempty: "chunks xs \<noteq> []"
  by (subst chunks.simps) simp

lemma concat_chunks: "concat (chunks xs) = xs"
proof (induction xs rule: chunks.induct)
  case (1 xs)
  then show ?case by (subst chunks.simps) simp
qed

lemma chunks_split: "xs = concat (butlast (chunks xs)) @ last (chunks xs)"
  using concat_chunks [of xs] append_butlast_last_id [OF chunks_nonempty, of xs]
  by (metis concat.simps concat_append append_Nil2)

lemma last_chunk: "xs \<noteq> [] \<Longrightarrow> last (chunks xs) \<noteq> [] \<and> length (last (chunks xs)) \<le> LD_MAX"
proof (induction xs rule: chunks.induct)
  case (1 xs)
  show ?case
  proof (cases "length xs \<le> LD_MAX")
    case True
    with 1 show ?thesis by (subst chunks.simps, subst (2) chunks.simps) simp
  next
    case False
    with 1 have "last (chunks (drop LD_MAX xs)) \<noteq> [] \<and> length (last (chunks (drop LD_MAX xs))) \<le> LD_MAX"
      by simp
    with False show ?thesis by (subst chunks.simps, subst (2) chunks.simps) (simp add: chunks_nonempty)
  qed
qed

locale line_loop =
  fixes rnd :: "nat \<Rightarrow> nat" and k :: nat
    and run :: "'s \<Rightarrow> frame_t \<Rightarrow> 'r"
    and sfx :: "'s \<Rightarrow> byte list"
    and left :: "'s \<Rightarrow> nat"
    and adv :: "nat \<Rightarrow> 's \<Rightarrow> 's"
    and ok :: "'s \<Rightarrow> bool"
  assumes adv_ok: "ok s \<Longrightarrow> ok (adv i s)"
    and sfx_adv: "ok s \<Longrightarrow> sfx (adv i s) = drop i (sfx s)"
    and left_adv: "ok s \<Longrightarrow> left (adv i s) = left s - i"
    and adv_adv: "adv i (adv j s) = adv (j + i) s"
    and adv_0: "adv 0 s = s"
    and head_step: "ok s \<Longrightarrow> 0 < left s \<Longrightarrow> f_status f \<in> {STATUS_BORN, STATUS_INPUT_HEADER} \<Longrightarrow>
      ssplit (sfx s) (left s) False = (RET_SUCCESS, l) \<Longrightarrow> frame_update rnd k (sfx s) l f = (0, f') \<Longrightarrow>
      run s f = run (adv (l + 1) s) f'"
    and body_step: "ok s \<Longrightarrow> 0 < left s \<Longrightarrow> f_status f = STATUS_INPUT_BODY \<Longrightarrow> \<not> IS_BL (sfx s) \<Longrightarrow>
      ssplit (sfx s) (left s) True = (RET_SUCCESS, l) \<Longrightarrow> frame_update rnd k (sfx s) l f = (0, f') \<Longrightarrow>
      run s f = run (adv l s) f'"
begin

lemma run_headers:
  assumes "ok s" and "sfx s = encode_headers hs @ t" and "length (encode_headers hs) \<le> left s"
    and "\<forall>h\<in>set hs. header_ok h" and "f_status f = STATUS_INPUT_HEADER"
  shows "run s f = run (adv (length (encode_headers hs)) s)
    (f\<lparr>f_contentlen := fold cl_step hs (f_contentlen f), f_attrs := f_attrs f @ map ld hs,
       f_size := f_size f + int (length (encode_headers hs))\<rparr>)"
  using assms
proof (induction hs arbitrary: s f)
  case Nil
  then show ?case by (simp add: encode_headers_def adv_0)
next
  case (Cons h hs)
  define f1 where "f1 = f\<lparr>f_contentlen := cl_step h (f_contentlen f), f_attrs := f_attrs f @ [ld h],
          f_size := f_size f + (int (length h) + 1)\<rparr>"
  have h: "header_ok h" and sfx: "sfx s = h @ NL # (encode_headers hs @ t)"
    and len: "length h + 1 + length (encode_headers hs) \<le> left s"
    using Cons.prems by (auto simp: encode_headers_def)
  have "run s f = run (adv (length h + 1) s) f1"
    using Cons.prems(1,5) h len frame_update_header [OF h Cons.prems(5)]
    by (intro head_step) (auto simp: sfx f1_def ssplit_line)
  also have "\<dots> = run (adv (length (encode_headers hs)) (adv (length h + 1) s))
    (f1\<lparr>f_contentlen := fold cl_step hs (f_contentlen f1), f_attrs := f_attrs f1 @ map ld hs,
       f_size := f_size f1 + int (length (encode_headers hs))\<rparr>)"
    using Cons.prems len
    by (intro Cons.IH) (auto simp: adv_ok sfx_adv left_adv sfx f1_def)
  finally show ?case
    by (simp add: adv_adv f1_def encode_headers_def algebra_simps)
qed

lemma run_body:
  assumes "ok s" and "sfx s = body @ NUL # t" and "length body < left s" and "NUL \<notin> set body"
    and "f_status f = STATUS_INPUT_BODY" and "body \<noteq> []"
    and "f_has_contentlen f + int (length body) = f_contentlen f"
  shows "run s f = run (adv (length (concat (butlast (chunks body)))) s) (body_frame body f)"
  using assms
proof (induction body arbitrary: s f rule: chunks.induct)
  case (1 body)
  show ?case
  proof (cases "length body \<le> LD_MAX")
    case True
    then show ?thesis by (simp add: chunks.simps [of body] body_frame_def adv_0)
  next
    case False
    define c where "c = take LD_MAX body"
    define r where "r = drop LD_MAX body"
    have cr: "body = c @ r" "length c = LD_MAX" "r \<noteq> []" "c \<noteq> []" "NUL \<notin> set c" "NUL \<notin> set r"
      using False "1.prems"(4) by (auto simp: c_def r_def size_consts dest: in_set_takeD in_set_dropD)
    define f1 where "f1 = f\<lparr>f_has_contentlen := f_has_contentlen f + int (length c),
      f_data := f_data f @ [ld c], f_size := f_size f + int (length c)\<rparr>"
    have sfx: "sfx s = c @ (r @ NUL # t)" using "1.prems"(2) cr by simp
    have len_r: "length body = LD_MAX + length r" by (simp only: cr(1,2) length_append)
    have "f_has_contentlen f + int (length c) + int (length r) = f_contentlen f" and "0 < length r"
      using "1.prems"(7) cr(1,3) by simp_all
    then have "\<not> f_contentlen f \<le> f_has_contentlen f + int (length c)" by linarith
    then have u: "frame_update rnd k (sfx s) (length c) f = (0, f1)"
      using "1.prems"(5) cr unfolding sfx f1_def by (subst frame_update_body) auto
    have "run s f = run (adv LD_MAX s) f1"
    proof (rule body_step)
      show "\<not> IS_BL (sfx s)" using cr by (cases c) (auto simp: sfx IS_BL_def)
      show "ssplit (sfx s) (left s) True = (RET_SUCCESS, LD_MAX)"
        unfolding sfx using cr "1.prems"(3) by (intro ssplit_body_chunk) auto
    qed (use "1.prems" u cr in auto)
    also have "\<dots> = run (adv (length (concat (butlast (chunks r)))) (adv LD_MAX s)) (body_frame r f1)"
      using "1.prems" cr(2,3,6) len_r
      by (intro "1.IH" [OF False, folded r_def]) (simp_all add: adv_ok sfx_adv left_adv f1_def sfx)
    finally have run: "run s f = run (adv (LD_MAX + length (concat (butlast (chunks r)))) s) (body_frame r f1)"
      by (simp add: adv_adv)
    have "chunks body = c # chunks r"
      unfolding c_def r_def using False by (subst chunks.simps) simp
    then have bl: "butlast (chunks body) = c # butlast (chunks r)" by (simp add: chunks_nonempty)
    have "body_frame r f1 = body_frame body f"
      unfolding body_frame_def bl f1_def by (simp add: cr(2))
    then show ?thesis using run unfolding bl by (simp add: cr(2))
  qed
qed

text \<open>
  Over a whole message, the loop reaches the line that completes the frame: the blank
  line when there is no body, else the last chunk of the body.
\<close>

lemma run_to_blank:
  assumes s: "ok s" "sfx s = encode_head m @ t" "length (encode_head m) \<le> left s" and m: "msg_ok m"
    and f: "f_status f = STATUS_BORN"
  shows "run s f = run (adv (length (encode_head m)) s) (header_frame m f)"
proof -
  define n where "n = length (msg_name m)"
  define f1 where "f1 = f\<lparr>f_name := msg_name m @ drop n (f_name f), f_status := STATUS_INPUT_HEADER,
          f_size := f_size f + (int n + 1)\<rparr>"
  have name: "msg_name m \<in> fst ` set finfo_arr" using m by (simp add: msg_ok_def)
  have sfx: "sfx s = msg_name m @ NL # (encode_headers (msg_headers m) @ t)"
    using s(2) by (simp add: encode_head_def)
  have len: "length (encode_head m) = n + 1 + length (encode_headers (msg_headers m))"
    by (simp add: encode_head_def n_def)
  have "run s f = run (adv (n + 1) s) f1"
    using s(1,3) len f frame_update_name [OF name f] unfolding n_def
    by (intro head_step) (auto simp: sfx f1_def n_def ssplit_name [OF name])
  also have "\<dots> = run (adv (length (encode_headers (msg_headers m))) (adv (n + 1) s))
    (f1\<lparr>f_contentlen := fold cl_step (msg_headers m) (f_contentlen f1),
        f_attrs := f_attrs f1 @ map ld (msg_headers m),
        f_size := f_size f1 + int (length (encode_headers (msg_headers m)))\<rparr>)"
    using s(1,3) len m sfx
    by (intro run_headers [where t = t])
      (auto simp: adv_ok sfx_adv left_adv f1_def msg_ok_def n_def)
  finally show ?thesis
    by (simp add: adv_adv f1_def header_frame_def len n_def algebra_simps)
qed

lemma run_blank_to_body:
  assumes s: "ok s" "sfx s = NL # t" "0 < left s" and f: "f_status f = STATUS_INPUT_HEADER" "f_contentlen f > 0"
  shows "run s f = run (adv 1 s) (f\<lparr>f_status := STATUS_INPUT_BODY, f_size := f_size f + 1\<rparr>)"
  using head_step [OF s(1) s(3) _ _ frame_update_blank [OF f, of rnd k t, folded s(2)]] f
  by (simp add: s(2) ssplit_blank)

lemma run_to_body:
  assumes s: "ok s" "sfx s = encode_head m @ NL # t" "length (encode_head m) < left s" and m: "msg_ok m"
    and f: "f_status f = STATUS_BORN" "f_contentlen f = -1" and body: "msg_body m \<noteq> []"
  shows "run s f = run (adv (length (encode_head m) + 1) s) ((header_frame m f)\<lparr>f_status := STATUS_INPUT_BODY,
       f_size := f_size (header_frame m f) + 1\<rparr>)"
proof -
  have "f_contentlen (header_frame m f) > 0" "f_status (header_frame m f) = STATUS_INPUT_HEADER"
    using m f(2) body by (simp_all add: header_frame_def msg_ok_def)
  then have "run (adv (length (encode_head m)) s) (header_frame m f) =
      run (adv 1 (adv (length (encode_head m)) s)) ((header_frame m f)\<lparr>f_status := STATUS_INPUT_BODY,
       f_size := f_size (header_frame m f) + 1\<rparr>)"
    using s by (intro run_blank_to_body [where t = t]) (auto simp: adv_ok sfx_adv left_adv)
  moreover have "run s f = run (adv (length (encode_head m)) s) (header_frame m f)"
    using s m f by (intro run_to_blank) auto
  ultimately show ?thesis by (simp add: adv_adv)
qed

text \<open>From the blank line to the last chunk of the body.\<close>

lemma run_blank_to_last_chunk:
  assumes s: "ok s" "sfx s = NL # body @ NUL # t" "length body + 1 < left s" and body: "body \<noteq> []" "NUL \<notin> set body"
    and f: "f_status f = STATUS_INPUT_HEADER" "f_has_contentlen f = 0" "f_contentlen f = int (length body)"
  shows "run s f = run (adv (1 + length body - length (last (chunks body))) s)
    (body_frame body (f\<lparr>f_status := STATUS_INPUT_BODY, f_size := f_size f + 1\<rparr>))"
proof -
  define f1 where "f1 = f\<lparr>f_status := STATUS_INPUT_BODY, f_size := f_size f + 1\<rparr>"
  have "run s f = run (adv 1 s) f1"
    unfolding f1_def using s f body by (intro run_blank_to_body [where t = "body @ NUL # t"]) auto
  also have "\<dots> = run (adv (length (concat (butlast (chunks body)))) (adv 1 s)) (body_frame body f1)"
    using s body f
    by (intro run_body [where t = t]) (auto simp: adv_ok sfx_adv left_adv f1_def)
  also have "length (concat (butlast (chunks body))) = length body - length (last (chunks body))"
    using chunks_split [of body] by (metis add_diff_cancel_right' length_append)
  moreover have "length (last (chunks body)) \<le> length body"
    using chunks_split [of body] by (metis le_add2 length_append)
  ultimately show ?thesis by (simp add: adv_adv f1_def Suc_diff_le)
qed

lemma run_to_last_chunk:
  assumes s: "ok s" "sfx s = encode m @ t" "length (encode m) \<le> left s" and m: "msg_ok m"
    and f: "f_status f = STATUS_BORN" "f_contentlen f = -1" "f_has_contentlen f = 0"
    and body: "msg_body m \<noteq> []"
  shows "run s f = run (adv (length (encode m) - 1 - length (last (chunks (msg_body m)))) s)
    (body_frame (msg_body m) ((header_frame m f)\<lparr>f_status := STATUS_INPUT_BODY,
       f_size := f_size (header_frame m f) + 1\<rparr>))"
proof -
  let ?n = "length (encode_head m)" and ?l = "length (last (chunks (msg_body m)))"
  have e: "length (encode m) = ?n + 2 + length (msg_body m)" by (simp add: encode_head)
  have "?l \<le> length (msg_body m)" using chunks_split [of "msg_body m"] by (metis le_add2 length_append)
  then have n: "?n + (1 + length (msg_body m) - ?l) = length (encode m) - 1 - ?l" using e by simp
  have "run s f = run (adv ?n s) (header_frame m f)"
    using s m f by (intro run_to_blank [where t = "NL # msg_body m @ NUL # t"]) (auto simp: encode_head)
  also have "\<dots> = run (adv (1 + length (msg_body m) - ?l) (adv ?n s))
    (body_frame (msg_body m) ((header_frame m f)\<lparr>f_status := STATUS_INPUT_BODY, f_size := f_size (header_frame m f) + 1\<rparr>))"
    using s m f body e
    by (intro run_blank_to_last_chunk [where t = t])
      (auto simp: adv_ok sfx_adv left_adv encode_head header_frame_def msg_ok_def)
  finally show ?thesis unfolding adv_adv n .
qed

end

section \<open>The frame that stands for a message\<close>

definition frame_of :: "message \<Rightarrow> frame_t" where
  "frame_of m =
     alloc_frame\<lparr>f_name := msg_name m @ replicate (FNAME_LEN - length (msg_name m)) NUL,
       f_status := 0,
       f_contentlen := int (length (msg_body m)), f_has_contentlen := int (length (msg_body m)),
       f_attrs := map ld (msg_headers m),
       f_data := (if msg_body m = [] then [] else map ld (chunks (msg_body m))),
       f_size := int (length (encode m)) - (if msg_body m = [] then 1 else 0)\<rparr>"

definition ld_bytes :: "linedata_t \<Rightarrow> byte list" where
  "ld_bytes l = take (ld_len l) (ld_data l)"

definition message_of :: "frame_t \<Rightarrow> message" where
  "message_of f = \<lparr>msg_name = cstr (f_name f), msg_headers = map ld_bytes (f_attrs f),
     msg_body = concat (map ld_bytes (f_data f))\<rparr>"

lemma ld_bytes_ld [simp]: "ld_bytes (ld xs) = xs"
  by (simp add: ld_bytes_def mk_linedata_def memcpy_def)

lemma message_of_frame_of:
  assumes "msg_ok m"
  shows "message_of ((frame_of m)\<lparr>f_status := st, f_id := i, f_sock := s, f_cinfo := c\<rparr>) = m"
proof -
  have "NUL \<notin> set (msg_name m)" using assms command_line(2) by (simp add: msg_ok_def)
  moreover have "map (ld_bytes \<circ> ld) xs = xs" for xs by (induction xs) simp_all
  ultimately show ?thesis
    by (simp add: message_of_def frame_of_def cstr_append_replicate concat_chunks del: o_apply)
qed

text \<open>The last step: a frame without a body ends at its blank line, one with a body at its last chunk.\<close>

lemma frame_update_last_blank:
  assumes "msg_ok m" and "msg_body m = []" and "f = alloc_frame\<lparr>f_sock := s, f_cinfo := c\<rparr>"
  shows "frame_update rnd k (NL # t) 0 (header_frame m f) =
    (1, (frame_of m)\<lparr>f_sock := s, f_cinfo := c, f_id := gen_random rnd k FRAME_ID_LEN\<rparr>)"
proof -
  have "f_contentlen (header_frame m f) = 0" "f_status (header_frame m f) = STATUS_INPUT_HEADER"
    using assms by (simp_all add: header_frame_def msg_ok_def alloc_frame_def)
  then show ?thesis
    using assms
    by (simp add: frame_update_blank_end)
      (simp add: frame_finish_def CLR_def header_frame_def frame_of_def alloc_frame_def msg_ok_def encode_def)
qed

lemma frame_update_last_chunk:
  assumes m: "msg_ok m" and body: "msg_body m \<noteq> []" and f: "f = alloc_frame\<lparr>f_sock := s, f_cinfo := c\<rparr>"
  defines "f1 \<equiv> (header_frame m f)\<lparr>f_status := STATUS_INPUT_BODY, f_size := f_size (header_frame m f) + 1\<rparr>"
  defines "z \<equiv> last (chunks (msg_body m))"
  shows "frame_update rnd k (z @ t) (length z) (body_frame (msg_body m) f1) =
    (1, (frame_of m)\<lparr>f_sock := s, f_cinfo := c, f_id := gen_random rnd k FRAME_ID_LEN\<rparr>)"
proof -
  define y where "y = butlast (chunks (msg_body m))"
  have z: "z \<noteq> []" "length z \<le> LD_MAX" using last_chunk [OF body] by (simp_all add: z_def)
  have yz: "chunks (msg_body m) = y @ [z]" by (simp add: y_def z_def chunks_nonempty)
  have len: "length (msg_body m) = length (concat y) + length z"
    using chunks_split [of "msg_body m"] unfolding y_def z_def by (metis length_append)
  have cl: "fold cl_step (msg_headers m) (- 1) = int (length (msg_body m))"
    using m by (simp add: msg_ok_def)
  have "f_status (body_frame (msg_body m) f1) = STATUS_INPUT_BODY" by (simp add: body_frame_def f1_def)
  then show ?thesis
    using z body
    by (simp add: frame_update_body)
      (simp add: frame_finish_def CLR_def body_frame_def f1_def f header_frame_def frame_of_def
        alloc_frame_def cl len yz flip: y_def, simp add: encode_def len)
qed

lemma body_last_chunk:
  assumes body: "body \<noteq> []" "NUL \<notin> set body"
  defines "z \<equiv> last (chunks body)"
  shows "z \<noteq> [] \<and> length z \<le> LD_MAX \<and> NUL \<notin> set z \<and> length z \<le> length body \<and>
    drop (length body - length z) (body @ t) = z @ t"
proof -
  have z: "z \<noteq> []" "length z \<le> LD_MAX" using last_chunk [OF body(1)] by (simp_all add: z_def)
  obtain us where e: "body = us @ z" using chunks_split [of body] unfolding z_def by blast
  show ?thesis using z body(2) by (simp add: e)
qed

lemma encode_last_chunk:
  assumes m: "msg_ok m" and body: "msg_body m \<noteq> []"
  defines "z \<equiv> last (chunks (msg_body m))"
  shows "z \<noteq> [] \<and> length z \<le> LD_MAX \<and> NUL \<notin> set z \<and> length z + 1 \<le> length (encode m) \<and>
    drop (length (encode m) - 1 - length z) (encode m @ t) = z @ NUL # t"
proof -
  have z: "z \<noteq> []" "length z \<le> LD_MAX" "NUL \<notin> set z" "length z \<le> length (msg_body m)"
    and d: "drop (length (msg_body m) - length z) (msg_body m @ NUL # t) = z @ NUL # t"
    using body_last_chunk [OF body, of "NUL # t"] m by (auto simp: msg_ok_def z_def)
  have "length (encode m) - 1 - length z = length (encode_head m) + (1 + (length (msg_body m) - length z))"
    using z(4) by (simp add: encode_head)
  then have "drop (length (encode m) - 1 - length z) (encode m @ t) = z @ NUL # t"
    using d z(4) by (simp add: encode_head Suc_diff_le)
  then show ?thesis using z by (simp add: encode_def)
qed

section \<open>\<^verbatim>\<open>parse_frame\<close>\<close>

text \<open>The parser's position: the input, its length, the current offset and the reported one.\<close>

type_synonym parse_pos = "byte list \<times> nat \<times> nat \<times> int"

definition parse_run :: "(nat \<Rightarrow> nat) \<Rightarrow> nat \<Rightarrow> parse_pos \<Rightarrow> frame_t \<Rightarrow> parse_result res" where
  "parse_run rnd k = (\<lambda>(input, n, cur, off) f. parse_loop rnd input n cur off f parse_static0 k)"

definition parse_adv :: "nat \<Rightarrow> parse_pos \<Rightarrow> parse_pos" where
  "parse_adv i = (\<lambda>(input, n, cur, off). (input, n, cur + i, if i = 0 then off else int (cur + i + 1)))"

definition parse_sfx :: "parse_pos \<Rightarrow> byte list" where
  "parse_sfx = (\<lambda>(input, n, cur, off). drop cur input)"

definition parse_left :: "parse_pos \<Rightarrow> nat" where
  "parse_left = (\<lambda>(input, n, cur, off). n - cur)"

lemmas parse_pos_defs = parse_run_def parse_adv_def parse_sfx_def parse_left_def

lemma status_GET_body:
  "f_status f \<in> {STATUS_BORN, STATUS_INPUT_HEADER} \<Longrightarrow> \<not> GET (f_status f) STATUS_INPUT_BODY"
  "f_status f = STATUS_INPUT_BODY \<Longrightarrow> GET (f_status f) STATUS_INPUT_BODY"
  by (auto simp: status_simps)

interpretation parser: line_loop rnd k "parse_run rnd k" parse_sfx parse_left parse_adv "\<lambda>_. True" for rnd k
proof unfold_locales
  fix s :: parse_pos and f f' l
  assume a: "0 < parse_left s" "f_status f \<in> {STATUS_BORN, STATUS_INPUT_HEADER}"
    "ssplit (parse_sfx s) (parse_left s) False = (RET_SUCCESS, l)"
    "frame_update rnd k (parse_sfx s) l f = (0, f')"
  then show "parse_run rnd k s f = parse_run rnd k (parse_adv (l + 1) s) f'"
    using status_GET_body(1) [OF a(2)]
    by (cases s, simp add: parse_pos_defs parse_static0_def, subst parse_loop.simps) (simp add: Let_def)
next
  fix s :: parse_pos and f f' l
  assume a: "0 < parse_left s" "f_status f = STATUS_INPUT_BODY" "\<not> IS_BL (parse_sfx s)"
    "ssplit (parse_sfx s) (parse_left s) True = (RET_SUCCESS, l)"
    "frame_update rnd k (parse_sfx s) l f = (0, f')"
  have "0 < l" using ssplit_posD [OF a(4) [symmetric] a(3)] by simp
  with a show "parse_run rnd k s f = parse_run rnd k (parse_adv l s) f'"
    using status_GET_body(2) [OF a(2)]
    by (cases s, simp add: parse_pos_defs parse_static0_def, subst parse_loop.simps) (simp add: Let_def)
qed (auto simp: parse_pos_defs add.commute)

lemma parse_run_finish:
  assumes "0 < parse_left s" and "ssplit (parse_sfx s) (parse_left s) b = (RET_SUCCESS, l)"
    and "b = GET (f_status f) STATUS_INPUT_BODY" and "b \<Longrightarrow> \<not> IS_BL (parse_sfx s)"
    and "frame_update rnd k (parse_sfx s) l f = (1, f')"
  shows "parse_run rnd k s f =
    Inr \<lparr>pr_ret = RET_SUCCESS, pr_offset = int (fst (snd (snd s)) + l + (if b then 1 else 2)),
      pr_frame = f', pr_static = parse_static0, pr_rand = k + (FRAME_ID_LEN - 1)\<rparr>"
proof -
  obtain input n cur off where s: "s = (input, n, cur, off)" by (cases s)
  show ?thesis
  proof (cases b)
    case True
    with assms show ?thesis
      unfolding s parse_pos_defs parse_static0_def
      by (simp, subst parse_loop.simps) (simp add: Let_def)
  next
    case False
    with assms show ?thesis
      unfolding s parse_pos_defs parse_static0_def
      by (simp, subst parse_loop.simps) (simp add: Let_def)
  qed
qed

lemma parse_frame_encode:
  assumes m: "msg_ok m" and n: "length (encode m) \<le> n"
  shows "parse_frame rnd k parse_static0 alloc_frame (encode m @ t) n =
    Inr \<lparr>pr_ret = RET_SUCCESS, pr_offset = int (length (encode m)),
      pr_frame = (frame_of m)\<lparr>f_id := gen_random rnd k FRAME_ID_LEN\<rparr>,
      pr_static = parse_static0, pr_rand = k + (FRAME_ID_LEN - 1)\<rparr>"
proof -
  define s where "s = (encode m @ t, n, 0 :: nat, -1 :: int)"
  have s: "parse_sfx s = encode m @ t" "length (encode m) \<le> parse_left s"
    using n by (simp_all add: s_def parse_pos_defs)
  have al: "alloc_frame = alloc_frame\<lparr>f_sock := 0, f_cinfo := None\<rparr>" "f_status alloc_frame = STATUS_BORN"
    "f_contentlen alloc_frame = -1" "f_has_contentlen alloc_frame = 0"
    by (simp_all add: alloc_frame_def)
  have pf: "parse_frame rnd k parse_static0 alloc_frame (encode m @ t) n = parse_run rnd k s alloc_frame"
    by (simp add: parse_frame_def parse_run_def s_def)
  have len: "length (encode m) = length (msg_name m) + length (encode_headers (msg_headers m)) + 3 + length (msg_body m)"
    by (simp add: encode_def)
  show ?thesis
  proof (cases "msg_body m = []")
    case True
    define p where "p = length (encode_head m)"
    have e: "encode m @ t = encode_head m @ NL # NUL # t" using True by (simp add: encode_head)
    then have "drop p (encode m @ t) = NL # NUL # t" by (simp add: p_def)
    then have "parse_run rnd k (parse_adv p s) (header_frame m alloc_frame) =
      Inr \<lparr>pr_ret = RET_SUCCESS, pr_offset = int (p + 0 + 2),
        pr_frame = (frame_of m)\<lparr>f_sock := 0, f_cinfo := None, f_id := gen_random rnd k FRAME_ID_LEN\<rparr>,
        pr_static = parse_static0, pr_rand = k + (FRAME_ID_LEN - 1)\<rparr>"
      using n len True frame_update_last_blank [OF m True al(1), of rnd k "NUL # t"]
      by (subst parse_run_finish [where b = False and l = 0])
        (auto simp: s_def parse_pos_defs p_def ssplit_blank header_frame_def status_simps encode_head)
    then show ?thesis
      using pf parser.run_to_blank [OF TrueI s(1) [unfolded e] _ m al(2)] True len s(2)
      by (simp add: p_def encode_head frame_of_def alloc_frame_def)
  next
    case False
    define z where "z = last (chunks (msg_body m))"
    define p where "p = length (encode m) - 1 - length z"
    have z: "z \<noteq> []" "length z \<le> LD_MAX" and nz: "NUL \<notin> set z" and "length z + 1 \<le> length (encode m)"
      and d: "drop p (encode m @ t) = z @ NUL # t"
      unfolding p_def z_def using encode_last_chunk [OF m False, of t] by auto
    then have pz: "p + length z + 1 = length (encode m)" by (simp add: p_def)
    define f2 where "f2 = body_frame (msg_body m) ((header_frame m alloc_frame)\<lparr>f_status := STATUS_INPUT_BODY,
       f_size := f_size (header_frame m alloc_frame) + 1\<rparr>)"
    have st: "GET (f_status f2) STATUS_INPUT_BODY" by (simp add: f2_def body_frame_def status_simps)
    have "\<not> IS_BL (z @ NUL # t)" using z nz by (cases z) (auto simp: IS_BL_def)
    then have "parse_run rnd k (parse_adv p s) f2 =
      Inr \<lparr>pr_ret = RET_SUCCESS, pr_offset = int (p + length z + 1),
        pr_frame = (frame_of m)\<lparr>f_sock := 0, f_cinfo := None, f_id := gen_random rnd k FRAME_ID_LEN\<rparr>,
        pr_static = parse_static0, pr_rand = k + (FRAME_ID_LEN - 1)\<rparr>"
      using n pz d st z nz frame_update_last_chunk [OF m False al(1), of rnd k "NUL # t"]
      by (subst parse_run_finish [where b = True and l = "length z"])
        (auto simp: s_def parse_pos_defs ssplit_body_end z_def f2_def)
    then show ?thesis
      using pf parser.run_to_last_chunk [OF TrueI s m al(2-4) False] pz
      by (simp add: p_def f2_def z_def [symmetric] frame_of_def alloc_frame_def)
  qed
qed

text \<open>
  C6. Reading a persisted frame back. On any input that starts with the wire form of a
  message whose \<^verbatim>\<open>content-length\<close> agrees with its body, of any length and with any number of
  body chunks, \<^verbatim>\<open>parse_frame\<close> on a fresh frame returns \<^verbatim>\<open>RET_SUCCESS\<close>, reports the number of
  bytes of that wire form as the offset of the next frame, leaves its static buffer
  unused, and the frame stands for exactly that message: same command, header lines
  and body, the byte counts included.
\<close>

theorem parse_frame_roundtrip:
  assumes "msg_ok m" and "length (encode m) \<le> input_len"
  shows "\<exists>r. parse_frame rnd k parse_static0 alloc_frame (encode m @ rest) input_len = Inr r \<and>
    pr_ret r = RET_SUCCESS \<and> pr_offset r = int (length (encode m)) \<and> pr_static r = parse_static0 \<and>
    message_of (pr_frame r) = m \<and> f_contentlen (pr_frame r) = int (length (msg_body m)) \<and>
    f_has_contentlen (pr_frame r) = int (length (msg_body m)) \<and>
    f_id (pr_frame r) = gen_random rnd k FRAME_ID_LEN"
proof -
  have "(frame_of m)\<lparr>f_id := i\<rparr> = (frame_of m)\<lparr>f_status := 0, f_id := i, f_sock := 0, f_cinfo := None\<rparr>" for i
    by (simp add: frame_of_def alloc_frame_def)
  then show ?thesis
    using message_of_frame_of [OF assms(1)]
    by (subst parse_frame_encode [OF assms]) (simp add: frame_of_def)
qed

theorem parse_frame_roundtrip_witness:
  "\<exists>r. parse_frame (\<lambda>i. i) 0 parse_static0 alloc_frame
      (encode \<lparr>msg_name = ''SEND'', msg_headers = [''destination:/q'', ''content-length:5''], msg_body = ''hello''\<rparr> @ ''SEND'')
      64 = Inr r \<and>
    pr_ret r = RET_SUCCESS \<and>
    pr_offset r = int (length (encode \<lparr>msg_name = ''SEND'', msg_headers = [''destination:/q'', ''content-length:5''],
      msg_body = ''hello''\<rparr>)) \<and> pr_static r = parse_static0 \<and>
    message_of (pr_frame r) = \<lparr>msg_name = ''SEND'', msg_headers = [''destination:/q'', ''content-length:5''], msg_body = ''hello''\<rparr> \<and>
    f_contentlen (pr_frame r) = 5 \<and> f_has_contentlen (pr_frame r) = 5 \<and>
    f_id (pr_frame r) = gen_random (\<lambda>i. i) 0 FRAME_ID_LEN"
proof -
  have "msg_ok \<lparr>msg_name = ''SEND'', msg_headers = [''destination:/q'', ''content-length:5''], msg_body = ''hello''\<rparr>"
    by code_simp
  moreover have "length (encode \<lparr>msg_name = ''SEND'', msg_headers = [''destination:/q'', ''content-length:5''],
      msg_body = ''hello''\<rparr>) \<le> 64" by (simp add: encode_def encode_headers_def)
  ultimately show ?thesis
    using parse_frame_roundtrip [of "\<lparr>msg_name = ''SEND'', msg_headers = [''destination:/q'', ''content-length:5''],
      msg_body = ''hello''\<rparr>" 64 "\<lambda>i. i" 0 "''SEND''"] by simp
qed

lemma parse_frame_cut:
  assumes "msg_ok m" and "msg_body m = b1 @ b2" and "b1 \<noteq> []" and "b2 \<noteq> []" and "length b1 \<le> LD_MAX"
  shows "parse_frame rnd k parse_static0 alloc_frame (encode_head m @ NL # b1 @ t)
    (length (encode_head m @ NL # b1)) = Inl Buffer_Overflow"
proof -
  define n where "n = length (encode_head m @ NL # b1)"
  define p where "p = length (encode_head m) + 1"
  define s where "s = (encode_head m @ NL # b1 @ t, n, 0 :: nat, -1 :: int)"
  define f where "f = (header_frame m alloc_frame)\<lparr>f_status := STATUS_INPUT_BODY,
       f_size := f_size (header_frame m alloc_frame) + 1\<rparr>"
  have b1: "NUL \<notin> set b1" using assms(1,2) by (simp add: msg_ok_def)
  have n: "n = p + length b1" by (simp add: n_def p_def)
  have "parse_run rnd k s alloc_frame = parse_run rnd k (parse_adv p s) f"
    unfolding p_def f_def using assms n_def
    by (intro parser.run_to_body [where t = "b1 @ t"]) (auto simp: s_def parse_pos_defs alloc_frame_def)
  moreover have "GET (f_status f) STATUS_INPUT_BODY" by (simp add: f_def status_simps)
  moreover have "ssplit (b1 @ t) (length b1) True = (RET_ERROR, length b1)"
    using ssplit_upto [of b1 True "length b1" t] assms(3,5) b1 by (simp add: ssplit_stop_def)
  ultimately show ?thesis
    unfolding parse_frame_def n_def [symmetric] s_def parse_pos_defs
    using assms(3) n
    by (simp, subst parse_loop.simps) (simp add: p_def save_rest_def parse_static0_def)
qed

text \<open>
  C24. A frame whose body is cut by the end of the read buffer. When the input of a call on a
  new frame, with nothing saved by an earlier call, holds the whole head of a message and ends
  inside the first \<^verbatim>\<open>LD_MAX\<close> bytes of its body, \<^verbatim>\<open>parse_frame\<close> allocates the \<^verbatim>\<open>line_len\<close> bytes of
  the piece it has but clears \<^verbatim>\<open>input_len\<close> bytes of that allocation, command and header
  lines included: for every message and every such cut the write runs over the end of
  the allocation. (A later call that continues the body has no command and header lines before
  the piece, so this does not concern it.)
\<close>

theorem parse_frame_cut_body_overflows:
  assumes "msg_ok m" and "msg_body m = b1 @ b2" and "b1 \<noteq> []" and "b2 \<noteq> []" and "length b1 \<le> LD_MAX"
  shows "parse_frame rnd k parse_static0 alloc_frame (encode_head m @ NL # b1)
    (length (encode_head m @ NL # b1)) = Inl Buffer_Overflow"
  using parse_frame_cut [OF assms, of rnd k "[]"] by simp

theorem parse_frame_cut_body_overflows_witness:
  "parse_frame (\<lambda>i. i) 0 parse_static0 alloc_frame
     (encode_head \<lparr>msg_name = ''SEND'', msg_headers = [''content-length:5''], msg_body = ''hello''\<rparr> @ NL # ''he'')
     (length (encode_head \<lparr>msg_name = ''SEND'', msg_headers = [''content-length:5''], msg_body = ''hello''\<rparr> @ NL # ''he''))
   = Inl Buffer_Overflow"
proof -
  have "msg_ok \<lparr>msg_name = ''SEND'', msg_headers = [''content-length:5''], msg_body = ''hello''\<rparr>"
    by code_simp
  then show ?thesis
    by (intro parse_frame_cut_body_overflows [where ?b2.0 = "''llo''"]) (simp_all add: size_consts)
qed

end
