(* ===== verification/Stomp.thy ===== *)
theory Stomp
  imports Wire_Format
begin

text \<open>
  The STOMP side of a connection (\<^verbatim>\<open>lib/stomp.c\<close>, with \<^verbatim>\<open>send_msg\<close> and \<^verbatim>\<open>is_socket_valid\<close>
  of \<^verbatim>\<open>lib/connection.c\<close>): frames on a heap, the bucket of finished frames, the state of
  a connection with its saved partial line, the receive loop, and what is written
  to a socket. The helpers \<^verbatim>\<open>ssplit\<close>, \<^verbatim>\<open>frame_setname\<close>, \<^verbatim>\<open>get_contentlen\<close> and \<^verbatim>\<open>is_contentlen\<close>
  of \<^verbatim>\<open>stomp.c\<close> are letter for letter those of \<^verbatim>\<open>frame.c\<close> and are used from there.
\<close>

section \<open>The operating system\<close>

text \<open>
  What the code asks of its surroundings: the sequence of \<^verbatim>\<open>rand\<close> values, the results of
  \<^verbatim>\<open>getsockopt(SO_ERROR)\<close> (its return value and the error it stores) and of \<^verbatim>\<open>send\<close>. Reading
  \<^verbatim>\<open>SO_ERROR\<close> clears it and errors come and go, so that one \<open>os\<close> stands for one step of a thread:
  the passes of the workers and the steps of the server take a new one each time.
\<close>

record os =
  os_rand :: "nat \<Rightarrow> nat"
  os_getsockopt :: "int \<Rightarrow> int \<times> int"
  os_send :: "int \<Rightarrow> byte list \<Rightarrow> int"

definition is_socket_valid :: "os \<Rightarrow> int \<Rightarrow> ret" where
  "is_socket_valid os sock =
     (case os_getsockopt os sock of (retval, error) \<Rightarrow>
        if retval \<noteq> 0 \<or> error \<noteq> 0 then RET_ERROR else RET_SUCCESS)"

type_synonym sends = "(int \<times> byte list) list"

definition send_msg :: "os \<Rightarrow> int \<Rightarrow> byte list \<Rightarrow> nat \<Rightarrow> sends \<Rightarrow> int \<times> sends" where
  "send_msg os sock msg len out = (os_send os sock (take len msg), out @ [(sock, take len msg)])"

text \<open>Callers that ignore the result of \<^verbatim>\<open>send_msg\<close>.\<close>

abbreviation put_msg :: "os \<Rightarrow> int \<Rightarrow> byte list \<Rightarrow> nat \<Rightarrow> sends \<Rightarrow> sends" where
  "put_msg os sock msg len out \<equiv> snd (send_msg os sock msg len out)"

section \<open>State\<close>

text \<open>
  \<^verbatim>\<open>stomp_conninfo_t\<close>; the list behind \<open>sc_prev_data\<close> is the content of the allocation, its
  length the allocation's size.
\<close>

record stomp_conninfo_t =
  sc_id :: "byte list"
  sc_status :: flags
  sc_frame :: "ptr option"
  sc_prev_data :: "byte list option"
  sc_prev_len :: nat

definition STATE_INIT :: flags where "STATE_INIT = 1"
definition STATE_CONNECTED :: flags where "STATE_CONNECTED = 2"

text \<open>
  The frames on the heap, the address the next allocation returns, the list
  \<^verbatim>\<open>stomp_frame_bucket.h_frame\<close>, the number of \<^verbatim>\<open>rand\<close> calls so far and the data sent.
\<close>

record stomp_state =
  ss_frames :: "ptr \<Rightarrow> frame_t option"
  ss_next :: ptr
  ss_bucket :: "ptr list"
  ss_rand :: nat
  ss_out :: sends

definition stomp_init :: "stomp_state \<Rightarrow> ret \<times> stomp_state" where
  "stomp_init st = (RET_SUCCESS, st\<lparr>ss_bucket := []\<rparr>)"

text \<open>
  \<^verbatim>\<open>free_frame\<close>: header and body nodes go with the frame. The only value that is ever stored
  in \<^verbatim>\<open>transaction_data\<close> (by the SEND handler) points into a header node of the frame, which is
  not an allocation of its own.
\<close>

definition free_frame :: "ptr \<Rightarrow> stomp_state \<Rightarrow> stomp_state res" where
  "free_frame p st =
     (case ss_frames st p of None \<Rightarrow> Inl Bad_Free
      | Some f \<Rightarrow> if f_tdata f \<noteq> None then Inl Bad_Free
                  else Inr (st\<lparr>ss_frames := (ss_frames st)(p := None)\<rparr>))"

text \<open>\<^verbatim>\<open>cleanup\<close>: every frame in the bucket is unlinked and freed.\<close>

definition cleanup :: "stomp_state \<Rightarrow> (ret \<times> stomp_state) res" where
  "cleanup st =
     and_then (each_res (\<lambda>p st. free_frame p (st\<lparr>ss_bucket := remove1 p (ss_bucket st)\<rparr>)) (ss_bucket st) st)
       (\<lambda>st. Inr (RET_SUCCESS, st))"

definition get_frame_from_bucket :: "stomp_state \<Rightarrow> ptr option \<times> stomp_state" where
  "get_frame_from_bucket st =
     (case ss_bucket st of [] \<Rightarrow> (None, st) | p # ps \<Rightarrow> (Some p, st\<lparr>ss_bucket := ps\<rparr>))"

section \<open>Building frames\<close>

definition put_frame :: "ptr \<Rightarrow> frame_t \<Rightarrow> stomp_state \<Rightarrow> stomp_state" where
  "put_frame p f st = st\<lparr>ss_frames := (ss_frames st)(p \<mapsto> f)\<rparr>"

definition stomp_frame_finish :: "os \<Rightarrow> ptr \<Rightarrow> frame_t \<Rightarrow> stomp_state \<Rightarrow> stomp_state" where
  "stomp_frame_finish os p frame st =
     (let frame = frame\<lparr>f_status := SET (CLR (f_status frame)) STATUS_IN_BUCKET\<rparr>;
          frame = frame\<lparr>f_id := gen_random (os_rand os) (ss_rand st) FRAME_ID_LEN\<rparr>
      in (put_frame p frame st)\<lparr>ss_rand := ss_rand st + (FRAME_ID_LEN - 1), ss_bucket := ss_bucket st @ [p]\<rparr>)"

text \<open>The addition to \<^verbatim>\<open>frame->size\<close> that follows \<^verbatim>\<open>frame_finish\<close>, when the frame is in the bucket already.\<close>

definition grow_frame :: "ptr \<Rightarrow> int \<Rightarrow> stomp_state \<Rightarrow> stomp_state" where
  "grow_frame p n st =
     st\<lparr>ss_frames := (ss_frames st)(p := map_option (\<lambda>f. f\<lparr>f_size := f_size f + n\<rparr>) (ss_frames st p))\<rparr>"

definition stomp_frame_update :: "os \<Rightarrow> byte list \<Rightarrow> nat \<Rightarrow> ptr \<Rightarrow> stomp_state \<Rightarrow> (int \<times> stomp_state) res" where
  "stomp_frame_update os line len p st =
     (case ss_frames st p of None \<Rightarrow> Inl Use_After_Free
      | Some frame \<Rightarrow> Inr
     (if GET (f_status frame) STATUS_BORN then
        (case frame_setname line len frame of
           (RET_ERROR, frame) \<Rightarrow> (-1, st)
         | (RET_SUCCESS, frame) \<Rightarrow> (0, put_frame p (frame\<lparr>f_size := f_size frame + (int len + 1)\<rparr>) st))
      else if GET (f_status frame) STATUS_INPUT_HEADER then
        (if IS_NL line \<and> f_contentlen frame > 0 then
           (0, put_frame p (frame\<lparr>f_status := SET (CLR (f_status frame)) STATUS_INPUT_BODY,
                                  f_size := f_size frame + 1\<rparr>) st)
         else if IS_NL line \<and> f_contentlen frame = 0 then
           (1, grow_frame p 1 (stomp_frame_finish os p frame st))
         else
           (let (line, len) = (if IS_NL line then seek_nl line len else (line, len)) in
            if len > 0 then
              (let frame = (if is_contentlen line len = RET_SUCCESS
                            then frame\<lparr>f_contentlen := get_contentlen line\<rparr> else frame)
               in (0, put_frame p (frame\<lparr>f_attrs := snd (stomp_setdata allocated line len (f_attrs frame)),
                                         f_size := f_size frame + (int len + 1)\<rparr>) st))
            else (0, st)))
      else if GET (f_status frame) STATUS_INPUT_BODY then
        (let frame = (if len > 0
                      then frame\<lparr>f_has_contentlen := f_has_contentlen frame + int len,
                                 f_data := snd (stomp_setdata allocated line len (f_data frame)),
                                 f_size := f_size frame + int len\<rparr>
                      else frame);
             st = put_frame p frame st
         in if f_contentlen frame \<le> f_has_contentlen frame
            then (1, grow_frame p 1 (stomp_frame_finish os p frame st))
            else (0, st))
      else (0, st)))"

section \<open>A connection\<close>

definition conn_init :: "bool \<Rightarrow> os \<Rightarrow> stomp_state \<Rightarrow> stomp_conninfo_t option \<times> stomp_state" where
  "conn_init malloc_ok os st =
     (if \<not> malloc_ok then (None, st)
      else (Some \<lparr>sc_id = gen_random (os_rand os) (ss_rand st) CONN_ID_LEN, sc_status = 0, sc_frame = None,
              sc_prev_data = None, sc_prev_len = 0\<rparr>,
            st\<lparr>ss_rand := ss_rand st + (CONN_ID_LEN - 1)\<rparr>))"

definition conn_finish :: "os \<Rightarrow> stomp_conninfo_t option \<Rightarrow> stomp_state \<Rightarrow> (ret \<times> stomp_state) res" where
  "conn_finish os data st =
     (case data of None \<Rightarrow> Inr (RET_ERROR, st)
      | Some cinfo \<Rightarrow>
        (case sc_frame cinfo of None \<Rightarrow> Inr (RET_ERROR, st)
         | Some p \<Rightarrow>
           (case ss_frames st p of None \<Rightarrow> Inl Use_After_Free
            | Some frame \<Rightarrow>
              if GET (f_status frame) STATUS_INPUT_BODY \<or> GET (f_status frame) STATUS_INPUT_NAME
              then Inr (RET_SUCCESS, stomp_frame_finish os p frame st)
              else Inr (RET_ERROR, st))))"

text \<open>\<open>malloc_ok\<close> says whether \<^verbatim>\<open>alloc_frame\<close> finds memory; the assertion fails otherwise.\<close>

definition prepare_frame :: "bool \<Rightarrow> ptr \<Rightarrow> int \<Rightarrow> stomp_conninfo_t \<Rightarrow> stomp_state \<Rightarrow> (ptr \<times> stomp_conninfo_t \<times> stomp_state) res" where
  "prepare_frame malloc_ok c sock cinfo st =
     (case sc_frame cinfo of
        None \<Rightarrow>
          if \<not> malloc_ok then Inl Assert_Fail
          else (let p = ss_next st; frame = alloc_frame\<lparr>f_sock := sock, f_cinfo := Some c\<rparr>
                in Inr (p, cinfo\<lparr>sc_frame := Some p\<rparr>, (put_frame p frame st)\<lparr>ss_next := p + 1\<rparr>))
      | Some p \<Rightarrow> Inr (p, cinfo, st))"

fun is_frame_name_loop :: "(byte list \<times> nat) list \<Rightarrow> byte list \<Rightarrow> nat \<Rightarrow> ret" where
  "is_frame_name_loop [] name len = RET_ERROR"
| "is_frame_name_loop ((fname, flen) # finfos) name len =
     (if len < flen then is_frame_name_loop finfos name len
      else if flen = 0 then RET_ERROR
      else if strncmp0 name fname flen then RET_SUCCESS
      else is_frame_name_loop finfos name len)"

definition is_frame_name :: "byte list \<Rightarrow> nat \<Rightarrow> ret" where
  "is_frame_name name len = is_frame_name_loop finfo_arr name len"

definition stomp_send_error :: "os \<Rightarrow> int \<Rightarrow> byte list \<Rightarrow> sends \<Rightarrow> sends" where
  "stomp_send_error os sock body out =
     (if is_socket_valid os sock = RET_SUCCESS
      then let out = fold (\<lambda>m. put_msg os sock m (strlen m)) [''ERROR'' @ [NL], [NL], body] out
           in put_msg os sock [NUL] 1 out
      else out)"

text \<open>
  Saving an unfinished line: the first time into a fresh allocation of \<^verbatim>\<open>LD_MAX * 2\<close>
  bytes, later by \<^verbatim>\<open>realloc\<close> to \<^verbatim>\<open>prev_len + LD_MAX\<close>. Bytes that were never written are
  modelled as zero; no later step reads them.
\<close>

definition save_line :: "byte list \<Rightarrow> nat \<Rightarrow> stomp_conninfo_t \<Rightarrow> stomp_conninfo_t res" where
  "save_line cur line_len cinfo =
     (let n = sc_prev_len cinfo;
          (old, cap) = (case sc_prev_data cinfo of Some b \<Rightarrow> (b, n + LD_MAX) | None \<Rightarrow> ([], LD_MAX * 2))
      in if n + LD_MAX > cap \<or> n + line_len > cap then Inl Buffer_Overflow
         else let data = take n old @ strncpy cur line_len
              in Inr (cinfo\<lparr>sc_prev_data := Some (data @ replicate (cap - length data) NUL),
                            sc_prev_len := n + line_len\<rparr>))"

text \<open>The line to process: the current one, or the saved piece with the current one behind it.\<close>

definition join_line :: "byte list \<Rightarrow> nat \<Rightarrow> stomp_conninfo_t \<Rightarrow> (byte list \<times> nat \<times> stomp_conninfo_t) res" where
  "join_line cur line_len cinfo =
     (case sc_prev_data cinfo of
        None \<Rightarrow> Inr (cur, line_len, cinfo)
      | Some b \<Rightarrow>
          (let n = sc_prev_len cinfo + line_len in
           if n + 1 > length b then Inl Buffer_Overflow
           else let line = take (sc_prev_len cinfo) b @ strncpy cur line_len @ [NUL] @ drop (n + 1) b
                in Inr (line, n, cinfo\<lparr>sc_prev_data := Some line\<rparr>)))"

record recv_state =
  rs_cur :: nat
  rs_break :: bool
  rs_cinfo :: stomp_conninfo_t
  rs_st :: stomp_state

text \<open>One round of the loop of \<^verbatim>\<open>recv_data\<close>.\<close>

definition is_body_input :: "recv_state \<Rightarrow> bool res" where
  "is_body_input s =
     (case sc_frame (rs_cinfo s) of None \<Rightarrow> Inr False
      | Some p \<Rightarrow> (case ss_frames (rs_st s) p of None \<Rightarrow> Inl Use_After_Free
                   | Some f \<Rightarrow> Inr (GET (f_status f) STATUS_INPUT_BODY)))"

definition recv_line :: "os \<Rightarrow> int \<Rightarrow> ptr \<Rightarrow> bool \<Rightarrow> byte list \<Rightarrow> nat \<Rightarrow> nat \<Rightarrow> stomp_conninfo_t \<Rightarrow> stomp_state
    \<Rightarrow> (nat \<times> stomp_conninfo_t \<times> stomp_state) res" where
  "recv_line os sock c body line line_len next cinfo st =
     (if sc_frame cinfo \<noteq> None \<or> line_len > 0 then
        and_then (prepare_frame True c sock cinfo st) (\<lambda>(p, cinfo, st).
         and_then (stomp_frame_update os line line_len p st) (\<lambda>(ret, st).
           Inr (if ret > 0 then (if body then next + 1 else next, cinfo\<lparr>sc_frame := None\<rparr>, st)
                else if ret < 0
                then (next, cinfo, st\<lparr>ss_out := stomp_send_error os sock ''failed to parse frame'' (ss_out st)\<rparr>)
                else (next, cinfo, st))))
      else Inr (next, cinfo, st))"

definition recv_step :: "os \<Rightarrow> byte list \<Rightarrow> nat \<Rightarrow> int \<Rightarrow> ptr \<Rightarrow> recv_state \<Rightarrow> recv_state res" where
  "recv_step os buf len sock c s =
     and_then (is_body_input s) (\<lambda>body.
     let cur = drop (rs_cur s) buf; (ret, line_len) = ssplit cur (len - rs_cur s) body in
     if ret = RET_ERROR \<and> is_frame_name cur line_len = RET_ERROR then
       and_then (save_line cur line_len (rs_cinfo s)) (\<lambda>cinfo. Inr (s\<lparr>rs_cinfo := cinfo, rs_break := True\<rparr>))
     else
       let next = (if body then rs_cur s + line_len else rs_cur s + line_len + 1) in
       and_then (join_line cur line_len (rs_cinfo s)) (\<lambda>(line, line_len, cinfo).
       and_then (recv_line os sock c body line line_len next cinfo (rs_st s)) (\<lambda>(next, cinfo, st).
       Inr (s\<lparr>rs_cur := next, rs_st := st,
              rs_cinfo := (if sc_prev_data cinfo \<noteq> None
                           then cinfo\<lparr>sc_prev_data := None, sc_prev_len := 0\<rparr> else cinfo)\<rparr>))))"

text \<open>
  \<^verbatim>\<open>recv_data(buf, len, sock, cinfo)\<close>, where \<open>c\<close> is the address of \<^verbatim>\<open>cinfo\<close>. The result is
  \<open>None\<close> when the loop runs forever.
\<close>

definition recv_loop :: "os \<Rightarrow> byte list \<Rightarrow> nat \<Rightarrow> int \<Rightarrow> ptr \<Rightarrow> recv_state res \<Rightarrow> recv_state res option" where
  "recv_loop os buf len sock c =
     while_option (\<lambda>r. case r of Inl _ \<Rightarrow> False | Inr s \<Rightarrow> rs_cur s < len \<and> \<not> rs_break s)
       (\<lambda>r. and_then r (recv_step os buf len sock c))"

definition recv_data :: "os \<Rightarrow> byte list \<Rightarrow> int \<Rightarrow> int \<Rightarrow> ptr \<Rightarrow> stomp_conninfo_t \<Rightarrow> stomp_state
    \<Rightarrow> (ret \<times> stomp_conninfo_t \<times> stomp_state) res option" where
  "recv_data os buf len sock c cinfo st =
     map_option (\<lambda>r. and_then r (\<lambda>s. Inr (RET_SUCCESS, rs_cinfo s, rs_st s)))
       (recv_loop os buf (nat len) sock c
          (Inr \<lparr>rs_cur = 0, rs_break = False, rs_cinfo = cinfo, rs_st = st\<rparr>))"

text \<open>
  \<^verbatim>\<open>stomp_conn_worker\<close> from its \<^verbatim>\<open>conn_init\<close> on, over the successive results of \<^verbatim>\<open>recv\<close>: the
  return value and the bytes stored. The worker has ended, waits for more data, is
  caught in \<^verbatim>\<open>recv_data\<close>, or has run into a fault.
\<close>

definition RECV_BUFSIZE :: nat where "RECV_BUFSIZE = 4096"

datatype conn_result =
    Conn_Closed ret stomp_conninfo_t stomp_state
  | Conn_Waiting stomp_conninfo_t stomp_state
  | Conn_Stuck
  | Conn_Fault fault

fun conn_loop :: "os \<Rightarrow> int \<Rightarrow> ptr \<Rightarrow> (int \<times> byte list) list \<Rightarrow> stomp_conninfo_t \<Rightarrow> stomp_state \<Rightarrow> conn_result" where
  "conn_loop os sock c [] cinfo st = Conn_Waiting cinfo st"
| "conn_loop os sock c ((len, bytes) # rs) cinfo st =
     (let buf = bytes @ replicate (RECV_BUFSIZE - length bytes) NUL in
      case recv_data os buf len sock c cinfo st of
        None \<Rightarrow> Conn_Stuck
      | Some (Inl e) \<Rightarrow> Conn_Fault e
      | Some (Inr (_, cinfo, st)) \<Rightarrow>
          if len \<noteq> 0 then conn_loop os sock c rs cinfo st
          else (case conn_finish os (Some cinfo) st of
                  Inl e \<Rightarrow> Conn_Fault e
                | Inr (ret, st) \<Rightarrow> Conn_Closed ret cinfo st))"

definition stomp_conn_worker :: "bool \<Rightarrow> os \<Rightarrow> int \<Rightarrow> ptr \<Rightarrow> (int \<times> byte list) list \<Rightarrow> stomp_state \<Rightarrow> conn_result" where
  "stomp_conn_worker malloc_ok os sock c recvs st =
     (case conn_init malloc_ok os st of
        (None, st) \<Rightarrow> Conn_Fault Null_Deref
      | (Some cinfo, st) \<Rightarrow> conn_loop os sock c recvs cinfo st)"

section \<open>Writing to a socket\<close>

definition stomp_send_receipt :: "os \<Rightarrow> int \<Rightarrow> byte list option \<Rightarrow> sends \<Rightarrow> sends res" where
  "stomp_send_receipt os sock rid out =
     (case rid of None \<Rightarrow> Inr out
      | Some i \<Rightarrow>
          if sock > 0 then
            (let buf = ''receipt-id:'' @ cstr i @ [NL] in
             if length buf + 1 > LD_MAX then Inl Buffer_Overflow
             else let out = put_msg os sock (''RECEIPT'' @ [NL]) 8 out;
                      out = put_msg os sock buf (strlen buf) out
                  in Inr (put_msg os sock [NUL] 1 out))
          else Inr out)"

definition send_lines :: "os \<Rightarrow> int \<Rightarrow> linedata_t list \<Rightarrow> sends \<Rightarrow> sends" where
  "send_lines os sock headers out =
     fold (\<lambda>header out. put_msg os sock [NL] 1 (put_msg os sock (ld_data header) (ld_len header) out)) headers out"

definition stomp_send_message :: "os \<Rightarrow> int \<Rightarrow> frame_t \<Rightarrow> linedata_t list option \<Rightarrow> sends \<Rightarrow> sends" where
  "stomp_send_message os sock frame headers out =
     (let out = put_msg os sock (''MESSAGE'' @ [NL]) 8 out;
          out = send_lines os sock (f_attrs frame) out;
          out = (case headers of None \<Rightarrow> out | Some hs \<Rightarrow> send_lines os sock hs out);
          out = put_msg os sock ''message-id: '' 12 out;
          out = put_msg os sock (f_id frame) FRAME_ID_LEN out;
          out = put_msg os sock [NL] 1 out;
          out = (if f_data frame \<noteq> []
                 then fold (\<lambda>body. put_msg os sock (ld_data body) (ld_len body)) (f_data frame) (put_msg os sock [NL] 1 out)
                 else out)
      in put_msg os sock [NUL] 1 out)"

section \<open>The update of a frame on the heap\<close>

lemma put_frame_put [simp]: "put_frame p f (put_frame p g st) = put_frame p f st"
  by (simp add: put_frame_def)

lemma put_frame_simps [simp]:
  "ss_frames (put_frame p f st) = (ss_frames st)(p \<mapsto> f)" "ss_next (put_frame p f st) = ss_next st"
  "ss_bucket (put_frame p f st) = ss_bucket st" "ss_rand (put_frame p f st) = ss_rand st"
  "ss_out (put_frame p f st) = ss_out st"
  by (simp_all add: put_frame_def)

lemma put_frame_same: "ss_frames st p = Some f \<Longrightarrow> put_frame p f st = st"
  by (simp add: put_frame_def fun_upd_idem)

text \<open>
  The two \<^verbatim>\<open>frame_update\<close> functions do the same to a frame, except that the one of
  \<^verbatim>\<open>stomp.c\<close> publishes a finished frame in the bucket.
\<close>

definition published :: "ptr \<Rightarrow> frame_t \<Rightarrow> stomp_state \<Rightarrow> stomp_state" where
  "published p f st = (put_frame p (f\<lparr>f_status := STATUS_IN_BUCKET\<rparr>) st)
     \<lparr>ss_rand := ss_rand st + (FRAME_ID_LEN - 1), ss_bucket := ss_bucket st @ [p]\<rparr>"

lemma finish_grow:
  "grow_frame p 1 (stomp_frame_finish os p f (put_frame p f st)) =
     published p ((frame_finish (os_rand os) (ss_rand st) f)\<lparr>f_size := f_size f + 1\<rparr>) st"
  by (cases f, cases st)
    (simp add: grow_frame_def stomp_frame_finish_def frame_finish_def published_def put_frame_def SET_def CLR_def)

lemma setname_loop_error: "setname_loop fs line len f = (RET_ERROR, f') \<Longrightarrow> f' = f"
  by (induction fs line len f rule: setname_loop.induct) (auto split: if_splits)

lemma stomp_frame_update_eq:
  assumes "ss_frames st p = Some f"
  shows "stomp_frame_update os line len p st =
    (case frame_update (os_rand os) (ss_rand st) line len f of (r, f') \<Rightarrow>
       Inr (r, if r > 0 then published p f' st else put_frame p f' st))"
proof -
  note same = put_frame_same [OF assms]
  have fin: "grow_frame p 1 (stomp_frame_finish os p f st) =
     published p ((frame_finish (os_rand os) (ss_rand st) f)\<lparr>f_size := f_size f + 1\<rparr>) st"
    using finish_grow [of p os f st] same by simp
  show ?thesis
    using assms
    by (auto simp: stomp_frame_update_def frame_update_def same fin finish_grow Let_def frame_setname_def
        split: prod.splits ret.splits dest: setname_loop_error)
qed

section \<open>The receive loop as a line loop\<close>

text \<open>
  A loop state in the middle of a frame at address \<open>p\<close>, without a saved line; the frame
  itself is kept apart.
\<close>

definition recv_ok :: "nat \<Rightarrow> ptr \<Rightarrow> recv_state \<Rightarrow> bool" where
  "recv_ok k p s \<longleftrightarrow> \<not> rs_break s \<and> sc_frame (rs_cinfo s) = Some p \<and> sc_prev_data (rs_cinfo s) = None \<and>
     ss_rand (rs_st s) = k"

definition recv_with :: "ptr \<Rightarrow> frame_t \<Rightarrow> recv_state \<Rightarrow> recv_state" where
  "recv_with p f s = s\<lparr>rs_st := put_frame p f (rs_st s)\<rparr>"

definition recv_adv :: "nat \<Rightarrow> recv_state \<Rightarrow> recv_state" where
  "recv_adv i s = s\<lparr>rs_cur := rs_cur s + i\<rparr>"

lemmas recv_pos_defs = recv_ok_def recv_with_def recv_adv_def

lemma recv_loop_step:
  "rs_cur s < len \<Longrightarrow> \<not> rs_break s \<Longrightarrow> recv_step os buf len sock c s = r \<Longrightarrow>
     recv_loop os buf len sock c (Inr s) = recv_loop os buf len sock c r"
  unfolding recv_loop_def by (subst while_option_step) simp_all

lemma recv_loop_end:
  "len \<le> rs_cur s \<or> rs_break s \<Longrightarrow> recv_loop os buf len sock c (Inr s) = Some (Inr s)"
  unfolding recv_loop_def by (subst while_option_exit) auto

lemma recv_loop_fault: "recv_loop os buf len sock c (Inl e) = Some (Inl e)"
  unfolding recv_loop_def by (subst while_option_exit) auto

lemma recv_step_frame:
  assumes "recv_ok k p s" and "b = GET (f_status f) STATUS_INPUT_BODY"
    and "ssplit (drop (rs_cur s) buf) (len - rs_cur s) b = (RET_SUCCESS, l)"
    and "frame_update (os_rand os) k (drop (rs_cur s) buf) l f = (r, f')" and "r \<ge> 0"
  shows "recv_step os buf len sock c (recv_with p f s) =
    Inr (if r > 0
         then s\<lparr>rs_cur := rs_cur s + l + 1, rs_cinfo := (rs_cinfo s)\<lparr>sc_frame := None\<rparr>,
                rs_st := published p f' (rs_st s)\<rparr>
         else recv_with p f' (recv_adv (if b then l else l + 1) s))"
proof -
  have "stomp_frame_update os (drop (rs_cur s) buf) l p (put_frame p f (rs_st s)) =
    Inr (r, if r > 0 then published p f' (rs_st s) else put_frame p f' (rs_st s))"
    using assms(1,4) by (subst stomp_frame_update_eq [where f = f]) (simp_all add: published_def recv_ok_def)
  then show ?thesis
    using assms
    by (auto simp: recv_step_def is_body_input_def recv_pos_defs join_line_def recv_line_def prepare_frame_def)
qed

interpretation receiver: line_loop "os_rand os" k "\<lambda>s f. recv_loop os buf len sock c (Inr (recv_with p f s))"
    "\<lambda>s. drop (rs_cur s) buf" "\<lambda>s. len - rs_cur s" recv_adv "recv_ok k p" for os k buf len sock c p
proof unfold_locales
  fix s f f' l
  assume a: "recv_ok k p s" "0 < len - rs_cur s" "f_status f \<in> {STATUS_BORN, STATUS_INPUT_HEADER}"
    "ssplit (drop (rs_cur s) buf) (len - rs_cur s) False = (RET_SUCCESS, l)"
    "frame_update (os_rand os) k (drop (rs_cur s) buf) l f = (0, f')"
  then show "recv_loop os buf len sock c (Inr (recv_with p f s)) =
      recv_loop os buf len sock c (Inr (recv_with p f' (recv_adv (l + 1) s)))"
    using recv_step_frame [OF a(1) _ a(4,5)] status_GET_body(1) [OF a(3)]
    by (intro recv_loop_step) (auto simp: recv_pos_defs)
next
  fix s f f' l
  assume a: "recv_ok k p s" "0 < len - rs_cur s" "f_status f = STATUS_INPUT_BODY"
    "ssplit (drop (rs_cur s) buf) (len - rs_cur s) True = (RET_SUCCESS, l)"
    "frame_update (os_rand os) k (drop (rs_cur s) buf) l f = (0, f')"
  then show "recv_loop os buf len sock c (Inr (recv_with p f s)) =
      recv_loop os buf len sock c (Inr (recv_with p f' (recv_adv l s)))"
    using recv_step_frame [OF a(1) _ a(4,5)] status_GET_body(2) [OF a(3)]
    by (intro recv_loop_step) (auto simp: recv_pos_defs)
qed (auto simp: recv_pos_defs add.commute add.assoc)

text \<open>Between two frames: no frame under construction, nothing saved.\<close>

definition recv_idle :: "recv_state \<Rightarrow> bool" where
  "recv_idle s \<longleftrightarrow> \<not> rs_break s \<and> sc_frame (rs_cinfo s) = None \<and> sc_prev_data (rs_cinfo s) = None"

definition begin_frame :: "int \<Rightarrow> ptr \<Rightarrow> recv_state \<Rightarrow> recv_state" where
  "begin_frame sock c s =
     (let p = ss_next (rs_st s) in
      s\<lparr>rs_cinfo := (rs_cinfo s)\<lparr>sc_frame := Some p\<rparr>, rs_st := (rs_st s)\<lparr>ss_next := p + 1\<rparr>\<rparr>)"

lemma put_frame_next: "(put_frame p f st)\<lparr>ss_next := n\<rparr> = put_frame p f (st\<lparr>ss_next := n\<rparr>)"
  by (simp add: put_frame_def)

text \<open>A non-empty first line is processed as if the frame had been prepared before.\<close>

lemma recv_step_begin:
  assumes "recv_idle s" and "ssplit (drop (rs_cur s) buf) (len - rs_cur s) False = (RET_SUCCESS, l)" and "0 < l"
  shows "recv_step os buf len sock c s = recv_step os buf len sock c
    (recv_with (ss_next (rs_st s)) (alloc_frame\<lparr>f_sock := sock, f_cinfo := Some c\<rparr>) (begin_frame sock c s))"
proof -
  have "\<not> GET (f_status alloc_frame) STATUS_INPUT_BODY" by (simp add: alloc_frame_def status_simps)
  then show ?thesis
    using assms
    by (simp add: put_frame_next recv_step_def is_body_input_def recv_idle_def recv_with_def begin_frame_def join_line_def
        recv_line_def prepare_frame_def Let_def)
qed

text \<open>A null byte between two frames is skipped.\<close>

lemma recv_step_skip:
  assumes "recv_idle s" and "drop (rs_cur s) buf = NUL # t"
  shows "recv_step os buf len sock c s = Inr (s\<lparr>rs_cur := rs_cur s + 1\<rparr>)"
  using assms
  by (simp add: recv_step_def is_body_input_def recv_idle_def ssplit_def IS_BL_def join_line_def recv_line_def)

section \<open>Receiving messages\<close>

text \<open>What receiving a message does to the state: a new frame, at the end of the bucket.\<close>

definition deliver :: "os \<Rightarrow> int \<Rightarrow> ptr \<Rightarrow> message \<Rightarrow> stomp_state \<Rightarrow> stomp_state" where
  "deliver os sock c m st =
     (let p = ss_next st in
      published p ((frame_of m)\<lparr>f_sock := sock, f_cinfo := Some c,
                                f_id := gen_random (os_rand os) (ss_rand st) FRAME_ID_LEN\<rparr>)
        (st\<lparr>ss_next := p + 1\<rparr>))"

lemma recv_loop_begin:
  assumes "recv_idle s" and "rs_cur s < len"
    and "ssplit (drop (rs_cur s) buf) (len - rs_cur s) False = (RET_SUCCESS, l)" and "0 < l"
  shows "recv_loop os buf len sock c (Inr s) = recv_loop os buf len sock c
    (Inr (recv_with (ss_next (rs_st s)) (alloc_frame\<lparr>f_sock := sock, f_cinfo := Some c\<rparr>) (begin_frame sock c s)))"
proof -
  let ?s = "recv_with (ss_next (rs_st s)) (alloc_frame\<lparr>f_sock := sock, f_cinfo := Some c\<rparr>) (begin_frame sock c s)"
  have "recv_loop os buf len sock c (Inr s) = recv_loop os buf len sock c (recv_step os buf len sock c ?s)"
    using assms recv_step_begin [OF assms(1,3,4)] by (intro recv_loop_step) (auto simp: recv_idle_def)
  moreover have "recv_loop os buf len sock c (Inr ?s) = recv_loop os buf len sock c (recv_step os buf len sock c ?s)"
    using assms by (intro recv_loop_step) (auto simp: recv_idle_def recv_with_def begin_frame_def Let_def)
  ultimately show ?thesis by simp
qed

lemma recv_loop_last:
  assumes "recv_ok k p s" and "rs_cur s < len" and "b = GET (f_status f) STATUS_INPUT_BODY"
    and "ssplit (drop (rs_cur s) buf) (len - rs_cur s) b = (RET_SUCCESS, l)"
    and "frame_update (os_rand os) k (drop (rs_cur s) buf) l f = (1, f')"
  shows "recv_loop os buf len sock c (Inr (recv_with p f s)) = recv_loop os buf len sock c
    (Inr (s\<lparr>rs_cur := rs_cur s + l + 1, rs_cinfo := (rs_cinfo s)\<lparr>sc_frame := None\<rparr>, rs_st := published p f' (rs_st s)\<rparr>))"
  using assms recv_step_frame [OF assms(1,3-5)]
  by (intro recv_loop_step) (auto simp: recv_with_def recv_ok_def)

text \<open>From the blank line behind the headers to the end of the message.\<close>

lemma recv_blank_no_body:
  assumes s: "recv_ok k p s" "drop (rs_cur s) buf = NL # NUL # t" "rs_cur s + 2 \<le> len"
    and m: "msg_ok m" "msg_body m = []" and f: "f = alloc_frame\<lparr>f_sock := sock, f_cinfo := Some c\<rparr>"
    and g: "g = (frame_of m)\<lparr>f_sock := sock, f_cinfo := Some c, f_id := gen_random (os_rand os) k FRAME_ID_LEN\<rparr>"
  shows "recv_loop os buf len sock c (Inr (recv_with p (header_frame m f) s)) = recv_loop os buf len sock c
    (Inr (s\<lparr>rs_cur := rs_cur s + 2, rs_cinfo := (rs_cinfo s)\<lparr>sc_frame := None\<rparr>, rs_st := published p g (rs_st s)\<rparr>))"
proof -
  define s2 where "s2 = s\<lparr>rs_cur := rs_cur s + 0 + 1,
      rs_cinfo := (rs_cinfo s)\<lparr>sc_frame := None\<rparr>, rs_st := published p g (rs_st s)\<rparr>"
  have "recv_loop os buf len sock c (Inr (recv_with p (header_frame m f) s)) = recv_loop os buf len sock c (Inr s2)"
    unfolding s2_def
    using s frame_update_last_blank [OF m f, of "os_rand os" k "NUL # t"]
    by (intro recv_loop_last [where b = False])
      (auto simp: ssplit_blank g header_frame_def status_simps)
  also have "\<dots> = recv_loop os buf len sock c (Inr (s2\<lparr>rs_cur := rs_cur s2 + 1\<rparr>))"
  proof (rule recv_loop_step)
    have "drop (rs_cur s2) buf = NUL # t" using drop_further [OF s(2), of 1] by (simp add: s2_def)
    moreover have "recv_idle s2" using s(1) by (simp add: s2_def recv_idle_def recv_ok_def)
    ultimately show "recv_step os buf len sock c s2 = Inr (s2\<lparr>rs_cur := rs_cur s2 + 1\<rparr>)"
      by (intro recv_step_skip)
  qed (use s in \<open>auto simp: s2_def recv_ok_def\<close>)
  also have "s2\<lparr>rs_cur := rs_cur s2 + 1\<rparr> = s\<lparr>rs_cur := rs_cur s + 2,
      rs_cinfo := (rs_cinfo s)\<lparr>sc_frame := None\<rparr>, rs_st := published p g (rs_st s)\<rparr>"
    by (cases s) (simp add: s2_def)
  finally show ?thesis .
qed

lemma recv_blank_body:
  assumes s: "recv_ok k p s" "drop (rs_cur s) buf = NL # msg_body m @ NUL # t" "rs_cur s + 2 + length (msg_body m) \<le> len"
    and m: "msg_ok m" "msg_body m \<noteq> []" and f: "f = alloc_frame\<lparr>f_sock := sock, f_cinfo := Some c\<rparr>"
    and g: "g = (frame_of m)\<lparr>f_sock := sock, f_cinfo := Some c, f_id := gen_random (os_rand os) k FRAME_ID_LEN\<rparr>"
  shows "recv_loop os buf len sock c (Inr (recv_with p (header_frame m f) s)) = recv_loop os buf len sock c
    (Inr (s\<lparr>rs_cur := rs_cur s + (length (msg_body m) + 2), rs_cinfo := (rs_cinfo s)\<lparr>sc_frame := None\<rparr>,
            rs_st := published p g (rs_st s)\<rparr>))"
proof -
  define z where "z = last (chunks (msg_body m))"
  define s1 where "s1 = recv_adv (1 + length (msg_body m) - length z) s"
  define f2 where "f2 = body_frame (msg_body m) ((header_frame m f)\<lparr>f_status := STATUS_INPUT_BODY,
     f_size := f_size (header_frame m f) + 1\<rparr>)"
  have nb: "NUL \<notin> set (msg_body m)" using m(1) by (simp add: msg_ok_def)
  have z: "z \<noteq> []" "length z \<le> LD_MAX" "NUL \<notin> set z" and lz: "length z \<le> length (msg_body m)"
    and d0: "drop (length (msg_body m) - length z) (msg_body m @ NUL # t) = z @ NUL # t"
    unfolding z_def using body_last_chunk [OF m(2) nb, of "NUL # t"] by auto
  have d: "drop (rs_cur s1) buf = z @ NUL # t"
    using drop_further [OF s(2), of "Suc (length (msg_body m) - length z)"] d0 lz
    by (simp add: s1_def recv_adv_def Suc_diff_le)
  have "recv_loop os buf len sock c (Inr (recv_with p (header_frame m f) s)) =
      recv_loop os buf len sock c (Inr (recv_with p f2 s1))"
    unfolding s1_def f2_def z_def using s m nb f
    by (intro receiver.run_blank_to_last_chunk [where t = t]) (auto simp: header_frame_def alloc_frame_def msg_ok_def)
  also have "\<dots> = recv_loop os buf len sock c (Inr (s1\<lparr>rs_cur := rs_cur s1 + length z + 1,
      rs_cinfo := (rs_cinfo s1)\<lparr>sc_frame := None\<rparr>, rs_st := published p g (rs_st s1)\<rparr>))"
  proof (rule recv_loop_last [where b = True])
    show "frame_update (os_rand os) k (drop (rs_cur s1) buf) (length z) f2 = (1, g)"
      unfolding d f2_def g z_def using frame_update_last_chunk [OF m f] by simp
    show "ssplit (drop (rs_cur s1) buf) (len - rs_cur s1) True = (RET_SUCCESS, length z)"
      unfolding d using z lz s(3) by (intro ssplit_body_end) (auto simp: s1_def recv_adv_def)
  qed (use s z lz in \<open>auto simp: s1_def recv_pos_defs f2_def body_frame_def status_simps\<close>)
  also have "s1\<lparr>rs_cur := rs_cur s1 + length z + 1, rs_cinfo := (rs_cinfo s1)\<lparr>sc_frame := None\<rparr>,
      rs_st := published p g (rs_st s1)\<rparr> = s\<lparr>rs_cur := rs_cur s + (length (msg_body m) + 2),
      rs_cinfo := (rs_cinfo s)\<lparr>sc_frame := None\<rparr>, rs_st := published p g (rs_st s)\<rparr>"
    using lz by (cases s) (simp add: s1_def recv_adv_def)
  finally show ?thesis .
qed

lemma recv_blank:
  assumes s: "recv_ok k p s" "drop (rs_cur s) buf = NL # msg_body m @ NUL # t" "rs_cur s + 2 + length (msg_body m) \<le> len"
    and m: "msg_ok m" and f: "f = alloc_frame\<lparr>f_sock := sock, f_cinfo := Some c\<rparr>"
    and g: "g = (frame_of m)\<lparr>f_sock := sock, f_cinfo := Some c, f_id := gen_random (os_rand os) k FRAME_ID_LEN\<rparr>"
  shows "recv_loop os buf len sock c (Inr (recv_with p (header_frame m f) s)) = recv_loop os buf len sock c
    (Inr (s\<lparr>rs_cur := rs_cur s + (length (msg_body m) + 2), rs_cinfo := (rs_cinfo s)\<lparr>sc_frame := None\<rparr>,
            rs_st := published p g (rs_st s)\<rparr>))"
proof (cases "msg_body m = []")
  case True
  with recv_blank_no_body [OF s(1) _ _ m True f g, of buf t len] s show ?thesis by simp
next
  case False
  show ?thesis by (rule recv_blank_body [OF s m False f g])
qed

lemma recv_message:
  assumes s: "recv_idle s" "drop (rs_cur s) buf = encode m @ t" "rs_cur s + length (encode m) \<le> len" and m: "msg_ok m"
  shows "recv_loop os buf len sock c (Inr s) = recv_loop os buf len sock c
    (Inr (s\<lparr>rs_cur := rs_cur s + length (encode m), rs_st := deliver os sock c m (rs_st s)\<rparr>))"
proof -
  define p where "p = ss_next (rs_st s)"
  define k where "k = ss_rand (rs_st s)"
  define f where "f = alloc_frame\<lparr>f_sock := sock, f_cinfo := Some c\<rparr>"
  define s0 where "s0 = begin_frame sock c s"
  define s1 where "s1 = recv_adv (length (encode_head m)) s0"
  define g where "g = (frame_of m)\<lparr>f_sock := sock, f_cinfo := Some c, f_id := gen_random (os_rand os) k FRAME_ID_LEN\<rparr>"
  have name: "msg_name m \<in> fst ` set finfo_arr" using m by (simp add: msg_ok_def)
  have len: "length (encode m) = length (encode_head m) + 2 + length (msg_body m)" by (simp add: encode_head)
  have s0: "recv_ok k p s0" "drop (rs_cur s0) buf = encode_head m @ NL # msg_body m @ NUL # t"
      "length (encode m) \<le> len - rs_cur s0"
    using s by (simp_all add: s0_def begin_frame_def recv_ok_def recv_idle_def p_def k_def Let_def encode_head)
  have pos: "length (encode m) > length (msg_name m)" by (simp add: encode_def)
  have "ssplit (drop (rs_cur s) buf) (len - rs_cur s) False = (RET_SUCCESS, length (msg_name m))"
    unfolding s(2) encode_def using s(3) pos ssplit_name [OF name] by (auto simp: encode_def)
  then have "recv_loop os buf len sock c (Inr s) = recv_loop os buf len sock c (Inr (recv_with p f s0))"
    unfolding p_def f_def s0_def using s(1,3) pos command_line(1) [OF name]
    by (intro recv_loop_begin) auto
  also have "\<dots> = recv_loop os buf len sock c (Inr (recv_with p (header_frame m f) s1))"
    unfolding s1_def using s0 m len
    by (intro receiver.run_to_blank [where t = "NL # msg_body m @ NUL # t"]) (auto simp: f_def alloc_frame_def)
  also have "\<dots> = recv_loop os buf len sock c (Inr (s1\<lparr>rs_cur := rs_cur s1 + (length (msg_body m) + 2),
      rs_cinfo := (rs_cinfo s1)\<lparr>sc_frame := None\<rparr>, rs_st := published p g (rs_st s1)\<rparr>))"
    using s0 m len s(3) drop_behind [OF s0(2)]
    by (intro recv_blank [OF _ _ _ _ f_def g_def, where t = t]) (auto simp: s1_def recv_pos_defs s0_def begin_frame_def Let_def)
  also have "s1\<lparr>rs_cur := rs_cur s1 + (length (msg_body m) + 2), rs_cinfo := (rs_cinfo s1)\<lparr>sc_frame := None\<rparr>,
      rs_st := published p g (rs_st s1)\<rparr> = s\<lparr>rs_cur := rs_cur s + length (encode m), rs_st := deliver os sock c m (rs_st s)\<rparr>"
    using s(1) by (cases s, cases "rs_cinfo s")
      (simp add: s1_def recv_adv_def s0_def begin_frame_def deliver_def p_def g_def k_def Let_def recv_idle_def len)
  finally show ?thesis .
qed

lemma recv_messages:
  assumes "recv_idle s" and "drop (rs_cur s) buf = concat (map encode ms) @ t"
    and "rs_cur s + length (concat (map encode ms)) \<le> len" and "\<forall>m\<in>set ms. msg_ok m"
  shows "recv_loop os buf len sock c (Inr s) = recv_loop os buf len sock c
    (Inr (s\<lparr>rs_cur := rs_cur s + length (concat (map encode ms)), rs_st := fold (deliver os sock c) ms (rs_st s)\<rparr>))"
  using assms
proof (induction ms arbitrary: s)
  case Nil
  then show ?case by simp
next
  case (Cons m ms)
  let ?s = "s\<lparr>rs_cur := rs_cur s + length (encode m), rs_st := deliver os sock c m (rs_st s)\<rparr>"
  have d: "drop (rs_cur s) buf = encode m @ concat (map encode ms) @ t" using Cons.prems(2) by simp
  have "recv_loop os buf len sock c (Inr s) = recv_loop os buf len sock c (Inr ?s)"
    using Cons.prems d by (intro recv_message) auto
  also have "\<dots> = recv_loop os buf len sock c (Inr (?s\<lparr>rs_cur := rs_cur ?s + length (concat (map encode ms)),
      rs_st := fold (deliver os sock c) ms (rs_st ?s)\<rparr>))"
    using Cons.prems drop_behind [OF d] by (intro Cons.IH) (auto simp: recv_idle_def)
  finally show ?case by (simp add: add.assoc)
qed

lemma deliver_simps [simp]:
  "ss_next (deliver os sock c m st) = ss_next st + 1"
  "ss_bucket (deliver os sock c m st) = ss_bucket st @ [ss_next st]"
  "ss_rand (deliver os sock c m st) = ss_rand st + (FRAME_ID_LEN - 1)"
  "ss_out (deliver os sock c m st) = ss_out st"
  by (simp_all add: deliver_def published_def Let_def)

text \<open>The frame a message becomes.\<close>

definition delivered :: "os \<Rightarrow> int \<Rightarrow> ptr \<Rightarrow> nat \<Rightarrow> message \<Rightarrow> frame_t" where
  "delivered os sock c k m = (frame_of m)\<lparr>f_status := STATUS_IN_BUCKET,
     f_id := gen_random (os_rand os) k FRAME_ID_LEN, f_sock := sock, f_cinfo := Some c\<rparr>"

lemma deliver_frames:
  "ss_frames (deliver os sock c m st) = (ss_frames st)(ss_next st \<mapsto> delivered os sock c (ss_rand st) m)"
  by (simp add: deliver_def published_def delivered_def Let_def frame_of_def alloc_frame_def)

lemma deliver_all:
  "ss_next (fold (deliver os sock c) ms st) = ss_next st + length ms"
  "ss_bucket (fold (deliver os sock c) ms st) = ss_bucket st @ [ss_next st ..< ss_next st + length ms]"
  "ss_out (fold (deliver os sock c) ms st) = ss_out st"
proof (induction ms arbitrary: st)
  case (Cons m ms)
  { case 1 then show ?case by (simp add: Cons.IH(1)) }
  { case 2
    have "[ss_next st ..< ss_next st + length (m # ms)] = ss_next st # [ss_next st + 1 ..< ss_next st + 1 + length ms]"
      by (subst upt_conv_Cons) simp_all
    then show ?case by (simp add: Cons.IH(2) del: upt_Suc) }
  { case 3 then show ?case by (simp add: Cons.IH(3)) }
qed simp_all

lemma deliver_old: "q < ss_next st \<Longrightarrow> ss_frames (fold (deliver os sock c) ms st) q = ss_frames st q"
  by (induction ms arbitrary: st) (simp_all add: deliver_frames)

lemma deliver_new:
  "i < length ms \<Longrightarrow> ss_frames (fold (deliver os sock c) ms st) (ss_next st + i) =
     Some (delivered os sock c (ss_rand st + i * (FRAME_ID_LEN - 1)) (ms ! i))"
proof (induction ms arbitrary: st i)
  case (Cons m ms)
  show ?case
  proof (cases i)
    case 0
    then show ?thesis by (simp add: deliver_old deliver_frames)
  next
    case (Suc j)
    then show ?thesis using Cons.prems Cons.IH [of j "deliver os sock c m st"] by (simp add: add.assoc)
  qed
qed simp

definition conn_idle :: "stomp_conninfo_t \<Rightarrow> bool" where
  "conn_idle cinfo \<longleftrightarrow> sc_frame cinfo = None \<and> sc_prev_data cinfo = None"

lemma recv_data_all:
  assumes "conn_idle cinfo" and "\<forall>m\<in>set ms. msg_ok m"
  shows "recv_data os (concat (map encode ms) @ t) (int (length (concat (map encode ms)))) sock c cinfo st =
    Some (Inr (RET_SUCCESS, cinfo, fold (deliver os sock c) ms st))"
proof -
  let ?s = "\<lparr>rs_cur = 0, rs_break = False, rs_cinfo = cinfo, rs_st = st\<rparr>"
  have "recv_loop os (concat (map encode ms) @ t) (length (concat (map encode ms))) sock c (Inr ?s) =
    recv_loop os (concat (map encode ms) @ t) (length (concat (map encode ms))) sock c
      (Inr (?s\<lparr>rs_cur := rs_cur ?s + length (concat (map encode ms)), rs_st := fold (deliver os sock c) ms (rs_st ?s)\<rparr>))"
    using assms by (intro recv_messages [where t = t]) (auto simp: recv_idle_def conn_idle_def)
  then show ?thesis by (simp add: recv_data_def recv_loop_end)
qed

lemma message_of_delivered: "msg_ok m \<Longrightarrow> message_of (delivered os sock c k m) = m"
  by (simp add: delivered_def message_of_frame_of)

section \<open>Properties\<close>

text \<open>
  C2. Receiving complete messages. When the bytes received on an idle connection are
  the wire forms of any number of messages, one after another, \<^verbatim>\<open>recv_data\<close> returns, the
  connection is idle again, nothing is sent, and the bucket has grown by exactly one
  frame per message, in the order of the messages: each frame stands for its message
  (command, header lines, body), belongs to the socket and the connection, and carries
  its own identifier.
\<close>

theorem recv_data_delivers:
  assumes "conn_idle cinfo" and "\<forall>m\<in>set ms. msg_ok m"
  shows "\<exists>st'. recv_data os (concat (map encode ms) @ t) (int (length (concat (map encode ms)))) sock c cinfo st =
      Some (Inr (RET_SUCCESS, cinfo, st')) \<and>
    ss_bucket st' = ss_bucket st @ [ss_next st ..< ss_next st + length ms] \<and> ss_out st' = ss_out st \<and>
    (\<forall>i < length ms. \<exists>f. ss_frames st' (ss_next st + i) = Some f \<and> message_of f = ms ! i \<and>
       f_sock f = sock \<and> f_cinfo f = Some c \<and> f_status f = STATUS_IN_BUCKET \<and>
       f_id f = gen_random (os_rand os) (ss_rand st + i * (FRAME_ID_LEN - 1)) FRAME_ID_LEN) \<and>
    (\<forall>q < ss_next st. ss_frames st' q = ss_frames st q)"
proof (intro exI conjI)
  show "recv_data os (concat (map encode ms) @ t) (int (length (concat (map encode ms)))) sock c cinfo st =
      Some (Inr (RET_SUCCESS, cinfo, fold (deliver os sock c) ms st))"
    using assms by (rule recv_data_all)
  show "\<forall>i < length ms. \<exists>f. ss_frames (fold (deliver os sock c) ms st) (ss_next st + i) = Some f \<and> message_of f = ms ! i \<and>
       f_sock f = sock \<and> f_cinfo f = Some c \<and> f_status f = STATUS_IN_BUCKET \<and>
       f_id f = gen_random (os_rand os) (ss_rand st + i * (FRAME_ID_LEN - 1)) FRAME_ID_LEN"
    using assms(2) by (auto simp: deliver_new message_of_delivered) (simp_all add: delivered_def)
qed (simp_all add: deliver_all deliver_old)

text \<open>Small instances for the witnesses.\<close>

definition os0 :: os where
  "os0 = \<lparr>os_rand = (\<lambda>i. i), os_getsockopt = (\<lambda>_. (0, 0)), os_send = (\<lambda>_ m. int (length m))\<rparr>"

definition st0 :: stomp_state where
  "st0 = \<lparr>ss_frames = (\<lambda>_. None), ss_next = 1, ss_bucket = [], ss_rand = 0, ss_out = []\<rparr>"

definition conn0 :: stomp_conninfo_t where
  "conn0 = \<lparr>sc_id = replicate CONN_ID_LEN NUL, sc_status = 0, sc_frame = None, sc_prev_data = None, sc_prev_len = 0\<rparr>"

definition msg1 :: message where
  "msg1 = \<lparr>msg_name = ''SEND'', msg_headers = [''destination:/q'', ''content-length:5''], msg_body = ''hello''\<rparr>"

definition msg2 :: message where
  "msg2 = \<lparr>msg_name = ''BEGIN'', msg_headers = [''transaction:t1'', ''content-length:0''], msg_body = []\<rparr>"

lemma msgs_ok: "msg_ok msg1" "msg_ok msg2"
  by code_simp+

theorem recv_data_delivers_witness:
  "\<exists>st'. recv_data os0 (concat (map encode [msg1, msg2]) @ []) (int (length (concat (map encode [msg1, msg2])))) 4 9 conn0 st0 =
      Some (Inr (RET_SUCCESS, conn0, st')) \<and>
    ss_bucket st' = ss_bucket st0 @ [ss_next st0 ..< ss_next st0 + length [msg1, msg2]] \<and> ss_out st' = ss_out st0 \<and>
    (\<forall>i < length [msg1, msg2]. \<exists>f. ss_frames st' (ss_next st0 + i) = Some f \<and> message_of f = [msg1, msg2] ! i \<and>
       f_sock f = 4 \<and> f_cinfo f = Some 9 \<and> f_status f = STATUS_IN_BUCKET \<and>
       f_id f = gen_random (os_rand os0) (ss_rand st0 + i * (FRAME_ID_LEN - 1)) FRAME_ID_LEN) \<and>
    (\<forall>q < ss_next st0. ss_frames st' q = ss_frames st0 q)"
proof -
  have "conn_idle conn0" by (simp add: conn_idle_def conn0_def)
  moreover have "\<forall>m\<in>set [msg1, msg2]. msg_ok m" using msgs_ok by simp
  ultimately show ?thesis by (rule recv_data_delivers)
qed

end
