(* ===== verification/Stomp_Receive.thy ===== *)
theory Stomp_Receive
  imports Stomp
begin

text \<open>
  More about the receive side of \<^verbatim>\<open>lib/stomp.c\<close>: whole connections, lines cut by the end of
  a \<^verbatim>\<open>recv\<close>, when \<^verbatim>\<open>recv_data\<close> returns and when it does not, and what is written to the socket.
\<close>

section \<open>A whole connection\<close>

lemma conn_loop_messages:
  assumes "conn_idle cinfo" and "\<forall>ms\<in>set mss. (\<forall>m\<in>set ms. msg_ok m) \<and> ms \<noteq> []"
  shows "conn_loop os sock c (map (\<lambda>ms. (int (length (concat (map encode ms))), concat (map encode ms))) mss @ rs) cinfo st =
    conn_loop os sock c rs cinfo (fold (deliver os sock c) (concat mss) st)"
  using assms(2)
proof (induction mss arbitrary: st)
  case Nil
  then show ?case by simp
next
  case (Cons ms mss)
  have "length (concat (map encode ms)) \<noteq> 0"
    using Cons.prems by (cases ms) (auto simp: encode_def)
  then show ?case
    using Cons recv_data_all [OF assms(1), of ms] by (simp add: Let_def)
qed

lemma recv_data_none: "len \<le> 0 \<Longrightarrow> recv_data os buf len sock c cinfo st = Some (Inr (RET_SUCCESS, cinfo, st))"
  by (simp add: recv_data_def recv_loop_end)

text \<open>
  C10. A whole connection. A client that sends any number of complete messages, grouped
  into any number of \<^verbatim>\<open>recv\<close> results, and closes: the worker ends, the connection is idle
  at the end (no frame under construction and no saved line, so \<^verbatim>\<open>conn_finish\<close> has nothing to
  do), nothing was sent, and the bucket has grown by one frame per message, in the order
  sent, whatever the grouping was.
\<close>

theorem conn_worker_delivers:
  assumes "\<forall>ms\<in>set mss. (\<forall>m\<in>set ms. msg_ok m) \<and> ms \<noteq> []"
  shows "\<exists>cinfo st'. stomp_conn_worker True os sock c
      (map (\<lambda>ms. (int (length (concat (map encode ms))), concat (map encode ms))) mss @ [(0, [])]) st =
      Conn_Closed RET_ERROR cinfo st' \<and> conn_idle cinfo \<and> ss_out st' = ss_out st \<and>
    ss_bucket st' = ss_bucket st @ [ss_next st ..< ss_next st + length (concat mss)] \<and>
    map (\<lambda>p. map_option message_of (ss_frames st' p)) [ss_next st ..< ss_next st + length (concat mss)] =
      map Some (concat mss)"
proof -
  define cinfo where "cinfo = the (fst (conn_init True os st))"
  define st1 where "st1 = snd (conn_init True os st)"
  have ini: "conn_init True os st = (Some cinfo, st1)" by (simp add: cinfo_def st1_def conn_init_def)
  have idle: "conn_idle cinfo" and st1: "ss_next st1 = ss_next st" "ss_bucket st1 = ss_bucket st" "ss_out st1 = ss_out st"
    by (simp_all add: cinfo_def st1_def conn_init_def conn_idle_def)
  define st' where "st' = fold (deliver os sock c) (concat mss) st1"
  have "stomp_conn_worker True os sock c
      (map (\<lambda>ms. (int (length (concat (map encode ms))), concat (map encode ms))) mss @ [(0, [])]) st =
      conn_loop os sock c [(0, [])] cinfo st'"
    by (simp add: stomp_conn_worker_def ini st'_def conn_loop_messages [OF idle assms])
  also have "\<dots> = Conn_Closed RET_ERROR cinfo st'"
    using idle by (simp add: recv_data_none conn_finish_def conn_idle_def)
  finally have w: "stomp_conn_worker True os sock c
      (map (\<lambda>ms. (int (length (concat (map encode ms))), concat (map encode ms))) mss @ [(0, [])]) st =
      Conn_Closed RET_ERROR cinfo st'" .
  have ok: "i < length (concat mss) \<Longrightarrow> msg_ok (concat mss ! i)" for i
    using assms nth_mem [of i "concat mss"] by (auto simp del: nth_mem)
  have "map (\<lambda>p. map_option message_of (ss_frames st' p)) [ss_next st ..< ss_next st + length (concat mss)] =
      map Some (concat mss)"
  proof (rule nth_equalityI)
    fix i assume "i < length (map (\<lambda>p. map_option message_of (ss_frames st' p)) [ss_next st ..< ss_next st + length (concat mss)])"
    then have i: "i < length (concat mss)" by simp
    then show "map (\<lambda>p. map_option message_of (ss_frames st' p)) [ss_next st ..< ss_next st + length (concat mss)] ! i =
        map Some (concat mss) ! i"
      using deliver_new [OF i, of os sock c st1] ok [OF i]
      by (simp add: st1 st'_def message_of_delivered del: length_concat)
  qed simp
  then show ?thesis using w idle by (auto simp: st'_def deliver_all st1)
qed

theorem conn_worker_delivers_witness:
  "\<exists>cinfo st'. stomp_conn_worker True os0 4 9
      (map (\<lambda>ms. (int (length (concat (map encode ms))), concat (map encode ms))) [[msg1], [msg2, msg1]] @ [(0, [])]) st0 =
      Conn_Closed RET_ERROR cinfo st' \<and> conn_idle cinfo \<and> ss_out st' = ss_out st0 \<and>
    ss_bucket st' = ss_bucket st0 @ [ss_next st0 ..< ss_next st0 + length (concat [[msg1], [msg2, msg1]])] \<and>
    map (\<lambda>p. map_option message_of (ss_frames st' p)) [ss_next st0 ..< ss_next st0 + length (concat [[msg1], [msg2, msg1]])] =
      map Some (concat [[msg1], [msg2, msg1]])"
  by (rule conn_worker_delivers) (simp add: msgs_ok)

section \<open>When \<^verbatim>\<open>recv_data\<close> returns\<close>

text \<open>The loop advances or leaves whenever the line in the body is not empty.\<close>

lemma ssplit_pos: "\<not> IS_BL s \<Longrightarrow> ssplit s n True = (r, l) \<Longrightarrow> 0 < l"
  using ssplit_posD [of r l s n True] by simp

lemma recv_line_next:
  "recv_line os sock c body line l n cinfo st = Inr (n', cinfo', st') \<Longrightarrow> n \<le> n'"
  by (auto simp: recv_line_def and_then_eq_Inr split: if_splits prod.splits)

lemma recv_step_advances:
  assumes "recv_step os buf len sock c s = Inr s'" and "\<not> IS_BL (drop (rs_cur s) buf)"
  shows "rs_break s' \<or> rs_cur s < rs_cur s'"
proof -
  obtain body where body: "is_body_input s = Inr body" using assms(1)
    by (auto simp: recv_step_def and_then_eq_Inr)
  obtain r l where rl: "ssplit (drop (rs_cur s) buf) (len - rs_cur s) body = (r, l)" by fastforce
  have l: "body \<Longrightarrow> 0 < l" using ssplit_pos [OF assms(2)] rl by auto
  show ?thesis
    using assms(1) l
    by (auto simp: recv_step_def body rl Let_def and_then_eq_Inr split: if_splits prod.splits dest!: recv_line_next)
qed

text \<open>
  C16. \<^verbatim>\<open>recv_data\<close> returns on every input without a null byte: whatever the bytes are, in
  whatever state the connection is, and wherever the lines are cut, the loop over the
  \<^verbatim>\<open>len\<close> received bytes ends.
\<close>

theorem recv_data_terminates:
  assumes "NUL \<notin> set (take (nat len) buf)" and "nat len \<le> length buf"
  shows "\<exists>r. recv_data os buf len sock c cinfo st = Some r"
proof -
  let ?f = "\<lambda>r. case r of Inl _ \<Rightarrow> 0 | Inr s \<Rightarrow> if rs_break s then 0 else Suc (nat len - rs_cur s)"
  let ?b = "\<lambda>r. case r of Inl _ \<Rightarrow> False | Inr s \<Rightarrow> rs_cur s < nat len \<and> \<not> rs_break s"
  have step: "?f (and_then r (recv_step os buf (nat len) sock c)) < (?f r :: nat)" if "?b r" for r
  proof -
    from that obtain s where r: "r = Inr s" and s: "rs_cur s < nat len" "\<not> rs_break s"
      by (cases r) auto
    have "drop (rs_cur s) buf = buf ! rs_cur s # drop (Suc (rs_cur s)) buf"
      using s assms(2) by (simp add: Cons_nth_drop_Suc)
    moreover have "buf ! rs_cur s \<in> set (take (nat len) buf)"
      using s assms(2) by (metis length_take min.absorb2 nth_mem nth_take)
    ultimately have nb: "\<not> IS_BL (drop (rs_cur s) buf)" using assms(1) by (auto simp: IS_BL_def)
    show ?thesis
    proof (cases "recv_step os buf (nat len) sock c s")
      case (Inl e)
      then show ?thesis using s by (simp add: r)
    next
      case (Inr s')
      then show ?thesis using s recv_step_advances [OF Inr nb] by (auto simp: r)
    qed
  qed
  obtain r where "recv_loop os buf (nat len) sock c
      (Inr \<lparr>rs_cur = 0, rs_break = False, rs_cinfo = cinfo, rs_st = st\<rparr>) = Some r"
    unfolding recv_loop_def
    using while_option_terminates [where P = "\<lambda>_. True" and b = ?b and f = ?f
        and c = "\<lambda>r. and_then r (recv_step os buf (nat len) sock c)", OF TrueI] step by blast
  then show ?thesis by (simp add: recv_data_def)
qed

theorem recv_data_terminates_witness: "\<exists>r. recv_data os0 ''SENDSENDx'' 9 4 9 conn0 st0 = Some r"
  by (rule recv_data_terminates) simp_all

text \<open>
  C17. A null byte inside an unfinished body. With a frame whose body still lacks bytes,
  and a received piece that brings fewer bytes than are missing and then a null byte,
  \<^verbatim>\<open>recv_data\<close> never returns: at the null byte \<^verbatim>\<open>ssplit\<close> reports an empty line, and
  the position in a body moves by the length of the line only. Any client can occupy
  a worker thread this way with one \<^verbatim>\<open>content-length\<close> that is too large.
\<close>

theorem recv_data_null_in_body_diverges:
  assumes "sc_frame cinfo = Some p" and "sc_prev_data cinfo = None" and "ss_frames st p = Some f"
    and "f_status f = STATUS_INPUT_BODY" and "f_has_contentlen f + int (length b) < f_contentlen f"
    and "NUL \<notin> set b" and "length b \<le> LD_MAX" and "length b < nat len"
  shows "recv_data os (b @ NUL # t) len sock c cinfo st = None"
proof -
  let ?buf = "b @ NUL # t"
  define k where "k = ss_rand st"
  let ?P = "\<lambda>r. \<exists>s g. r = Inr (recv_with p g s) \<and> recv_ok k p s \<and> rs_cur s = length b \<and>
    f_status g = STATUS_INPUT_BODY \<and> f_has_contentlen g < f_contentlen g"
  have body: "GET STATUS_INPUT_BODY STATUS_INPUT_BODY" by (simp add: status_simps)
  have stuck: "recv_loop os ?buf (nat len) sock c r = None" if "?P r" for r
    unfolding recv_loop_def
  proof (rule while_option_diverges [where P = ?P])
    fix r :: "recv_state res" assume "?P r"
    then show "case r of Inl _ \<Rightarrow> False | Inr s \<Rightarrow> rs_cur s < nat len \<and> \<not> rs_break s"
      using assms(8) by (auto simp: recv_pos_defs)
    from \<open>?P r\<close> obtain s g where r: "r = Inr (recv_with p g s)" and s: "recv_ok k p s" "rs_cur s = length b"
      and g: "f_status g = STATUS_INPUT_BODY" "f_has_contentlen g < f_contentlen g" by blast
    have "frame_update (os_rand os) k (NUL # t) 0 g = (0, g)"
      using g by (simp add: frame_update_def status_simps)
    then have "recv_step os ?buf (nat len) sock c (recv_with p g s) = Inr (recv_with p g s)"
      using recv_step_frame [OF s(1), of True g ?buf "nat len" 0 os 0 g sock c] g body
      by (simp add: s(2) ssplit_def IS_BL_def receiver.adv_0)
    then show "?P (and_then r (recv_step os ?buf (nat len) sock c))" using r s g by auto
  qed (rule that)
  define s where "s = \<lparr>rs_cur = 0, rs_break = False, rs_cinfo = cinfo, rs_st = st\<rparr>"
  have s: "recv_ok k p s" "s = recv_with p f s"
    using assms by (simp_all add: s_def recv_ok_def recv_with_def put_frame_same k_def)
  have "recv_loop os ?buf (nat len) sock c (Inr s) = None"
  proof (cases "b = []")
    case True
    then have "rs_cur s = length b" "f_has_contentlen f < f_contentlen f" using assms(5) by (simp_all add: s_def)
    with s(1) assms(4) have "?P (Inr (recv_with p f s))" by blast
    then show ?thesis unfolding s(2) [symmetric] by (rule stuck)
  next
    case False
    define f' where "f' = f\<lparr>f_has_contentlen := f_has_contentlen f + int (length b), f_data := f_data f @ [ld b],
      f_size := f_size f + int (length b)\<rparr>"
    have "\<not> IS_BL ?buf" using False assms(6) by (cases b) (auto simp: IS_BL_def)
    then have "recv_loop os ?buf (nat len) sock c (Inr (recv_with p f s)) =
        recv_loop os ?buf (nat len) sock c (Inr (recv_with p f' (recv_adv (length b) s)))"
      using assms False s frame_update_body [OF assms(4) False assms(7), of "os_rand os" k "NUL # t"]
      by (intro receiver.body_step) (auto simp: s_def ssplit_body_end f'_def)
    moreover have "recv_ok k p (recv_adv (length b) s)" "rs_cur (recv_adv (length b) s) = length b"
      "f_status f' = STATUS_INPUT_BODY" "f_has_contentlen f' < f_contentlen f'"
      using s(1) assms(4,5) by (simp_all add: s_def f'_def recv_pos_defs)
    then have "?P (Inr (recv_with p f' (recv_adv (length b) s)))" by blast
    then have "recv_loop os ?buf (nat len) sock c (Inr (recv_with p f' (recv_adv (length b) s))) = None"
      by (rule stuck)
    ultimately show ?thesis using s(2) by simp
  qed
  then show ?thesis by (simp add: recv_data_def s_def)
qed

theorem recv_data_null_in_body_diverges_witness:
  "recv_data os0 (''abc'' @ NUL # []) 4 4 9 (conn0\<lparr>sc_frame := Some 1\<rparr>)
     (st0\<lparr>ss_frames := [1 \<mapsto> alloc_frame\<lparr>f_status := STATUS_INPUT_BODY, f_contentlen := 5\<rparr>], ss_next := 2\<rparr>) = None"
  by (rule recv_data_null_in_body_diverges [where p = 1
        and f = "alloc_frame\<lparr>f_status := STATUS_INPUT_BODY, f_contentlen := 5\<rparr>"])
    (simp_all add: conn0_def st0_def alloc_frame_def size_consts)

section \<open>Lines cut by the end of a \<^verbatim>\<open>recv\<close>\<close>

lemma ssplit_cut:
  "h \<noteq> [] \<Longrightarrow> NUL \<notin> set h \<Longrightarrow> NL \<notin> set h \<Longrightarrow> hd h \<noteq> CR \<Longrightarrow> length h \<le> LD_MAX \<Longrightarrow>
     ssplit (h @ t) (length h) False = (RET_ERROR, length h)"
  by (subst ssplit_upto) (auto simp: ssplit_stop_def)

text \<open>A joined header line ends in the null byte that \<^verbatim>\<open>recv_data\<close> writes behind it.\<close>

lemma strtol_null: "strtol (s @ NUL # t) = strtol s"
proof -
  define u where "u = dropWhile is_space s"
  have ns: "\<not> is_space NUL" and nd: "\<not> is_digit NUL" by (simp_all add: is_space_def is_digit_def)
  have "dropWhile is_space (s @ NUL # t) = u @ NUL # t"
    using ns by (simp add: dropWhile_append u_def)
  moreover have "digits_value 0 (v @ NUL # t) = digits_value 0 v" for v
    using nd by (rule digits_value_stop)
  note this [of u] this [of "tl u"]
  ultimately show ?thesis
    unfolding strtol_def Let_def u_def [symmetric] by (cases u) (simp_all add: nd)
qed

lemma frame_update_joined:
  assumes "header_ok h" and "f_status f = STATUS_INPUT_HEADER"
  shows "frame_update rnd k (h @ NUL # t) (length h) f =
    (0, f\<lparr>f_contentlen := cl_step h (f_contentlen f), f_attrs := f_attrs f @ [ld h],
          f_size := f_size f + (int (length h) + 1)\<rparr>)"
proof -
  have h: "h \<noteq> []" "\<not> IS_NL (h @ NUL # t)" "length h \<le> LD_MAX" "NUL \<notin> set h"
    using assms(1) by (auto simp: header_ok_def IS_NL_def) (cases h; auto)+
  have "strncmp0 (h @ NUL # t) ''content-length:'' 15 \<longleftrightarrow> take 15 (h @ NUL # t) = ''content-length:''"
    by (rule strncmp0_literal) simp_all
  then have "is_contentlen (h @ NUL # t) (length h) = RET_SUCCESS \<longleftrightarrow> is_cl h"
    by (auto simp: is_contentlen_def is_cl_def)
  moreover have "get_contentlen (h @ NUL # t) = atoi (drop 15 h)" if "is_cl h"
  proof -
    have "drop 15 (h @ NUL # t) = drop 15 h @ NUL # t" using that by (simp add: is_cl_def)
    moreover have "NUL \<notin> set (drop 15 h)" using h(4) by (meson in_set_dropD)
    ultimately show ?thesis by (simp add: get_contentlen_def atoi_def strtol_null)
  qed
  ultimately show ?thesis
    using h assms(2)
    by (auto simp: frame_update_def status_simps cl_step_def stomp_setdata_def setdata_one mk_linedata_append)
qed

text \<open>The headers received so far.\<close>

definition header_frame_upto :: "byte list list \<Rightarrow> message \<Rightarrow> frame_t \<Rightarrow> frame_t" where
  "header_frame_upto hs m f = header_frame (m\<lparr>msg_headers := hs\<rparr>) f"

lemma header_frame_more:
  "(header_frame_upto hs m f)\<lparr>f_contentlen := fold cl_step hs' (f_contentlen (header_frame_upto hs m f)),
     f_attrs := f_attrs (header_frame_upto hs m f) @ map ld hs',
     f_size := f_size (header_frame_upto hs m f) + int (length (encode_headers hs'))\<rparr> =
   header_frame_upto (hs @ hs') m f"
  by (simp add: header_frame_upto_def header_frame_def encode_headers_def)

lemma header_frame_all: "header_frame_upto (msg_headers m) m f = header_frame m f"
  by (simp add: header_frame_upto_def)

lemma run_first_headers:
  assumes "recv_ok k p s" "drop (rs_cur s) buf = encode_head (m\<lparr>msg_headers := hs\<rparr>) @ t"
    "rs_cur s + length (encode_head (m\<lparr>msg_headers := hs\<rparr>)) \<le> len"
    and "msg_name m \<in> fst ` set finfo_arr" "\<forall>h\<in>set hs. header_ok h" "f_status f = STATUS_BORN"
  shows "recv_loop os buf len sock c (Inr (recv_with p f s)) =
    recv_loop os buf len sock c (Inr (recv_with p (header_frame_upto hs m f)
      (recv_adv (length (encode_head (m\<lparr>msg_headers := hs\<rparr>))) s)))"
proof -
  define n where "n = length (msg_name m)"
  define f1 where "f1 = f\<lparr>f_name := msg_name m @ drop n (f_name f), f_status := STATUS_INPUT_HEADER,
          f_size := f_size f + (int n + 1)\<rparr>"
  have sfx: "drop (rs_cur s) buf = msg_name m @ NL # (encode_headers hs @ t)"
    using assms(2) by (simp add: encode_head_def)
  have len: "length (encode_head (m\<lparr>msg_headers := hs\<rparr>)) = n + 1 + length (encode_headers hs)"
    by (simp add: encode_head_def n_def)
  have "recv_loop os buf len sock c (Inr (recv_with p f s)) =
      recv_loop os buf len sock c (Inr (recv_with p f1 (recv_adv (n + 1) s)))"
    using assms len frame_update_name [OF assms(4,6)] unfolding n_def
    by (intro receiver.head_step [OF assms(1)]) (auto simp: sfx f1_def n_def ssplit_name [OF assms(4)])
  also have "\<dots> = recv_loop os buf len sock c (Inr (recv_with p (f1\<lparr>f_contentlen := fold cl_step hs (f_contentlen f1),
        f_attrs := f_attrs f1 @ map ld hs, f_size := f_size f1 + int (length (encode_headers hs))\<rparr>)
      (recv_adv (length (encode_headers hs)) (recv_adv (n + 1) s))))"
    using assms len drop_further [OF sfx, of "n + 1"]
    by (intro receiver.run_headers [where t = t and k = k]) (auto simp: recv_pos_defs f1_def n_def)
  also have "f1\<lparr>f_contentlen := fold cl_step hs (f_contentlen f1), f_attrs := f_attrs f1 @ map ld hs,
        f_size := f_size f1 + int (length (encode_headers hs))\<rparr> = header_frame_upto hs m f"
    by (simp add: header_frame_upto_def header_frame_def f1_def n_def encode_headers_def)
  finally show ?thesis by (simp add: recv_adv_def len add.assoc)
qed

lemma is_frame_name_take: "is_frame_name (take len a) len = is_frame_name a len"
proof -
  have "is_frame_name_loop fs (take len a) len = is_frame_name_loop fs a len" for fs
    by (induction fs a len rule: is_frame_name_loop.induct) (auto simp: strncmp0_take)
  then show ?thesis by (simp add: is_frame_name_def)
qed

lemma is_frame_name_piece: "is_frame_name (h @ t) (length h) = is_frame_name h (length h)"
  using is_frame_name_take [of "length h" "h @ t"] by simp

text \<open>What a connection looks like while the piece \<open>h\<close> of a line is saved.\<close>

definition with_piece :: "byte list \<Rightarrow> stomp_conninfo_t \<Rightarrow> stomp_conninfo_t" where
  "with_piece h cinfo = cinfo\<lparr>sc_prev_data := Some (h @ replicate (LD_MAX * 2 - length h) NUL), sc_prev_len := length h\<rparr>"

lemma save_line_piece:
  assumes "sc_prev_data cinfo = None" "sc_prev_len cinfo = 0" "NUL \<notin> set h" "length h \<le> LD_MAX"
  shows "save_line (h @ t) (length h) cinfo = Inr (with_piece h cinfo)"
  using assms strncpy_id [of "length h" "h @ t"] by (simp add: save_line_def with_piece_def)

lemma recv_step_save:
  assumes "is_body_input s = Inr False" and "ssplit (h @ t) (len - rs_cur s) False = (RET_ERROR, length h)"
    and "drop (rs_cur s) buf = h @ t" and "is_frame_name h (length h) = RET_ERROR"
    and "save_line (h @ t) (length h) (rs_cinfo s) = Inr cinfo'"
  shows "recv_step os buf len sock c s = Inr (s\<lparr>rs_cinfo := cinfo', rs_break := True\<rparr>)"
  using assms by (simp add: recv_step_def is_frame_name_piece)

lemma join_line_piece:
  assumes "NUL \<notin> set h2" "length h1 + length h2 \<le> LD_MAX"
  shows "\<exists>r. join_line (h2 @ t) (length h2) (with_piece h1 cinfo) =
    Inr ((h1 @ h2) @ NUL # r, length (h1 @ h2), cinfo\<lparr>sc_prev_data := Some ((h1 @ h2) @ NUL # r), sc_prev_len := length h1\<rparr>)"
  using assms strncpy_id [of "length h2" "h2 @ t"]
  by (auto simp: join_line_def with_piece_def Let_def size_consts)

lemma recv_step_join:
  assumes h: "header_ok (h1 @ h2)" and h2: "h2 = [] \<or> hd h2 \<noteq> CR"
    and s: "recv_ok k p s" "drop (rs_cur s) buf = h2 @ NL # t" "rs_cur s + length h2 < len" "sc_prev_len (rs_cinfo s) = 0"
    and f: "f_status f = STATUS_INPUT_HEADER"
  shows "recv_step os buf len sock c (recv_with p f (s\<lparr>rs_cinfo := with_piece h1 (rs_cinfo s)\<rparr>)) =
    Inr (recv_with p (f\<lparr>f_contentlen := cl_step (h1 @ h2) (f_contentlen f), f_attrs := f_attrs f @ [ld (h1 @ h2)],
          f_size := f_size f + (int (length (h1 @ h2)) + 1)\<rparr>) (recv_adv (length h2 + 1) s))"
proof -
  let ?f = "f\<lparr>f_contentlen := cl_step (h1 @ h2) (f_contentlen f), f_attrs := f_attrs f @ [ld (h1 @ h2)],
          f_size := f_size f + (int (length (h1 @ h2)) + 1)\<rparr>"
  have len: "length h1 + length h2 \<le> LD_MAX" and nul: "NUL \<notin> set h2" "NL \<notin> set h2" using h by (auto simp: header_ok_def)
  have split: "ssplit (drop (rs_cur s) buf) (len - rs_cur s) False = (RET_SUCCESS, length h2)"
  proof (cases "h2 = []")
    case True
    then show ?thesis using s(2) by (simp add: ssplit_blank)
  next
    case False
    then show ?thesis using h2 len nul s(2,3) by (simp add: ssplit_upto ssplit_stop_def)
  qed
  obtain r where j: "join_line (h2 @ NL # t) (length h2) (with_piece h1 (rs_cinfo s)) =
    Inr ((h1 @ h2) @ NUL # r, length (h1 @ h2), (rs_cinfo s)\<lparr>sc_prev_data := Some ((h1 @ h2) @ NUL # r), sc_prev_len := length h1\<rparr>)"
    using join_line_piece [OF nul(1) len] by blast
  have fs: "sc_frame (with_piece h1 (rs_cinfo s)) = Some p" using s(1) by (simp add: with_piece_def recv_ok_def)
  have nb: "\<not> GET (f_status f) STATUS_INPUT_BODY" using f by (simp add: status_simps)
  have u: "stomp_frame_update os ((h1 @ h2) @ NUL # r) (length (h1 @ h2)) p (put_frame p f (rs_st s)) =
      Inr (0, put_frame p ?f (rs_st s))"
    by (subst stomp_frame_update_eq [where f = f], simp, subst frame_update_joined [OF h f]) simp
  show ?thesis
    using s u [simplified] j [simplified] fs nb
    by (simp add: recv_step_def is_body_input_def recv_with_def split [unfolded s(2)] recv_line_def prepare_frame_def
        recv_ok_def recv_adv_def Let_def)
qed

text \<open>The first piece of a message: up to the cut inside a header line.\<close>

lemma recv_first_piece:
  assumes idle: "conn_idle cinfo" "sc_prev_len cinfo = 0" and name: "msg_name m \<in> fst ` set finfo_arr"
    and hs: "\<forall>h\<in>set hs. header_ok h" and h: "h1 \<noteq> []" "header_ok (h1 @ h2)" "is_frame_name h1 (length h1) = RET_ERROR"
    and buf_def: "buf = encode_head (m\<lparr>msg_headers := hs\<rparr>) @ h1"
    and f_def: "f = header_frame_upto hs m (alloc_frame\<lparr>f_sock := sock, f_cinfo := Some c\<rparr>)"
  shows "recv_data os (buf @ t) (int (length buf)) sock c cinfo st =
    Some (Inr (RET_SUCCESS, with_piece h1 (cinfo\<lparr>sc_frame := Some (ss_next st)\<rparr>),
      put_frame (ss_next st) f (st\<lparr>ss_next := ss_next st + 1\<rparr>)))"
proof -
  define s where "s = \<lparr>rs_cur = 0, rs_break = False, rs_cinfo = cinfo, rs_st = st\<rparr>"
  define s1 where "s1 = recv_adv (length (encode_head (m\<lparr>msg_headers := hs\<rparr>))) (begin_frame sock c s)"
  define p where "p = ss_next st"
  let ?loop = "recv_loop os (buf @ t) (length buf) sock c"
  have s: "recv_idle s" "recv_ok (ss_rand st) p (begin_frame sock c s)" "rs_cur (begin_frame sock c s) = 0"
    using idle by (simp_all add: s_def recv_idle_def conn_idle_def begin_frame_def recv_ok_def p_def Let_def)
  have h1: "NUL \<notin> set h1" "NL \<notin> set h1" "hd h1 \<noteq> CR" "length h1 \<le> LD_MAX"
    using h(1,2) by (auto simp: header_ok_def)
  have sp: "ssplit (buf @ t) (length buf) False = (RET_SUCCESS, length (msg_name m))"
    unfolding buf_def encode_head_def using ssplit_name [OF name] by simp
  have "?loop (Inr s) = ?loop (Inr (recv_with p (alloc_frame\<lparr>f_sock := sock, f_cinfo := Some c\<rparr>) (begin_frame sock c s)))"
    unfolding p_def using s(1) command_line(1) [OF name] sp
    by (subst recv_loop_begin [where l = "length (msg_name m)"]) (auto simp: s_def buf_def encode_head_def)
  also have "\<dots> = ?loop (Inr (recv_with p f s1))"
    unfolding f_def s1_def using s name hs
    by (intro run_first_headers [where t = "h1 @ t"]) (auto simp: buf_def alloc_frame_def)
  also have "\<dots> = ?loop (Inr ((recv_with p f s1)\<lparr>rs_cinfo := with_piece h1 (rs_cinfo s1), rs_break := True\<rparr>))"
  proof (rule recv_loop_step)
    have "is_body_input (recv_with p f s1) = Inr False"
      using s(2) by (simp add: is_body_input_def recv_pos_defs s1_def f_def header_frame_upto_def header_frame_def status_simps)
    moreover have "sc_prev_data (rs_cinfo s1) = None" "sc_prev_len (rs_cinfo s1) = 0"
      using idle by (simp_all add: s1_def recv_adv_def begin_frame_def s_def Let_def conn_idle_def)
    ultimately show "recv_step os (buf @ t) (length buf) sock c (recv_with p f s1) =
        Inr ((recv_with p f s1)\<lparr>rs_cinfo := with_piece h1 (rs_cinfo s1), rs_break := True\<rparr>)"
      using h h1 s(3)
      by (intro recv_step_save [where t = t])
        (auto simp: buf_def s1_def recv_adv_def recv_with_def ssplit_cut save_line_piece)
  qed (use s h in \<open>auto simp: s1_def recv_pos_defs buf_def\<close>)
  finally show ?thesis
    by (simp add: recv_data_def s_def recv_loop_end)
      (simp add: s1_def recv_pos_defs begin_frame_def Let_def p_def s_def)
qed

lemma recv_second_piece:
  assumes idle: "conn_idle cinfo" "sc_prev_len cinfo = 0" and m: "msg_ok m" "msg_headers m = hs1 @ (h1 @ h2) # hs2"
    and h2: "h2 = [] \<or> hd h2 \<noteq> CR"
    and buf_def: "buf = h2 @ NL # encode_headers hs2 @ NL # msg_body m @ [NUL]"
    and f_def: "f = header_frame_upto hs1 m (alloc_frame\<lparr>f_sock := sock, f_cinfo := Some c\<rparr>)"
  shows "recv_data os (buf @ t) (int (length buf)) sock c (with_piece h1 (cinfo\<lparr>sc_frame := Some (ss_next st)\<rparr>))
      (put_frame (ss_next st) f (st\<lparr>ss_next := ss_next st + 1\<rparr>)) =
    Some (Inr (RET_SUCCESS, cinfo, deliver os sock c m st))"
proof -
  let ?loop = "recv_loop os (buf @ t) (length buf) sock c"
  define p where "p = ss_next st"
  define k where "k = ss_rand st"
  define f0 where "f0 = alloc_frame\<lparr>f_sock := sock, f_cinfo := Some c\<rparr>"
  define s where "s = \<lparr>rs_cur = 0, rs_break = False, rs_cinfo = cinfo\<lparr>sc_frame := Some p\<rparr>, rs_st = st\<lparr>ss_next := p + 1\<rparr>\<rparr>"
  define f1 where "f1 = header_frame_upto (hs1 @ [h1 @ h2]) m f0"
  define s1 where "s1 = recv_adv (length h2 + 1) s"
  define s2 where "s2 = recv_adv (length (encode_headers hs2)) s1"
  define g where "g = (frame_of m)\<lparr>f_sock := sock, f_cinfo := Some c, f_id := gen_random (os_rand os) k FRAME_ID_LEN\<rparr>"
  have h: "header_ok (h1 @ h2)" "\<forall>h\<in>set hs2. header_ok h" using m by (auto simp: msg_ok_def)
  have s: "recv_ok k p s" "rs_cur s = 0" "sc_prev_len (rs_cinfo s) = 0"
    using idle by (simp_all add: s_def recv_ok_def conn_idle_def k_def)
  have fs: "f_status f = STATUS_INPUT_HEADER" "f_status f1 = STATUS_INPUT_HEADER"
    by (simp_all add: f_def f1_def header_frame_upto_def header_frame_def)
  have f1: "f\<lparr>f_contentlen := cl_step (h1 @ h2) (f_contentlen f), f_attrs := f_attrs f @ [ld (h1 @ h2)],
          f_size := f_size f + (int (length (h1 @ h2)) + 1)\<rparr> = f1"
    using header_frame_more [of hs1 m f0 "[h1 @ h2]"] by (simp add: f1_def f_def f0_def encode_headers_def ac_simps)
  have d1: "drop (rs_cur s1) (buf @ t) = encode_headers hs2 @ NL # msg_body m @ NUL # t"
    by (simp add: s1_def recv_adv_def s(2) buf_def)
  have "?loop (Inr (recv_with p f (s\<lparr>rs_cinfo := with_piece h1 (rs_cinfo s)\<rparr>))) = ?loop (Inr (recv_with p f1 s1))"
  proof (rule recv_loop_step)
    have "drop (rs_cur s) (buf @ t) = h2 @ NL # (encode_headers hs2 @ NL # msg_body m @ NUL # t)"
      by (simp add: s(2) buf_def)
    then show "recv_step os (buf @ t) (length buf) sock c (recv_with p f (s\<lparr>rs_cinfo := with_piece h1 (rs_cinfo s)\<rparr>)) =
        Inr (recv_with p f1 s1)"
      unfolding f1 [symmetric] s1_def using s
      by (intro recv_step_join [OF h(1) h2 s(1) _ _ s(3) fs(1)]) (auto simp: buf_def)
  qed (use s in \<open>auto simp: recv_pos_defs buf_def\<close>)
  also have "\<dots> = ?loop (Inr (recv_with p (header_frame m f0) s2))"
    using receiver.run_headers [of k p s1 "buf @ t" hs2 "NL # msg_body m @ NUL # t" "length buf" f1 os sock c] s h(2) fs d1
      header_frame_more [of "hs1 @ [h1 @ h2]" m f0 hs2] header_frame_all [of m f0]
    by (simp add: s1_def s2_def recv_pos_defs buf_def f1_def m(2))
  also have "\<dots> = ?loop (Inr (s2\<lparr>rs_cur := rs_cur s2 + (length (msg_body m) + 2),
      rs_cinfo := (rs_cinfo s2)\<lparr>sc_frame := None\<rparr>, rs_st := published p g (rs_st s2)\<rparr>))"
    using s drop_behind [OF d1] m(1)
    by (intro recv_blank [OF _ _ _ _ f0_def g_def, where t = t]) (auto simp: s1_def s2_def recv_pos_defs buf_def)
  also have "s2\<lparr>rs_cur := rs_cur s2 + (length (msg_body m) + 2), rs_cinfo := (rs_cinfo s2)\<lparr>sc_frame := None\<rparr>,
      rs_st := published p g (rs_st s2)\<rparr> =
      \<lparr>rs_cur = length buf, rs_break = False, rs_cinfo = cinfo, rs_st = deliver os sock c m st\<rparr>"
    using idle by (cases cinfo) (simp add: s2_def s1_def recv_adv_def s_def buf_def p_def deliver_def
        Let_def g_def k_def conn_idle_def)
  finally show ?thesis
    by (simp add: recv_data_def recv_loop_end s_def recv_with_def p_def)
qed

text \<open>
  C9. A header line cut by the end of a \<^verbatim>\<open>recv\<close>. Whatever the position of the cut, as long as
  the first piece does not begin with the name of a command and the second not with a
  carriage return, receiving the two pieces one after the other has the same result
  as receiving the message at once: the piece is saved, joined with the rest of its
  line, also when that line is the \<^verbatim>\<open>content-length\<close>, and the saved data is released.
\<close>

theorem recv_data_cut_header:
  assumes "conn_idle cinfo" and "sc_prev_len cinfo = 0" and "msg_ok m" and "msg_headers m = hs1 @ (h1 @ h2) # hs2"
    and "h1 \<noteq> []" and "is_frame_name h1 (length h1) = RET_ERROR" and "h2 = [] \<or> hd h2 \<noteq> CR"
    and "buf1 = encode_head (m\<lparr>msg_headers := hs1\<rparr>) @ h1"
    and "buf2 = h2 @ NL # encode_headers hs2 @ NL # msg_body m @ [NUL]"
  shows "encode m = buf1 @ buf2 \<and>
    (\<exists>cinfo1 st1 st2. recv_data os buf1 (int (length buf1)) sock c cinfo st = Some (Inr (RET_SUCCESS, cinfo1, st1)) \<and>
       ss_bucket st1 = ss_bucket st \<and>
       recv_data os buf2 (int (length buf2)) sock c cinfo1 st1 = Some (Inr (RET_SUCCESS, cinfo, st2)) \<and>
       recv_data os (encode m) (int (length (encode m))) sock c cinfo st = Some (Inr (RET_SUCCESS, cinfo, st2)))"
proof -
  have m: "msg_name m \<in> fst ` set finfo_arr" "\<forall>h\<in>set hs1. header_ok h" "header_ok (h1 @ h2)"
    using assms(3,4) by (auto simp: msg_ok_def)
  have "encode m = buf1 @ buf2"
    using assms(4,8,9) by (simp add: encode_def encode_head_def encode_headers_def)
  moreover note recv_first_piece [OF assms(1,2) m(1,2) assms(5) m(3) assms(6,8) refl, of os "[]" sock c st]
  moreover note recv_second_piece [OF assms(1-4,7,9) refl, of os "[]" sock c st]
  moreover note recv_data_all [OF assms(1), of "[m]" os "[]" sock c st]
  ultimately show ?thesis using assms(3) by auto
qed

theorem recv_data_cut_header_witness:
  "encode msg1 = (''SEND'' @ [NL] @ ''destination:/q'' @ [NL] @ ''content-le'') @ (''ngth:5'' @ [NL, NL] @ ''hello'' @ [NUL]) \<and>
    (\<exists>cinfo1 st1 st2. recv_data os0 (''SEND'' @ [NL] @ ''destination:/q'' @ [NL] @ ''content-le'')
         (int (length (''SEND'' @ [NL] @ ''destination:/q'' @ [NL] @ ''content-le''))) 4 9 conn0 st0 = Some (Inr (RET_SUCCESS, cinfo1, st1)) \<and>
       ss_bucket st1 = ss_bucket st0 \<and>
       recv_data os0 (''ngth:5'' @ [NL, NL] @ ''hello'' @ [NUL]) (int (length (''ngth:5'' @ [NL, NL] @ ''hello'' @ [NUL]))) 4 9 cinfo1 st1 =
         Some (Inr (RET_SUCCESS, conn0, st2)) \<and>
       recv_data os0 (encode msg1) (int (length (encode msg1))) 4 9 conn0 st0 = Some (Inr (RET_SUCCESS, conn0, st2)))"
proof (rule recv_data_cut_header [where ?hs1.0 = "[''destination:/q'']" and ?hs2.0 = "[]"
      and ?h1.0 = "''content-le''" and ?h2.0 = "''ngth:5''"])
  show "is_frame_name ''content-le'' (length ''content-le'') = RET_ERROR" by code_simp
  show "msg_ok msg1" by (rule msgs_ok)
qed (simp_all add: conn_idle_def conn0_def msgs_ok msg1_def encode_head_def encode_headers_def)

section \<open>Frames that are never completed\<close>

text \<open>The start of a message on an idle connection, up to the blank line.\<close>

lemma recv_head:
  assumes idle: "conn_idle cinfo" and name: "msg_name m \<in> fst ` set finfo_arr" and hs: "\<forall>h\<in>set (msg_headers m). header_ok h"
    and len: "length (encode_head m) \<le> len"
    and f: "f = header_frame m (alloc_frame\<lparr>f_sock := sock, f_cinfo := Some c\<rparr>)"
    and s: "s = \<lparr>rs_cur = length (encode_head m), rs_break = False, rs_cinfo = cinfo\<lparr>sc_frame := Some (ss_next st)\<rparr>,
      rs_st = st\<lparr>ss_next := ss_next st + 1\<rparr>\<rparr>"
  shows "recv_loop os (encode_head m @ t) len sock c (Inr \<lparr>rs_cur = 0, rs_break = False, rs_cinfo = cinfo, rs_st = st\<rparr>) =
    recv_loop os (encode_head m @ t) len sock c (Inr (recv_with (ss_next st) f s)) \<and> recv_ok (ss_rand st) (ss_next st) s"
proof
  define s0 where "s0 = \<lparr>rs_cur = 0, rs_break = False, rs_cinfo = cinfo, rs_st = st\<rparr>"
  let ?loop = "recv_loop os (encode_head m @ t) len sock c"
  have s0: "recv_idle s0" "recv_ok (ss_rand st) (ss_next st) (begin_frame sock c s0)" "rs_cur (begin_frame sock c s0) = 0"
    using idle by (simp_all add: s0_def recv_idle_def conn_idle_def begin_frame_def recv_ok_def Let_def)
  have pos: "length (msg_name m) < len" using len by (simp add: encode_head_def)
  have sp: "ssplit (encode_head m @ t) len False = (RET_SUCCESS, length (msg_name m))"
    unfolding encode_head_def using ssplit_name [OF name pos] by simp
  have "?loop (Inr s0) = ?loop (Inr (recv_with (ss_next st) (alloc_frame\<lparr>f_sock := sock, f_cinfo := Some c\<rparr>) (begin_frame sock c s0)))"
    using s0(1) command_line(1) [OF name] sp pos
    by (subst recv_loop_begin [where l = "length (msg_name m)"]) (auto simp: s0_def)
  also have "\<dots> = ?loop (Inr (recv_with (ss_next st) (header_frame_upto (msg_headers m) m (alloc_frame\<lparr>f_sock := sock, f_cinfo := Some c\<rparr>))
      (recv_adv (length (encode_head (m\<lparr>msg_headers := msg_headers m\<rparr>))) (begin_frame sock c s0))))"
    using s0 name hs len by (intro run_first_headers [where t = t]) (auto simp: alloc_frame_def)
  finally show "?loop (Inr \<lparr>rs_cur = 0, rs_break = False, rs_cinfo = cinfo, rs_st = st\<rparr>) =
      ?loop (Inr (recv_with (ss_next st) f s))"
    by (simp add: s0_def header_frame_all f s recv_adv_def begin_frame_def Let_def)
  show "recv_ok (ss_rand st) (ss_next st) s" using idle by (simp add: s recv_ok_def conn_idle_def)
qed

text \<open>Messages in which no header sets a length: every line of a later one is a header line of the first.\<close>

definition no_length :: "message \<Rightarrow> bool" where
  "no_length m \<longleftrightarrow> msg_name m \<in> fst ` set finfo_arr \<and> (\<forall>h\<in>set (msg_headers m). header_ok h \<and> \<not> is_cl h)"

lemma no_length_lines:
  assumes "no_length m" and "h \<in> set (msg_name m # msg_headers m)"
  shows "header_ok h \<and> \<not> is_cl h"
proof (cases "h = msg_name m")
  case True
  have "length h \<le> 11" using True assms(1) command_line(5) by (auto simp: no_length_def)
  then show ?thesis using True assms(1) command_line(1-4) [of h] by (auto simp: no_length_def header_ok_def is_cl_def size_consts)
qed (use assms in \<open>auto simp: no_length_def\<close>)

lemma fold_no_cl: "\<forall>h\<in>set hs. \<not> is_cl h \<Longrightarrow> fold cl_step hs x = x"
  by (induction hs) (auto simp: cl_step_def)

abbreviation lines_of :: "message list \<Rightarrow> byte list list" where
  "lines_of ms \<equiv> concat (map (\<lambda>m. msg_name m # msg_headers m) ms)"

abbreviation wire_no_length :: "message list \<Rightarrow> byte list" where
  "wire_no_length ms \<equiv> concat (map (\<lambda>m. encode_head m @ [NL, NUL]) ms)"

definition headers_only :: "frame_t \<Rightarrow> byte list list \<Rightarrow> bool" where
  "headers_only f hs \<longleftrightarrow> f_status f = STATUS_INPUT_HEADER \<and> f_contentlen f = -1 \<and> f_attrs f = map ld hs"

lemma run_end_no_length:
  assumes "recv_ok k p s" and "drop (rs_cur s) buf = NL # NUL # t" and "rs_cur s + 2 \<le> len" and "headers_only f hs"
  shows "recv_loop os buf len sock c (Inr (recv_with p f s)) = recv_loop os buf len sock c (Inr (recv_with p f (recv_adv 2 s)))"
proof -
  have u: "frame_update (os_rand os) k (NL # u) 0 f = (0, f)" "frame_update (os_rand os) k (NUL # u) 0 f = (0, f)" for u
    using assms(4) by (cases u; simp add: headers_only_def frame_update_def status_simps IS_NL_def)+
  have d: "drop (Suc (rs_cur s)) buf = NUL # t" using drop_further [OF assms(2), of 1] by simp
  have "recv_loop os buf len sock c (Inr (recv_with p f s)) = recv_loop os buf len sock c (Inr (recv_with p f (recv_adv (0 + 1) s)))"
    using assms u by (intro receiver.head_step) (auto simp: headers_only_def ssplit_blank)
  also have "\<dots> = recv_loop os buf len sock c (Inr (recv_with p f (recv_adv (0 + 1) (recv_adv (0 + 1) s))))"
    using assms u
    by (intro receiver.head_step [where k = k]) (auto simp: d headers_only_def ssplit_def IS_BL_def recv_pos_defs)
  finally show ?thesis by (simp add: recv_adv_def)
qed

lemma run_no_length:
  assumes "recv_ok k p s" and "drop (rs_cur s) buf = wire_no_length ms @ t" and "rs_cur s + length (wire_no_length ms) \<le> len"
    and "\<forall>m\<in>set ms. no_length m" and "headers_only f hs"
  shows "\<exists>f'. headers_only f' (hs @ lines_of ms) \<and>
    recv_loop os buf len sock c (Inr (recv_with p f s)) =
    recv_loop os buf len sock c (Inr (recv_with p f' (recv_adv (length (wire_no_length ms)) s)))"
  using assms
proof (induction ms arbitrary: s f hs)
  case Nil
  then show ?case by (auto simp: receiver.adv_0)
next
  case (Cons m ms)
  define ls where "ls = msg_name m # msg_headers m"
  let ?loop = "recv_loop os buf len sock c"
  have ls: "\<forall>h\<in>set ls. header_ok h \<and> \<not> is_cl h" using Cons.prems(4) no_length_lines [of m] unfolding ls_def by simp
  have hd: "encode_head m = encode_headers ls" by (simp add: encode_head_def encode_headers_def ls_def)
  define g where "g = f\<lparr>f_contentlen := fold cl_step ls (f_contentlen f), f_attrs := f_attrs f @ map ld ls,
       f_size := f_size f + int (length (encode_headers ls))\<rparr>"
  define s1 where "s1 = recv_adv (length (encode_headers ls)) s"
  have d: "drop (rs_cur s) buf = encode_headers ls @ NL # NUL # wire_no_length ms @ t"
    using Cons.prems(2) by (simp add: hd)
  have d1: "drop (rs_cur s1) buf = NL # NUL # wire_no_length ms @ t"
    using drop_behind [OF d] by (simp add: s1_def recv_adv_def)
  have d2: "drop (rs_cur (recv_adv 2 s1)) buf = wire_no_length ms @ t"
    using drop_further [OF d1, of 2] by (simp add: recv_adv_def)
  have g: "headers_only g (hs @ ls)" using Cons.prems(5) ls by (simp add: g_def headers_only_def fold_no_cl)
  have ok: "recv_ok k p s1" "recv_ok k p (recv_adv 2 s1)" using Cons.prems(1) by (simp_all add: s1_def recv_pos_defs)
  have len: "rs_cur s1 + 2 + length (wire_no_length ms) \<le> len" using Cons.prems(3) by (simp add: s1_def recv_adv_def hd)
  have "?loop (Inr (recv_with p f s)) = ?loop (Inr (recv_with p g s1))"
    unfolding s1_def g_def using Cons.prems(1,3,5) ls
    by (intro receiver.run_headers [OF _ d]) (auto simp: headers_only_def hd)
  also have "\<dots> = ?loop (Inr (recv_with p g (recv_adv 2 s1)))"
    using len by (intro run_end_no_length [OF ok(1) d1 _ g]) simp
  finally have 1: "?loop (Inr (recv_with p f s)) = ?loop (Inr (recv_with p g (recv_adv 2 s1)))" .
  obtain f' where f': "headers_only f' ((hs @ ls) @ lines_of ms)" and
    "?loop (Inr (recv_with p g (recv_adv 2 s1))) =
     ?loop (Inr (recv_with p f' (recv_adv (length (wire_no_length ms)) (recv_adv 2 s1))))"
    using Cons.IH [OF ok(2) d2 _ _ g] len Cons.prems(4) by (auto simp: recv_adv_def)
  with 1 show ?case
    by (intro exI [of _ f']) (simp add: ls_def [symmetric] hd s1_def recv_adv_def ac_simps)
qed

text \<open>One \<^verbatim>\<open>recv\<close> while the frame is under construction, and the first one, which starts it.\<close>

lemma recv_more_no_length:
  assumes "sc_frame cinfo = Some p" and "sc_prev_data cinfo = None" and "ss_frames st p = Some f" and "headers_only f hs"
    and "\<forall>m\<in>set ms. no_length m"
  shows "\<exists>f'. headers_only f' (hs @ lines_of ms) \<and>
    recv_data os (wire_no_length ms @ t) (int (length (wire_no_length ms))) sock c cinfo st =
      Some (Inr (RET_SUCCESS, cinfo, put_frame p f' st))"
proof -
  define s where "s = \<lparr>rs_cur = 0, rs_break = False, rs_cinfo = cinfo, rs_st = st\<rparr>"
  have s: "recv_ok (ss_rand st) p s" "s = recv_with p f s"
    using assms by (simp_all add: s_def recv_ok_def recv_with_def put_frame_same)
  obtain f' where "headers_only f' (hs @ lines_of ms)" and
    l: "recv_loop os (wire_no_length ms @ t) (length (wire_no_length ms)) sock c (Inr (recv_with p f s)) =
     recv_loop os (wire_no_length ms @ t) (length (wire_no_length ms)) sock c
       (Inr (recv_with p f' (recv_adv (length (wire_no_length ms)) s)))"
    using run_no_length [OF s(1) _ _ assms(5,4), where buf = "wire_no_length ms @ t" and t = t
        and len = "length (wire_no_length ms)" and os = os and sock = sock and c = c] by (auto simp: s_def)
  moreover have "recv_data os (wire_no_length ms @ t) (int (length (wire_no_length ms))) sock c cinfo st =
      Some (Inr (RET_SUCCESS, cinfo, put_frame p f' st))"
    using l s(2) by (simp add: recv_data_def s_def recv_loop_end recv_pos_defs)
  ultimately show ?thesis by blast
qed

lemma recv_first_no_length:
  assumes "conn_idle cinfo" and "\<forall>m\<in>set (m # ms). no_length m"
  shows "\<exists>f'. headers_only f' (msg_headers m @ lines_of ms) \<and>
    recv_data os (wire_no_length (m # ms) @ t) (int (length (wire_no_length (m # ms)))) sock c cinfo st =
      Some (Inr (RET_SUCCESS, cinfo\<lparr>sc_frame := Some (ss_next st)\<rparr>,
        put_frame (ss_next st) f' (st\<lparr>ss_next := ss_next st + 1\<rparr>)))"
proof -
  define f where "f = header_frame m (alloc_frame\<lparr>f_sock := sock, f_cinfo := Some c\<rparr>)"
  define s where "s = \<lparr>rs_cur = length (encode_head m), rs_break = False, rs_cinfo = cinfo\<lparr>sc_frame := Some (ss_next st)\<rparr>,
      rs_st = st\<lparr>ss_next := ss_next st + 1\<rparr>\<rparr>"
  define buf where "buf = wire_no_length (m # ms) @ t"
  let ?p = "ss_next st" and ?len = "length (wire_no_length (m # ms))"
  let ?loop = "recv_loop os buf ?len sock c"
  have buf: "buf = encode_head m @ NL # NUL # wire_no_length ms @ t" by (simp add: buf_def)
  have f: "headers_only f (msg_headers m)"
    using assms(2) by (simp add: headers_only_def f_def header_frame_def alloc_frame_def fold_no_cl no_length_def)
  have s: "?loop (Inr \<lparr>rs_cur = 0, rs_break = False, rs_cinfo = cinfo, rs_st = st\<rparr>) = ?loop (Inr (recv_with ?p f s))"
    "recv_ok (ss_rand st) ?p s"
    unfolding buf using recv_head [OF assms(1) _ _ _ f_def s_def, of ?len os "NL # NUL # wire_no_length ms @ t"] assms(2)
    by (auto simp: no_length_def)
  have d: "drop (rs_cur s) buf = NL # NUL # wire_no_length ms @ t" by (simp add: s_def buf)
  have d2: "drop (rs_cur (recv_adv 2 s)) buf = wire_no_length ms @ t"
    using drop_further [OF d, of 2] by (simp add: recv_adv_def)
  have ok: "recv_ok (ss_rand st) ?p (recv_adv 2 s)" using s(2) by (simp add: recv_pos_defs)
  obtain f' where f': "headers_only f' (msg_headers m @ lines_of ms)" and
    2: "?loop (Inr (recv_with ?p f (recv_adv 2 s))) =
      ?loop (Inr (recv_with ?p f' (recv_adv (length (wire_no_length ms)) (recv_adv 2 s))))"
    using run_no_length [OF ok d2 _ _ f, where len = ?len and os = os and sock = sock and c = c] assms(2) by (auto simp: s_def recv_adv_def)
  have "?loop (Inr (recv_with ?p f s)) = ?loop (Inr (recv_with ?p f (recv_adv 2 s)))"
    by (rule run_end_no_length [OF s(2) d _ f]) (simp add: s_def)
  then have "recv_data os buf (int ?len) sock c cinfo st =
      Some (Inr (RET_SUCCESS, cinfo\<lparr>sc_frame := Some ?p\<rparr>, put_frame ?p f' (st\<lparr>ss_next := ?p + 1\<rparr>)))"
    unfolding recv_data_def nat_int using s(1) 2 by (simp add: recv_loop_end) (simp add: s_def recv_pos_defs recv_loop_end)
  with f' show ?thesis unfolding buf_def by blast
qed

lemma conn_loop_no_length:
  assumes "sc_frame cinfo = Some p" and "sc_prev_data cinfo = None" and "ss_frames st p = Some f" and "headers_only f hs"
    and "\<forall>ms\<in>set mss. ms \<noteq> [] \<and> (\<forall>m\<in>set ms. no_length m)"
  shows "\<exists>f'. headers_only f' (hs @ lines_of (concat mss)) \<and>
    conn_loop os sock c (map (\<lambda>ms. (int (length (wire_no_length ms)), wire_no_length ms)) mss) cinfo st =
      Conn_Waiting cinfo (put_frame p f' st)"
  using assms
proof (induction mss arbitrary: st f hs)
  case Nil
  then show ?case by (auto simp: put_frame_same)
next
  case (Cons ms mss)
  have ms: "\<forall>m\<in>set ms. no_length m" "ms \<noteq> []" using Cons.prems(5) by auto
  let ?t = "replicate (RECV_BUFSIZE - length (wire_no_length ms)) NUL"
  obtain g where g: "headers_only g (hs @ lines_of ms)" and
    r: "recv_data os (wire_no_length ms @ ?t) (int (length (wire_no_length ms))) sock c cinfo st =
      Some (Inr (RET_SUCCESS, cinfo, put_frame p g st))"
    using recv_more_no_length [OF Cons.prems(1-4) ms(1), of os ?t sock c] by blast
  have "int (length (wire_no_length ms)) \<noteq> 0" using ms(2) by (cases ms) auto
  moreover obtain f' where "headers_only f' ((hs @ lines_of ms) @ lines_of (concat mss))" and
    "conn_loop os sock c (map (\<lambda>ms. (int (length (wire_no_length ms)), wire_no_length ms)) mss) cinfo (put_frame p g st) =
      Conn_Waiting cinfo (put_frame p f' (put_frame p g st))"
    using Cons.IH [OF Cons.prems(1,2) _ g, of "put_frame p g st"] Cons.prems(5) by auto
  ultimately show ?case using r by (auto simp: Let_def)
qed

text \<open>
  C21. Messages without a \<^verbatim>\<open>content-length\<close> header are not delivered. A client sends any
  number of messages without body in which no header sets a length, grouped into any
  number of \<^verbatim>\<open>recv\<close> results: the bucket stays as it was, and nothing is sent. All of it is
  collected in one frame, which stays in the state \<^verbatim>\<open>STATUS_INPUT_HEADER\<close>: the blank line and
  the null byte that end the first message are skipped, and the command and header
  lines of every later message become header lines of the first. (A later header that
  sets a length would let this frame, with all these headers, be completed.)
\<close>

theorem no_content_length_not_delivered:
  assumes "mss \<noteq> []" and "concat mss = m # ms"
    and "\<forall>ms\<in>set mss. ms \<noteq> [] \<and> (\<forall>m\<in>set ms. msg_name m \<in> fst ` set finfo_arr \<and>
      (\<forall>h\<in>set (msg_headers m). header_ok h \<and> \<not> is_cl h))"
    and "recvs = map (\<lambda>ms. let bytes = concat (map (\<lambda>m. encode_head m @ [NL, NUL]) ms) in (int (length bytes), bytes)) mss"
  shows "\<exists>cinfo st' f. stomp_conn_worker True os sock c recvs st = Conn_Waiting cinfo st' \<and>
    ss_bucket st' = ss_bucket st \<and> ss_out st' = ss_out st \<and>
    sc_frame cinfo = Some (ss_next st) \<and> ss_frames st' (ss_next st) = Some f \<and> f_status f = STATUS_INPUT_HEADER \<and>
    f_attrs f = map ld (msg_headers m @ concat (map (\<lambda>m. msg_name m # msg_headers m) ms))"
proof -
  obtain ms1 mss' where mss: "mss = (m # ms1) # mss'" "ms = ms1 @ concat mss'"
    using assms(1-3) by (cases mss; cases "hd mss") auto
  have nl: "\<forall>m\<in>set (m # ms1). no_length m" "\<forall>ms\<in>set mss'. ms \<noteq> [] \<and> (\<forall>m\<in>set ms. no_length m)"
    using assms(3) by (auto simp: mss no_length_def)
  define cinfo where "cinfo = the (fst (conn_init True os st))"
  define st1 where "st1 = snd (conn_init True os st)"
  have ini: "conn_init True os st = (Some cinfo, st1)" by (simp add: cinfo_def st1_def conn_init_def)
  have idle: "conn_idle cinfo" and st1: "ss_next st1 = ss_next st" "ss_bucket st1 = ss_bucket st" "ss_out st1 = ss_out st"
    by (simp_all add: cinfo_def st1_def conn_init_def conn_idle_def)
  let ?t = "replicate (RECV_BUFSIZE - length (wire_no_length (m # ms1))) NUL"
  let ?cinfo = "cinfo\<lparr>sc_frame := Some (ss_next st1)\<rparr>" and ?st = "st1\<lparr>ss_next := ss_next st1 + 1\<rparr>"
  obtain g where g: "headers_only g (msg_headers m @ lines_of ms1)" and
    r: "recv_data os (wire_no_length (m # ms1) @ ?t) (int (length (wire_no_length (m # ms1)))) sock c cinfo st1 =
      Some (Inr (RET_SUCCESS, ?cinfo, put_frame (ss_next st1) g ?st))"
    using recv_first_no_length [OF idle nl(1), of os ?t sock c st1] by blast
  obtain f where f: "headers_only f ((msg_headers m @ lines_of ms1) @ lines_of (concat mss'))" and
    l: "conn_loop os sock c (map (\<lambda>ms. (int (length (wire_no_length ms)), wire_no_length ms)) mss') ?cinfo
        (put_frame (ss_next st1) g ?st) = Conn_Waiting ?cinfo (put_frame (ss_next st1) f (put_frame (ss_next st1) g ?st))"
    using conn_loop_no_length [OF _ _ _ g nl(2), of ?cinfo "ss_next st1" "put_frame (ss_next st1) g ?st" os sock c] idle
    by (auto simp: conn_idle_def)
  have "stomp_conn_worker True os sock c recvs st = Conn_Waiting ?cinfo (put_frame (ss_next st1) f ?st)"
    using r l by (simp add: stomp_conn_worker_def ini assms(4) mss Let_def)
  then show ?thesis using f by (auto simp: st1 headers_only_def mss)
qed

theorem no_content_length_not_delivered_witness:
  "\<exists>cinfo st' f. stomp_conn_worker True os0 4 9
      (map (\<lambda>ms. let bytes = concat (map (\<lambda>m. encode_head m @ [NL, NUL]) ms) in (int (length bytes), bytes))
        [[\<lparr>msg_name = ''CONNECT'', msg_headers = [''host:x''], msg_body = []\<rparr>],
         [\<lparr>msg_name = ''SEND'', msg_headers = [''destination:/q''], msg_body = []\<rparr>]]) st0 = Conn_Waiting cinfo st' \<and>
    ss_bucket st' = ss_bucket st0 \<and> ss_out st' = ss_out st0 \<and>
    sc_frame cinfo = Some (ss_next st0) \<and> ss_frames st' (ss_next st0) = Some f \<and> f_status f = STATUS_INPUT_HEADER \<and>
    f_attrs f = map ld (msg_headers \<lparr>msg_name = ''CONNECT'', msg_headers = [''host:x''], msg_body = []\<rparr> @
      concat (map (\<lambda>m. msg_name m # msg_headers m) [\<lparr>msg_name = ''SEND'', msg_headers = [''destination:/q''], msg_body = []\<rparr>]))"
  by (rule no_content_length_not_delivered [OF _ _ _ refl])
    (simp_all add: finfo_arr_def header_ok_def is_cl_def size_consts)

text \<open>
  C22. A connection that ends inside a body. The comment at the end of \<^verbatim>\<open>stomp_conn_worker\<close>
  says that the current frame is cancelled; \<^verbatim>\<open>conn_finish\<close> puts it into the bucket. Stated for a
  message whose head and first body bytes arrive in one \<^verbatim>\<open>recv\<close>, when at least one byte, at most
  \<^verbatim>\<open>LD_MAX\<close> bytes and not all of the body have arrived and they do not begin with the name of
  a command: the frame is handed on with all its headers, its \<^verbatim>\<open>content-length\<close> included, and
  without these bytes, which are still in the connection's saved line.
\<close>

theorem closed_in_body_delivers_truncated:
  assumes "msg_ok m" and "msg_body m = b1 @ b2" and "b1 \<noteq> []" and "b2 \<noteq> []" and "length b1 \<le> LD_MAX"
    and "is_frame_name b1 (length b1) = RET_ERROR" and "bytes = encode_head m @ NL # b1"
  shows "\<exists>cinfo st' f. stomp_conn_worker True os sock c [(int (length bytes), bytes), (0, [])] st = Conn_Closed RET_SUCCESS cinfo st' \<and>
    ss_bucket st' = ss_bucket st @ [ss_next st] \<and> ss_frames st' (ss_next st) = Some f \<and>
    message_of f = m\<lparr>msg_body := []\<rparr> \<and> f_contentlen f = int (length (msg_body m))"
proof -
  define cinfo where "cinfo = the (fst (conn_init True os st))"
  define st1 where "st1 = snd (conn_init True os st)"
  define p where "p = ss_next st"
  have ini: "conn_init True os st = (Some cinfo, st1)" by (simp add: cinfo_def st1_def conn_init_def)
  have idle: "conn_idle cinfo" "sc_prev_len cinfo = 0" and st1: "ss_next st1 = p" "ss_bucket st1 = ss_bucket st"
    by (simp_all add: cinfo_def st1_def conn_init_def conn_idle_def p_def)
  define buf where "buf = bytes @ replicate (RECV_BUFSIZE - length bytes) NUL"
  define z where "z = NL # b1 @ replicate (RECV_BUFSIZE - length bytes) NUL"
  let ?loop = "recv_loop os buf (length bytes) sock c"
  define f where "f = header_frame m (alloc_frame\<lparr>f_sock := sock, f_cinfo := Some c\<rparr>)"
  define f1 where "f1 = f\<lparr>f_status := STATUS_INPUT_BODY, f_size := f_size f + 1\<rparr>"
  define s where "s = \<lparr>rs_cur = length (encode_head m), rs_break = False, rs_cinfo = cinfo\<lparr>sc_frame := Some (ss_next st1)\<rparr>,
      rs_st = st1\<lparr>ss_next := ss_next st1 + 1\<rparr>\<rparr>"
  define s1 where "s1 = recv_adv 1 s"
  have bz: "buf = encode_head m @ z" by (simp add: buf_def z_def assms(7))
  have s: "?loop (Inr \<lparr>rs_cur = 0, rs_break = False, rs_cinfo = cinfo, rs_st = st1\<rparr>) = ?loop (Inr (recv_with p f s))"
    "recv_ok (ss_rand st1) p s"
    using recv_head [OF idle(1) _ _ _ f_def s_def, of "length bytes" os z] assms(1,7) by (auto simp: bz msg_ok_def st1)
  have cl: "f_contentlen f = int (length (msg_body m))" and fs: "f_status f = STATUS_INPUT_HEADER"
    using assms(1) by (simp_all add: f_def header_frame_def alloc_frame_def msg_ok_def)
  have nul: "NUL \<notin> set b1" using assms(1,2) by (simp add: msg_ok_def)
  have pos: "0 < f_contentlen f" using cl assms(2,3) by (cases b1) auto
  have "?loop (Inr (recv_with p f s)) = ?loop (Inr (recv_with p f1 s1))"
    unfolding s1_def f1_def using s(2) fs pos
    by (intro receiver.run_blank_to_body [where t = "b1 @ replicate (RECV_BUFSIZE - length bytes) NUL"])
      (auto simp: s_def bz z_def assms(7))
  also have "\<dots> = ?loop (Inr ((recv_with p f1 s1)\<lparr>rs_cinfo := with_piece b1 (rs_cinfo s1), rs_break := True\<rparr>))"
  proof (rule recv_loop_step)
    have d: "drop (rs_cur (recv_with p f1 s1)) buf = b1 @ replicate (RECV_BUFSIZE - length bytes) NUL"
      by (simp add: recv_pos_defs s1_def s_def bz z_def)
    have "is_body_input (recv_with p f1 s1) = Inr True"
      using s(2) by (simp add: is_body_input_def recv_pos_defs s1_def f1_def status_simps)
    moreover have "ssplit (b1 @ replicate (RECV_BUFSIZE - length bytes) NUL) (length b1) True = (RET_ERROR, length b1)"
      using assms(3,5) nul by (subst ssplit_upto) (auto simp: ssplit_stop_def)
    moreover have "save_line (b1 @ replicate (RECV_BUFSIZE - length bytes) NUL) (length b1) (rs_cinfo s1) =
        Inr (with_piece b1 (rs_cinfo s1))"
      using idle nul assms(5) by (intro save_line_piece) (simp_all add: s1_def recv_adv_def s_def conn_idle_def)
    ultimately show "recv_step os buf (length bytes) sock c (recv_with p f1 s1) =
        Inr ((recv_with p f1 s1)\<lparr>rs_cinfo := with_piece b1 (rs_cinfo s1), rs_break := True\<rparr>)"
      unfolding recv_step_def d using assms(6)
      by (simp add: recv_pos_defs s1_def s_def assms(7) is_frame_name_piece)
  qed (use s assms(3) in \<open>auto simp: s1_def recv_pos_defs s_def assms(7)\<close>)
  finally have "recv_data os buf (int (length bytes)) sock c cinfo st1 =
      Some (Inr (RET_SUCCESS, with_piece b1 (cinfo\<lparr>sc_frame := Some p\<rparr>), put_frame p f1 (st1\<lparr>ss_next := p + 1\<rparr>)))"
    using s(1) by (simp add: recv_data_def recv_loop_end) (simp add: s1_def s_def recv_pos_defs st1)
  moreover have "message_of (f1\<lparr>f_status := x, f_id := y\<rparr>) = m\<lparr>msg_body := []\<rparr>" for x y
  proof -
    have "NUL \<notin> set (msg_name m)" using assms(1) command_line(2) by (simp add: msg_ok_def)
    then show ?thesis by (simp add: message_of_def f1_def f_def header_frame_def alloc_frame_def o_def cstr_append_replicate)
  qed
  moreover have "GET (f_status f1) STATUS_INPUT_BODY" "length bytes \<noteq> 0" "f_contentlen f1 = int (length (msg_body m))"
    using cl by (simp_all add: f1_def status_simps assms(7))
  ultimately show ?thesis
    using st1 by (simp add: stomp_conn_worker_def ini Let_def buf_def [symmetric] recv_data_none conn_finish_def with_piece_def
        stomp_frame_finish_def p_def)
qed

theorem closed_in_body_delivers_truncated_witness:
  "\<exists>cinfo st' f. stomp_conn_worker True os0 4 9 [(int (length (encode_head msg1 @ NL # ''hel'')), encode_head msg1 @ NL # ''hel''), (0, [])] st0 =
      Conn_Closed RET_SUCCESS cinfo st' \<and>
    ss_bucket st' = ss_bucket st0 @ [ss_next st0] \<and> ss_frames st' (ss_next st0) = Some f \<and>
    message_of f = msg1\<lparr>msg_body := []\<rparr> \<and> f_contentlen f = int (length (msg_body msg1))"
proof (rule closed_in_body_delivers_truncated [where ?b1.0 = "''hel''" and ?b2.0 = "''lo''"])
  show "is_frame_name ''hel'' (length ''hel'') = RET_ERROR" by code_simp
  show "msg_ok msg1" by (rule msgs_ok)
qed (simp_all add: msg1_def size_consts)

section \<open>The saved line\<close>

lemma recv_piece_only:
  assumes "sc_frame cinfo = None" and h: "h \<noteq> []" "NUL \<notin> set h" "NL \<notin> set h" "hd h \<noteq> CR" "length h \<le> LD_MAX"
    and "is_frame_name h (length h) = RET_ERROR" and "save_line h (length h) cinfo = Inr cinfo'"
  shows "recv_data os h (int (length h)) sock c cinfo st = Some (Inr (RET_SUCCESS, cinfo', st))"
proof -
  let ?s = "\<lparr>rs_cur = 0, rs_break = False, rs_cinfo = cinfo, rs_st = st\<rparr>"
  have "recv_step os h (length h) sock c ?s = Inr (?s\<lparr>rs_cinfo := cinfo', rs_break := True\<rparr>)"
    using assms ssplit_cut [OF h, of "[]"]
    by (intro recv_step_save [where h = h and t = "[]"]) (auto simp: is_body_input_def)
  then show ?thesis
    using h(1) by (simp add: recv_data_def recv_loop_step recv_loop_end)
qed

text \<open>
  C23. A line that arrives in three pieces. The first piece is saved in an allocation of
  2048 bytes; for the second the allocation is resized to the length of the first plus
  1024. When the second and third piece together have 1024 bytes or more (whatever the
  length of the first), joining them writes past the end of the allocation. The pieces are
  non-empty, have at most 1024 bytes each, do not begin with a carriage return, and the first
  two do not begin with the name of a command.
\<close>

theorem three_pieces_overflow:
  assumes "conn_idle cinfo" and "sc_prev_len cinfo = 0"
    and "\<forall>h\<in>{x, y, z}. h \<noteq> [] \<and> NUL \<notin> set h \<and> NL \<notin> set h \<and> hd h \<noteq> CR \<and> length h \<le> LD_MAX"
    and "is_frame_name x (length x) = RET_ERROR" and "is_frame_name y (length y) = RET_ERROR"
    and "LD_MAX \<le> length y + length z"
  shows "\<exists>cinfo1 cinfo2. recv_data os x (int (length x)) sock c cinfo st = Some (Inr (RET_SUCCESS, cinfo1, st)) \<and>
    recv_data os y (int (length y)) sock c cinfo1 st = Some (Inr (RET_SUCCESS, cinfo2, st)) \<and>
    recv_data os (z @ [NL]) (int (length (z @ [NL]))) sock c cinfo2 st = Some (Inl Buffer_Overflow)"
proof -
  define cinfo1 where "cinfo1 = with_piece x cinfo"
  define cinfo2 where "cinfo2 = cinfo1\<lparr>sc_prev_data := Some (x @ y @ replicate (LD_MAX - length y) NUL),
    sc_prev_len := length x + length y\<rparr>"
  have x: "x \<noteq> []" "NUL \<notin> set x" "NL \<notin> set x" "hd x \<noteq> CR" "length x \<le> LD_MAX"
    and y: "y \<noteq> []" "NUL \<notin> set y" "NL \<notin> set y" "hd y \<noteq> CR" "length y \<le> LD_MAX"
    and z: "z \<noteq> []" "NUL \<notin> set z" "NL \<notin> set z" "hd z \<noteq> CR" "length z \<le> LD_MAX"
    using assms(3) by auto
  have fr: "sc_frame cinfo = None" "sc_frame cinfo1 = None" "sc_frame cinfo2 = None"
    using assms(1) by (simp_all add: conn_idle_def cinfo1_def cinfo2_def with_piece_def)
  have "save_line x (length x) cinfo = Inr cinfo1"
    using save_line_piece [of cinfo x "[]"] assms(1,2) x by (simp add: conn_idle_def cinfo1_def)
  then have 1: "recv_data os x (int (length x)) sock c cinfo st = Some (Inr (RET_SUCCESS, cinfo1, st))"
    using x assms(4) fr(1) by (intro recv_piece_only)
  have "save_line y (length y) cinfo1 = Inr cinfo2"
    using y strncpy_id [of "length y" y] by (simp add: save_line_def cinfo1_def cinfo2_def with_piece_def)
  then have 2: "recv_data os y (int (length y)) sock c cinfo1 st = Some (Inr (RET_SUCCESS, cinfo2, st))"
    using y assms(5) fr(2) by (intro recv_piece_only)
  have "join_line (z @ [NL]) (length z) cinfo2 = Inl Buffer_Overflow"
    using assms(6) y(5) by (simp add: join_line_def cinfo2_def)
  moreover have "ssplit (z @ [NL]) (Suc (length z)) False = (RET_SUCCESS, length z)"
    using z by (subst ssplit_upto) (auto simp: ssplit_stop_def)
  ultimately have st: "recv_step os (z @ [NL]) (length (z @ [NL])) sock c
      \<lparr>rs_cur = 0, rs_break = False, rs_cinfo = cinfo2, rs_st = st\<rparr> = Inl Buffer_Overflow"
    using fr(3) by (simp add: recv_step_def is_body_input_def)
  have "recv_data os (z @ [NL]) (int (length (z @ [NL]))) sock c cinfo2 st = Some (Inl Buffer_Overflow)"
    unfolding recv_data_def nat_int using recv_loop_step [OF _ _ st] by (simp add: recv_loop_fault)
  with 1 2 show ?thesis by blast
qed

theorem three_pieces_overflow_witness:
  "\<exists>cinfo1 cinfo2. recv_data os0 ''a'' (int (length ''a'')) 4 9 conn0 st0 = Some (Inr (RET_SUCCESS, cinfo1, st0)) \<and>
    recv_data os0 (replicate 600 (CHR ''b'')) (int (length (replicate 600 (CHR ''b'')))) 4 9 cinfo1 st0 = Some (Inr (RET_SUCCESS, cinfo2, st0)) \<and>
    recv_data os0 (replicate 600 (CHR ''c'') @ [NL]) (int (length (replicate 600 (CHR ''c'') @ [NL]))) 4 9 cinfo2 st0 = Some (Inl Buffer_Overflow)"
proof (rule three_pieces_overflow)
  show "is_frame_name ''a'' (length ''a'') = RET_ERROR" by code_simp
  show "is_frame_name (replicate 600 (CHR ''b'')) (length (replicate 600 (CHR ''b''))) = RET_ERROR" by code_simp
qed (auto simp: conn_idle_def conn0_def size_consts)

section \<open>What is written to a socket\<close>

lemma put_msg_eq: "put_msg os sock msg n out = out @ [(sock, take n msg)]"
  by (simp add: send_msg_def)

lemma send_lines_eq:
  "send_lines os sock hs out = out @ concat (map (\<lambda>h. [(sock, ld_bytes h), (sock, [NL])]) hs)"
  unfolding send_lines_def
  by (induction hs arbitrary: out) (simp_all add: put_msg_eq ld_bytes_def)

lemma send_body_eq:
  "fold (\<lambda>b out. out @ [(sock, take (ld_len b) (ld_data b))]) bs out = out @ map (\<lambda>b. (sock, ld_bytes b)) bs"
  by (induction bs arbitrary: out) (simp_all add: ld_bytes_def)

text \<open>The bytes of a \<^verbatim>\<open>MESSAGE\<close> frame.\<close>

definition message_bytes :: "frame_t \<Rightarrow> linedata_t list option \<Rightarrow> byte list" where
  "message_bytes f hs =
     ''MESSAGE'' @ [NL] @ encode_headers (map ld_bytes (f_attrs f @ (case hs of None \<Rightarrow> [] | Some hs \<Rightarrow> hs))) @
     ''message-id: '' @ take FRAME_ID_LEN (f_id f) @ [NL] @
     (if f_data f = [] then [] else NL # concat (map ld_bytes (f_data f))) @ [NUL]"

lemma stomp_send_message_bytes:
  "\<exists>pieces. stomp_send_message os sock f hs out = out @ map (Pair sock) pieces \<and> concat pieces = message_bytes f hs"
proof -
  define e where "e = (case hs of None \<Rightarrow> [] | Some hs \<Rightarrow> hs)"
  define lines :: "linedata_t list \<Rightarrow> byte list list" where
    "lines = (\<lambda>ls. concat (map (\<lambda>h. [ld_bytes h, [NL]]) ls))"
  have cl: "concat (lines ls) = encode_headers (map ld_bytes ls)" for ls
    by (induction ls) (simp_all add: lines_def encode_headers_def)
  have l: "send_lines os sock ls o1 = o1 @ map (Pair sock) (lines ls)" for ls o1
    by (simp add: send_lines_eq lines_def map_concat o_def)
  have e': "(case hs of None \<Rightarrow> o1 | Some hs \<Rightarrow> send_lines os sock hs o1) = o1 @ map (Pair sock) (lines e)" for o1
    by (cases hs) (simp_all add: e_def l lines_def)
  define ps where "ps = [''MESSAGE'' @ [NL]] @ lines (f_attrs f) @ lines e @
    [''message-id: '', take FRAME_ID_LEN (f_id f), [NL]] @
    (if f_data f = [] then [] else [NL] # map ld_bytes (f_data f)) @ [[NUL]]"
  have "stomp_send_message os sock f hs out = out @ map (Pair sock) ps"
    by (simp add: stomp_send_message_def l e' put_msg_eq send_body_eq ps_def o_def Let_def)
  moreover have "concat ps = message_bytes f hs"
    by (simp add: ps_def cl message_bytes_def e_def [symmetric]) (simp add: encode_headers_def)
  ultimately show ?thesis by blast
qed

text \<open>
  C27. The \<^verbatim>\<open>MESSAGE\<close> frame a subscriber gets, read the way STOMP frames are read. The
  \<^verbatim>\<open>message-id\<close> header is sent with all \<^verbatim>\<open>FRAME_ID_LEN\<close> bytes of the identifier array, the
  terminating null byte included, and a null byte ends a STOMP frame: whatever the
  message is, the first frame in the bytes sent ends inside the \<^verbatim>\<open>message-id\<close> line, without
  the blank line and without the body.
\<close>

theorem message_ends_at_message_id:
  assumes "msg_ok m" and "f = delivered os sock' c k m"
  shows "\<exists>pieces. stomp_send_message os sock f None out = out @ map (Pair sock) pieces \<and>
    cstr (concat pieces) = ''MESSAGE'' @ [NL] @ encode_headers (msg_headers m) @ ''message-id: '' @
      butlast (gen_random (os_rand os) k FRAME_ID_LEN) \<and>
    (\<exists>u. concat pieces = cstr (concat pieces) @ [NUL, NL] @ u @ msg_body m @ [NUL])"
proof -
  obtain pieces where p: "stomp_send_message os sock f None out = out @ map (Pair sock) pieces"
    "concat pieces = message_bytes f None" using stomp_send_message_bytes by blast
  define i where "i = gen_random (os_rand os) k FRAME_ID_LEN"
  have i: "length i = FRAME_ID_LEN" "i = butlast i @ [NUL]"
    by (simp_all add: i_def size_consts) (simp add: gen_random_def)
  have ni: "NUL \<notin> set (butlast i)" using cstr_gen_random NUL_notin_cstr unfolding i_def by metis
  have fields: "f_id f = i" "map ld_bytes (f_attrs f) = msg_headers m" "concat (map ld_bytes (f_data f)) = msg_body m"
    using arg_cong [OF message_of_delivered [OF assms(1), of os sock' c k], of msg_headers]
      arg_cong [OF message_of_delivered [OF assms(1), of os sock' c k], of msg_body]
    by (simp add: assms(2) delivered_def i_def, simp_all add: assms(2) message_of_def)
  have hs: "NUL \<notin> set (encode_headers (msg_headers m))"
    using assms(1) by (auto simp: encode_headers_def msg_ok_def header_ok_def)
  define pre where "pre = ''MESSAGE'' @ [NL] @ encode_headers (msg_headers m) @ ''message-id: '' @ butlast i"
  define u where "u = (if f_data f = [] then [] else [NL])"
  have "msg_body m = [] \<longleftrightarrow> f_data f = []"
    using assms(2) chunks_nonempty [of "msg_body m"] by (simp add: delivered_def frame_of_def)
  moreover have "take FRAME_ID_LEN (f_id f) = butlast i @ [NUL]" using i fields(1) by simp
  ultimately have b: "concat pieces = pre @ NUL # NL # u @ msg_body m @ [NUL]"
    by (auto simp: p(2) message_bytes_def pre_def fields u_def)
  have "NUL \<notin> set pre" using hs ni by (simp add: pre_def)
  then have cs: "cstr (concat pieces) = pre" unfolding b by (rule cstr_append_NUL)
  have "concat pieces = cstr (concat pieces) @ [NUL, NL] @ u @ msg_body m @ [NUL]" unfolding cs using b by simp
  with p(1) cs show ?thesis unfolding pre_def i_def by blast
qed

theorem message_ends_at_message_id_witness:
  "\<exists>pieces. stomp_send_message os0 7 (delivered os0 4 9 0 msg1) None [] = [] @ map (Pair 7) pieces \<and>
    cstr (concat pieces) = ''MESSAGE'' @ [NL] @ encode_headers (msg_headers msg1) @ ''message-id: '' @
      butlast (gen_random (os_rand os0) 0 FRAME_ID_LEN) \<and>
    (\<exists>u. concat pieces = cstr (concat pieces) @ [NUL, NL] @ u @ msg_body msg1 @ [NUL])"
  by (rule message_ends_at_message_id [OF msgs_ok(1) refl])

text \<open>
  \<^verbatim>\<open>stomp_send_receipt\<close> on every identifier. On a valid socket, an identifier of up to
  1011 bytes is answered with the command, the \<^verbatim>\<open>receipt-id\<close> line and the null byte, in three
  writes (with no blank line between header and end); from 1012 bytes on, \<^verbatim>\<open>sprintf\<close> writes
  past the end of the 1024-byte buffer. A client chooses this identifier in its
  \<^verbatim>\<open>receipt\<close> header, which may be 1024 bytes long.
\<close>

theorem send_receipt_bounds:
  assumes "0 < sock"
  shows "stomp_send_receipt os sock (Some i) out =
    (if 1012 \<le> strlen i then Inl Buffer_Overflow
     else Inr (out @ [(sock, ''RECEIPT'' @ [NL]), (sock, ''receipt-id:'' @ cstr i @ [NL]), (sock, [NUL])]))"
proof -
  have "NUL \<notin> set (''receipt-id:'' @ cstr i @ [NL])" by simp
  then have "strlen (''receipt-id:'' @ cstr i @ [NL]) = length (''receipt-id:'' @ cstr i @ [NL])"
    unfolding strlen_def by (simp add: cstr_id del: append_Cons)
  then show ?thesis
    using assms by (simp add: stomp_send_receipt_def put_msg_eq strlen_def size_consts Let_def)
qed

theorem send_receipt_bounds_witness:
  "stomp_send_receipt os0 4 (Some ''r1'') [] =
    (if 1012 \<le> strlen ''r1'' then Inl Buffer_Overflow
     else Inr ([] @ [(4, ''RECEIPT'' @ [NL]), (4, ''receipt-id:'' @ cstr ''r1'' @ [NL]), (4, [NUL])]))"
  by (rule send_receipt_bounds) simp

end
