(* ===== verification/Queue_Box.thy ===== *)
theory Queue_Box
  imports Common
begin

text \<open>
  The message queues of \<^verbatim>\<open>lib/queue.c\<close>: a table of 512 slots, each empty (\<^verbatim>\<open>NULL\<close>) or a
  list of pointers to queues, and the queues in a heap. A queue is found by the 64-bit
  hash of its name only. The outcome of each \<^verbatim>\<open>malloc\<close> is an argument, and
  \<^verbatim>\<open>queuebox_lock\<close> is part of the state, so that a path that returns with the lock held is
  visible to the next call.
\<close>

section \<open>Data\<close>

text \<open>
  \<^verbatim>\<open>struct queue\<close>: the list of \<^verbatim>\<open>q_entry\<close> nodes is the list of their \<^verbatim>\<open>data\<close> pointers. The
  members \<^verbatim>\<open>index_head\<close> and \<^verbatim>\<open>index_sent\<close> are neither initialised nor read by the code.
\<close>

record 'd queue =
  q_hashnum :: "64 word"
  q_entries :: "'d list"
  q_name :: "byte list"
  q_count :: int

record 'd queuebox =
  qb_slots :: "ptr list option list"
  qb_heap :: "ptr \<Rightarrow> 'd queue option"
  qb_next :: ptr
  qb_locked :: bool

text \<open>The zero-initialised static table of a starting process.\<close>

definition empty_box :: "'d queuebox" where
  "empty_box = \<lparr>qb_slots = replicate QB_SIZE None, qb_heap = (\<lambda>_. None), qb_next = 1, qb_locked = False\<rparr>"

text \<open>Which of the allocations of one call succeed.\<close>

record mallocs =
  m_entry :: bool
  m_head :: bool
  m_queue :: bool

definition all_mallocs :: mallocs where
  "all_mallocs = \<lparr>m_entry = True, m_head = True, m_queue = True\<rparr>"

section \<open>Operations\<close>

definition initialize_queuebox :: "'d queuebox \<Rightarrow> ret \<times> 'd queuebox" where
  "initialize_queuebox b =
     (RET_SUCCESS, b\<lparr>qb_slots := replicate QB_SIZE None, qb_locked := False\<rparr>)"

definition create_entry :: "bool \<Rightarrow> 'd \<Rightarrow> 'd option" where
  "create_entry ok data = (if ok then Some data else None)"

definition create_queue :: "bool \<Rightarrow> 'd queue option" where
  "create_queue ok =
     (if ok then Some \<lparr>q_hashnum = 0, q_entries = [], q_name = replicate QNAME_LENGTH NUL, q_count = 0\<rparr>
      else None)"

definition queue_index :: "64 word \<Rightarrow> nat" where
  "queue_index hashnum = unat ((hashnum mod of_nat QB_SIZE) AND 0x7FFFFFFF)"

text \<open>The first critical section of \<^verbatim>\<open>get_queue\<close>: the slot gets a list head.\<close>

definition ensure_slot :: "bool \<Rightarrow> nat \<Rightarrow> 'd queuebox \<Rightarrow> bool \<times> 'd queuebox" where
  "ensure_slot ok_head index b =
     (case qb_slots b ! index of
        Some _ \<Rightarrow> (True, b)
      | None \<Rightarrow> if ok_head then (True, b\<lparr>qb_slots := (qb_slots b)[index := Some []]\<rparr>)
                else (False, b\<lparr>qb_locked := True\<rparr>))"

text \<open>The second one: the last queue of the slot with the wanted hash.\<close>

definition search_slot :: "nat \<Rightarrow> 64 word \<Rightarrow> 'd queuebox \<Rightarrow> ptr option" where
  "search_slot index hashnum b =
     find_last (\<lambda>q. map_option q_hashnum (qb_heap b q) = Some hashnum)
       (case qb_slots b ! index of None \<Rightarrow> [] | Some qs \<Rightarrow> qs)"

text \<open>The third one: a new queue becomes the first of its slot.\<close>

definition insert_queue :: "nat \<Rightarrow> 'd queue \<Rightarrow> 'd queuebox \<Rightarrow> ptr \<times> 'd queuebox" where
  "insert_queue index q b =
     (let p = qb_next b in
      (p, b\<lparr>qb_heap := (qb_heap b)(p \<mapsto> q), qb_next := Suc p,
            qb_slots := (qb_slots b)[index := map_option (Cons p) (qb_slots b ! index)]\<rparr>))"

definition get_queue ::
  "bool \<Rightarrow> bool \<Rightarrow> byte list \<Rightarrow> 'd queuebox \<Rightarrow> (ptr option \<times> 'd queuebox) res" where
  "get_queue ok_head ok_queue qname b =
     (let hashnum = get_hash qname; index = queue_index hashnum in
      if qb_locked b then Inl Deadlock
      else case ensure_slot ok_head index b of
        (False, b) \<Rightarrow> Inr (None, b)
      | (True, b) \<Rightarrow>
          (case search_slot index hashnum b of
             Some q \<Rightarrow> Inr (Some q, b)
           | None \<Rightarrow>
               (case create_queue ok_queue of
                  None \<Rightarrow> Inr (None, b)
                | Some q \<Rightarrow>
                    (let namelen = min (strlen qname) QNAME_LENGTH;
                         q = q\<lparr>q_hashnum := hashnum,
                               q_name := memcpy (q_name q) qname namelen\<rparr>;
                         (p, b) = insert_queue index q b
                     in Inr (Some p, b)))))"

definition enqueue ::
  "mallocs \<Rightarrow> 'd option \<Rightarrow> byte list \<Rightarrow> 'd queuebox \<Rightarrow> (ret \<times> 'd queuebox) res" where
  "enqueue m data qname b =
     (case data of None \<Rightarrow> Inr (RET_ERROR, b)
      | Some d \<Rightarrow>
        (case create_entry (m_entry m) d of None \<Rightarrow> Inr (RET_ERROR, b)
         | Some e \<Rightarrow>
           and_then (get_queue (m_head m) (m_queue m) qname b) (\<lambda>(q, b).
             case q of None \<Rightarrow> Inr (RET_ERROR, b)
             | Some p \<Rightarrow>
               (case qb_heap b p of None \<Rightarrow> Inl Use_After_Free
                | Some qu \<Rightarrow>
                    Inr (RET_SUCCESS,
                      b\<lparr>qb_heap := (qb_heap b)(p \<mapsto>
                          qu\<lparr>q_entries := q_entries qu @ [e], q_count := q_count qu + 1\<rparr>)\<rparr>)))))"

definition dequeue ::
  "mallocs \<Rightarrow> byte list \<Rightarrow> 'd queuebox \<Rightarrow> ('d option \<times> 'd queuebox) res" where
  "dequeue m qname b =
     and_then (get_queue (m_head m) (m_queue m) qname b) (\<lambda>(q, b).
       case q of None \<Rightarrow> Inr (None, b)
       | Some p \<Rightarrow>
         (case qb_heap b p of None \<Rightarrow> Inl Use_After_Free
          | Some qu \<Rightarrow>
            (case q_entries qu of
               [] \<Rightarrow> Inr (None, b)
             | e # es \<Rightarrow> Inr (Some e, b\<lparr>qb_heap := (qb_heap b)(p \<mapsto> qu\<lparr>q_entries := es\<rparr>)\<rparr>))))"

text \<open>
  \<^verbatim>\<open>get_queuelist\<close> allocates one node per queue; \<open>ok\<close> says which of these allocations
  succeed, and a queue whose node fails is left out.
\<close>

definition box_queues :: "'d queuebox \<Rightarrow> ptr list" where
  "box_queues b = concat (map (\<lambda>s. case s of None \<Rightarrow> [] | Some qs \<Rightarrow> qs) (qb_slots b))"

definition get_queuelist :: "(nat \<Rightarrow> bool) \<Rightarrow> 'd queuebox \<Rightarrow> ptr list \<times> nat" where
  "get_queuelist ok b =
     (let qs = map snd (filter (\<lambda>(i, q). ok i) (enumerate 0 (box_queues b)))
      in (qs, length qs))"

definition clear_queue :: "nat \<Rightarrow> ptr \<Rightarrow> 'd queuebox \<Rightarrow> 'd queuebox" where
  "clear_queue i q b =
     b\<lparr>qb_slots := (qb_slots b)[i := map_option (remove1 q) (qb_slots b ! i)],
       qb_heap := (qb_heap b)(q := None)\<rparr>"

definition cleanup_queuebox :: "'d queuebox \<Rightarrow> (ret \<times> 'd queuebox) res" where
  "cleanup_queuebox b =
     (if qb_locked b then Inl Deadlock
      else Inr (RET_SUCCESS,
        fold (\<lambda>i b. case qb_slots b ! i of
                None \<Rightarrow> b
              | Some qs \<Rightarrow> fold (clear_queue i) qs b) [0..<QB_SIZE] b))"

section \<open>Invariant and abstraction\<close>

definition slot_of :: "'d queuebox \<Rightarrow> nat \<Rightarrow> ptr list" where
  "slot_of b i = (case qb_slots b ! i of None \<Rightarrow> [] | Some qs \<Rightarrow> qs)"

definition hash_at :: "'d queuebox \<Rightarrow> ptr \<Rightarrow> 64 word option" where
  "hash_at b p = map_option q_hashnum (qb_heap b p)"

definition slot_ok :: "'d queuebox \<Rightarrow> nat \<Rightarrow> bool" where
  "slot_ok b i \<longleftrightarrow>
     distinct (map (hash_at b) (slot_of b i)) \<and>
     (\<forall>p\<in>set (slot_of b i). \<exists>h. hash_at b p = Some h \<and> queue_index h = i)"

definition qb_inv :: "'d queuebox \<Rightarrow> bool" where
  "qb_inv b \<longleftrightarrow> length (qb_slots b) = QB_SIZE \<and> \<not> qb_locked b \<and>
     (\<forall>p. qb_heap b p \<noteq> None \<longrightarrow> p < qb_next b) \<and>
     (\<forall>i<QB_SIZE. slot_ok b i)"

text \<open>What a client can observe of the box: the pending messages under each hash.\<close>

definition contents :: "'d queuebox \<Rightarrow> 64 word \<Rightarrow> 'd list" where
  "contents b h =
     (case search_slot (queue_index h) h b of None \<Rightarrow> []
      | Some p \<Rightarrow> (case qb_heap b p of None \<Rightarrow> [] | Some q \<Rightarrow> q_entries q))"

lemma queue_index_less: "queue_index h < QB_SIZE"
proof -
  have "(h mod of_nat QB_SIZE) AND 0x7FFFFFFF \<le> h mod of_nat QB_SIZE"
    by (rule word_and_le2)
  also have "\<dots> < of_nat QB_SIZE"
    by (rule word_mod_less_divisor) (simp add: size_consts)
  finally show ?thesis
    by (simp add: queue_index_def size_consts word_less_nat_alt)
qed

section \<open>Finding and creating a queue\<close>

lemma hash_at_SomeD: "hash_at b p = Some h \<Longrightarrow> \<exists>q. qb_heap b p = Some q \<and> q_hashnum q = h"
  by (auto simp: hash_at_def)

lemma search_slot_eq: "search_slot i h b = find_last (\<lambda>p. hash_at b p = Some h) (slot_of b i)"
  unfolding search_slot_def slot_of_def hash_at_def ..

lemma search_slotD:
  "search_slot i h b = Some p \<Longrightarrow> p \<in> set (slot_of b i) \<and> hash_at b p = Some h"
  unfolding search_slot_eq by (rule find_last_SomeD)

lemma search_slot_cong:
  assumes "slot_of b' i = slot_of b i" and "\<And>p. p \<in> set (slot_of b i) \<Longrightarrow> hash_at b' p = hash_at b p"
  shows "search_slot i h b' = search_slot i h b"
  unfolding search_slot_eq assms(1) using assms(2) by (intro find_last_cong) simp

lemma slot_ok_cong:
  assumes "slot_of b' i = slot_of b i" and "\<And>p. p \<in> set (slot_of b i) \<Longrightarrow> hash_at b' p = hash_at b p"
  shows "slot_ok b' i = slot_ok b i"
  using assms(2) distinct_map_cong [of "slot_of b i" "hash_at b'" "hash_at b"]
  by (simp add: slot_ok_def assms(1))

text \<open>Giving a slot its list head changes nothing that the invariant or a client sees.\<close>

lemma ensure_slot_slot_of:
  assumes "ensure_slot True i b = (ok, b')" and "length (qb_slots b) = QB_SIZE"
  shows "ok \<and> qb_heap b' = qb_heap b \<and> qb_next b' = qb_next b \<and> qb_locked b' = qb_locked b
    \<and> length (qb_slots b') = QB_SIZE \<and> slot_of b' = slot_of b
    \<and> (i < QB_SIZE \<longrightarrow> qb_slots b' ! i = Some (slot_of b i))"
proof (cases "qb_slots b ! i")
  case None
  with assms have b': "b' = b\<lparr>qb_slots := (qb_slots b)[i := Some []]\<rparr>" and "ok"
    by (auto simp: ensure_slot_def)
  moreover have "slot_of b' j = slot_of b j" for j
    using None assms(2) by (cases "j = i"; cases "i < QB_SIZE")
      (simp_all add: b' slot_of_def list_update_beyond)
  ultimately show ?thesis using assms(2) None by (auto simp: slot_of_def)
next
  case (Some qs)
  with assms show ?thesis by (auto simp: ensure_slot_def slot_of_def)
qed

lemma qb_inv_ensure:
  assumes "qb_inv b" and "ensure_slot True i b = (ok, b')"
  shows "ok \<and> qb_inv b' \<and> contents b' = contents b \<and> (i < QB_SIZE \<longrightarrow> qb_slots b' ! i = Some (slot_of b' i))"
proof -
  have e: "ok" "qb_heap b' = qb_heap b" "qb_next b' = qb_next b" "qb_locked b' = qb_locked b"
    "length (qb_slots b') = QB_SIZE" "slot_of b' = slot_of b"
    "i < QB_SIZE \<longrightarrow> qb_slots b' ! i = Some (slot_of b i)"
    using ensure_slot_slot_of [OF assms(2)] assms(1) by (simp_all add: qb_inv_def)
  have h: "hash_at b' p = hash_at b p" for p by (simp add: hash_at_def e)
  have "slot_ok b' j = slot_ok b j" for j
    by (rule slot_ok_cong) (simp_all add: e h)
  moreover have "search_slot j g b' = search_slot j g b" for j g
    by (rule search_slot_cong) (simp_all add: e h)
  then have "contents b' = contents b"
    unfolding contents_def e(2) by simp
  ultimately show ?thesis using assms(1) e by (simp add: qb_inv_def)
qed

text \<open>A new queue is empty, so a client does not see it arrive.\<close>

lemma qb_inv_insert:
  assumes inv: "qb_inv b" and i: "i = queue_index h" and slot: "qb_slots b ! i = Some (slot_of b i)"
    and none: "search_slot i h b = None" and q: "q_hashnum q = h" "q_entries q = []"
    and ins: "insert_queue i q b = (p, b')"
  shows "qb_inv b' \<and> contents b' = contents b \<and> qb_heap b' p = Some q \<and> search_slot i h b' = Some p"
proof -
  have i': "i < QB_SIZE" and len: "length (qb_slots b) = QB_SIZE"
    using i queue_index_less inv by (auto simp: qb_inv_def)
  have p: "p = qb_next b" and b': "b' = b\<lparr>qb_heap := (qb_heap b)(p \<mapsto> q), qb_next := Suc p,
      qb_slots := (qb_slots b)[i := Some (p # slot_of b i)]\<rparr>"
    using ins slot by (auto simp: insert_queue_def Let_def)
  have fresh: "qb_heap b p = None" using inv p by (auto simp: qb_inv_def)
  have slots: "slot_of b' j = (if j = i then p # slot_of b i else slot_of b j)" for j
    using i' len by (auto simp: slot_of_def b')
  have live: "r \<noteq> p" if "j < QB_SIZE" "r \<in> set (slot_of b j)" for j r
    using inv that fresh hash_at_SomeD by (fastforce simp: qb_inv_def slot_ok_def)
  have hash: "hash_at b' p = Some h" "\<And>r. r \<noteq> p \<Longrightarrow> hash_at b' r = hash_at b r"
    by (simp_all add: hash_at_def b' q)
  have nohash: "\<forall>r\<in>set (slot_of b i). hash_at b r \<noteq> Some h"
    using none by (simp add: search_slot_eq find_last_None_iff)
  have other: "slot_ok b' j = slot_ok b j" if "j < QB_SIZE" "j \<noteq> i" for j
    using that live hash(2) by (intro slot_ok_cong) (auto simp: slots)
  have same: "distinct (map (hash_at b') (slot_of b i)) = distinct (map (hash_at b) (slot_of b i))"
    using live [OF i'] hash(2) by (intro distinct_map_cong) auto
  have "slot_ok b i" using inv i' by (simp add: qb_inv_def)
  then have ok_i: "slot_ok b' i"
    using nohash i same live [OF i'] hash by (auto simp: slot_ok_def slots)
  have s: "search_slot j g b' = (if g = h \<and> j = i then Some p else search_slot j g b)" if "j < QB_SIZE" for j g
  proof (cases "j = i")
    case True
    have "find_last (\<lambda>r. hash_at b' r = Some g) (slot_of b i) = search_slot i g b"
      unfolding search_slot_eq using live [OF i'] hash(2) by (intro find_last_cong) auto
    then show ?thesis
      using True none hash(1) by (auto simp: search_slot_eq [of i g b'] slots split: option.splits)
  next
    case False
    then show ?thesis using live [OF that] hash(2) by (auto intro!: search_slot_cong simp: slots)
  qed
  have "contents b' g = contents b g" for g
  proof (cases "g = h")
    case True
    then show ?thesis using none q i s [OF i', of h] by (simp add: contents_def b')
  next
    case False
    then show ?thesis
      using s [OF queue_index_less, of g g] live [OF queue_index_less] search_slotD [of _ g b]
      by (fastforce simp: contents_def b' split: option.splits)
  qed
  moreover have "qb_inv b'"
    using inv ok_i other by (auto simp: qb_inv_def b' less_Suc_eq p)
  ultimately show ?thesis using s [OF i', of h] by (auto simp: b')
qed

lemma get_queue_ok:
  assumes inv: "qb_inv b"
  shows "\<exists>p q b'. get_queue True True qname b = Inr (Some p, b') \<and> qb_inv b' \<and> contents b' = contents b
    \<and> qb_heap b' p = Some q \<and> q_hashnum q = get_hash qname
    \<and> search_slot (queue_index (get_hash qname)) (get_hash qname) b' = Some p"
proof -
  define h where "h = get_hash qname"
  define i where "i = queue_index h"
  obtain ok b1 where e: "ensure_slot True i b = (ok, b1)" by (cases "ensure_slot True i b")
  from qb_inv_ensure [OF inv e] have 1: "ok" "qb_inv b1" "contents b1 = contents b"
    "qb_slots b1 ! i = Some (slot_of b1 i)"
    using queue_index_less [of h] by (auto simp: i_def)
  have unlocked: "\<not> qb_locked b" using inv by (simp add: qb_inv_def)
  show ?thesis
  proof (cases "search_slot i h b1")
    case (Some p)
    with search_slotD [OF Some] hash_at_SomeD obtain q where "qb_heap b1 p = Some q" "q_hashnum q = h"
      by blast
    with Some 1 e unlocked show ?thesis by (auto simp: get_queue_def h_def i_def Let_def)
  next
    case None
    define q :: "'a queue" where "q = \<lparr>q_hashnum = h, q_entries = [],
      q_name = memcpy (replicate QNAME_LENGTH NUL) qname (min (strlen qname) QNAME_LENGTH), q_count = 0\<rparr>"
    obtain p b2 where ins: "insert_queue i q b1 = (p, b2)" by (cases "insert_queue i q b1")
    have "qb_inv b2 \<and> contents b2 = contents b1 \<and> qb_heap b2 p = Some q \<and> search_slot i h b2 = Some p"
      by (rule qb_inv_insert [OF 1(2) i_def 1(4) None _ _ ins]) (simp_all add: q_def)
    moreover have "get_queue True True qname b = Inr (Some p, b2)"
      using None 1 e unlocked ins
      by (simp add: get_queue_def Let_def create_queue_def q_def flip: h_def i_def)
    ultimately show ?thesis using 1 by (auto simp: q_def h_def i_def)
  qed
qed

text \<open>Storing into a queue that keeps its hash changes the contents under that hash only.\<close>

lemma qb_inv_store:
  assumes inv: "qb_inv b" and p: "search_slot (queue_index h) h b = Some p"
    and q: "qb_heap b p = Some q" "q_hashnum q' = h"
  defines "b' \<equiv> b\<lparr>qb_heap := (qb_heap b)(p \<mapsto> q')\<rparr>"
  shows "qb_inv b' \<and> contents b' = (contents b)(h := q_entries q')"
proof -
  have qh: "q_hashnum q = h" using search_slotD [OF p] q by (auto simp: hash_at_def)
  have hash: "hash_at b' r = hash_at b r" for r
    using q qh by (simp add: hash_at_def b'_def)
  have slots: "slot_of b' = slot_of b" by (rule ext) (simp add: slot_of_def b'_def)
  have ok: "slot_ok b' i = slot_ok b i" for i by (rule slot_ok_cong) (simp_all add: hash slots)
  have s: "search_slot i g b' = search_slot i g b" for i g
    by (rule search_slot_cong) (simp_all add: hash slots)
  have "contents b' g = ((contents b)(h := q_entries q')) g" for g
  proof (cases "g = h")
    case True
    with p s show ?thesis by (simp add: contents_def b'_def)
  next
    case False
    then have "search_slot (queue_index g) g b \<noteq> Some p"
      using search_slotD [of "queue_index g" g b p] q qh by (auto simp: hash_at_def)
    with False s show ?thesis by (auto simp: contents_def b'_def split: option.splits)
  qed
  moreover have "qb_inv b'"
    using inv ok q by (auto simp: qb_inv_def b'_def)
  ultimately show ?thesis by blast
qed

lemma contents_at:
  "search_slot (queue_index h) h b = Some p \<Longrightarrow> qb_heap b p = Some q \<Longrightarrow> contents b h = q_entries q"
  by (simp add: contents_def)

lemma enqueue_ok:
  assumes "qb_inv b"
  shows "\<exists>b'. enqueue all_mallocs (Some d) qname b = Inr (RET_SUCCESS, b') \<and> qb_inv b'
    \<and> contents b' = (contents b)(get_hash qname := contents b (get_hash qname) @ [d])"
proof -
  from get_queue_ok [OF assms] obtain p q b1 where
    g: "get_queue True True qname b = Inr (Some p, b1)" "qb_inv b1" "contents b1 = contents b"
    "qb_heap b1 p = Some q" "q_hashnum q = get_hash qname"
    "search_slot (queue_index (get_hash qname)) (get_hash qname) b1 = Some p" by blast
  from qb_inv_store [OF g(2,6,4), of "q\<lparr>q_entries := q_entries q @ [d], q_count := q_count q + 1\<rparr>"]
    contents_at [OF g(6,4)] g
  show ?thesis by (simp add: enqueue_def all_mallocs_def create_entry_def)
qed

lemma dequeue_ok:
  assumes "qb_inv b"
  shows "\<exists>b'. dequeue all_mallocs qname b =
      Inr (case contents b (get_hash qname) of [] \<Rightarrow> None | d # _ \<Rightarrow> Some d, b') \<and> qb_inv b'
    \<and> contents b' = (contents b)(get_hash qname := tl (contents b (get_hash qname)))"
proof -
  from get_queue_ok [OF assms] obtain p q b1 where
    g: "get_queue True True qname b = Inr (Some p, b1)" "qb_inv b1" "contents b1 = contents b"
    "qb_heap b1 p = Some q" "q_hashnum q = get_hash qname"
    "search_slot (queue_index (get_hash qname)) (get_hash qname) b1 = Some p" by blast
  have c: "contents b (get_hash qname) = q_entries q" using contents_at [OF g(6,4)] g(3) by simp
  show ?thesis
  proof (cases "q_entries q")
    case Nil
    with g c show ?thesis by (auto simp: dequeue_def all_mallocs_def)
  next
    case (Cons d ds)
    with qb_inv_store [OF g(2,6,4), of "q\<lparr>q_entries := ds\<rparr>"] g c show ?thesis
      by (simp add: dequeue_def all_mallocs_def)
  qed
qed

section \<open>The interface of the queues\<close>

text \<open>
  What the senders and the sending workers rely on: under every key there is a list, an
  enqueue appends to the list under its name's key, a dequeue takes its first element,
  and neither touches another key. The clients' lemma: over any sequence of operations,
  what has been taken from a key followed by what is still there is what was there
  followed by what has been put, in order.
\<close>

datatype ('d, 'n) queue_op = Enq 'd 'n | Deq 'n

fun puts :: "('n \<Rightarrow> 'k) \<Rightarrow> 'k \<Rightarrow> ('d, 'n) queue_op list \<Rightarrow> 'd list" where
  "puts key k [] = []"
| "puts key k (Enq d n # ops) = (if key n = k then d # puts key k ops else puts key k ops)"
| "puts key k (Deq n # ops) = puts key k ops"

text \<open>Running a sequence of calls; the result lists what each dequeue returned, by name.\<close>

fun run_queue_ops :: "('d \<Rightarrow> 'n \<Rightarrow> 's \<Rightarrow> (ret \<times> 's) res) \<Rightarrow> ('n \<Rightarrow> 's \<Rightarrow> ('d option \<times> 's) res) \<Rightarrow>
    ('d, 'n) queue_op list \<Rightarrow> 's \<Rightarrow> (('n \<times> 'd) list \<times> 's) res" where
  "run_queue_ops enq deq [] s = Inr ([], s)"
| "run_queue_ops enq deq (Enq d n # ops) s =
     and_then (enq d n s) (\<lambda>(r, s). run_queue_ops enq deq ops s)"
| "run_queue_ops enq deq (Deq n # ops) s =
     and_then (deq n s) (\<lambda>(d, s).
     and_then (run_queue_ops enq deq ops s) (\<lambda>(out, s).
       Inr (case d of None \<Rightarrow> (out, s) | Some x \<Rightarrow> ((n, x) # out, s))))"

definition taken :: "('n \<Rightarrow> 'k) \<Rightarrow> 'k \<Rightarrow> ('n \<times> 'd) list \<Rightarrow> 'd list" where
  "taken key k out = map snd (filter (\<lambda>(n, d). key n = k) out)"

locale fifo_store =
  fixes inv :: "'s \<Rightarrow> bool"
    and pending :: "'s \<Rightarrow> 'k \<Rightarrow> 'd list"
    and key :: "'n \<Rightarrow> 'k"
    and enq :: "'d \<Rightarrow> 'n \<Rightarrow> 's \<Rightarrow> (ret \<times> 's) res"
    and deq :: "'n \<Rightarrow> 's \<Rightarrow> ('d option \<times> 's) res"
  assumes enq_law: "inv s \<Longrightarrow> \<exists>s'. enq d n s = Inr (RET_SUCCESS, s') \<and> inv s'
      \<and> pending s' = (pending s)(key n := pending s (key n) @ [d])"
    and deq_law: "inv s \<Longrightarrow> \<exists>s'. deq n s =
        Inr (case pending s (key n) of [] \<Rightarrow> None | d # _ \<Rightarrow> Some d, s') \<and> inv s'
      \<and> pending s' = (pending s)(key n := tl (pending s (key n)))"
begin

lemma run_conserves:
  "inv s \<Longrightarrow> \<exists>out s'. run_queue_ops enq deq ops s = Inr (out, s') \<and> inv s' \<and>
     (\<forall>k. taken key k out @ pending s' k = pending s k @ puts key k ops)"
proof (induction ops arbitrary: s)
  case Nil
  then show ?case by (simp add: taken_def)
next
  case (Cons op ops)
  show ?case
  proof (cases op)
    case (Enq d n)
    from enq_law [OF Cons.prems] obtain s1 where s1: "enq d n s = Inr (RET_SUCCESS, s1)" "inv s1"
      "pending s1 = (pending s)(key n := pending s (key n) @ [d])" by blast
    from Cons.IH [OF s1(2)] s1 Enq show ?thesis by fastforce
  next
    case (Deq n)
    from deq_law [OF Cons.prems] obtain s1 where s1: "deq n s =
        Inr (case pending s (key n) of [] \<Rightarrow> None | d # _ \<Rightarrow> Some d, s1)" "inv s1"
      "pending s1 = (pending s)(key n := tl (pending s (key n)))" by blast
    from Cons.IH [OF s1(2)] obtain out s' where IH: "run_queue_ops enq deq ops s1 = Inr (out, s')"
      "inv s'" "\<forall>k. taken key k out @ pending s' k = pending s1 k @ puts key k ops" by blast
    show ?thesis
    proof (cases "pending s (key n)")
      case Nil
      with IH s1 Deq show ?thesis by (auto split: if_splits)
    next
      case (Cons d ds)
      have "taken key k ((n, d) # out) @ pending s' k = pending s k @ puts key k (op # ops)" for k
        using IH(3) s1(3) Cons Deq by (cases "k = key n") (auto simp: taken_def)
      with IH(1,2) s1(1) Cons Deq show ?thesis by auto
    qed
  qed
qed

end

interpretation box: fifo_store qb_inv contents get_hash
  "\<lambda>d. enqueue all_mallocs (Some d)" "dequeue all_mallocs"
  by unfold_locales (erule enqueue_ok, erule dequeue_ok)

section \<open>Cleaning up\<close>

lemma clear_slot:
  "qb_slots b ! i = Some qs \<Longrightarrow> i < length (qb_slots b) \<Longrightarrow>
     fold (clear_queue i) qs b =
       b\<lparr>qb_slots := (qb_slots b)[i := Some []], qb_heap := (\<lambda>p. if p \<in> set qs then None else qb_heap b p)\<rparr>"
proof (induction qs arbitrary: b)
  case Nil
  have "(qb_slots b)[i := Some []] = qb_slots b" using Nil list_update_id [of "qb_slots b" i] by metis
  then show ?case by simp
next
  case (Cons q qs)
  let ?b1 = "clear_queue i q b"
  have "qb_slots ?b1 ! i = Some qs" "i < length (qb_slots ?b1)"
    using Cons.prems by (simp_all add: clear_queue_def)
  from Cons.IH [OF this] Cons.prems show ?case
    by (simp add: clear_queue_def fun_eq_iff)
qed

definition clear_slot_at :: "nat \<Rightarrow> 'd queuebox \<Rightarrow> 'd queuebox" where
  "clear_slot_at i b = (case qb_slots b ! i of None \<Rightarrow> b | Some qs \<Rightarrow> fold (clear_queue i) qs b)"

lemma clear_slot_at:
  assumes "i < length (qb_slots b)"
  shows "length (qb_slots (clear_slot_at i b)) = length (qb_slots b)"
    "slot_of (clear_slot_at i b) j = (if j = i then [] else slot_of b j)"
    "qb_heap (clear_slot_at i b) p = (if p \<in> set (slot_of b i) then None else qb_heap b p)"
    "qb_next (clear_slot_at i b) = qb_next b" "qb_locked (clear_slot_at i b) = qb_locked b"
  using assms clear_slot [OF _ assms]
  by (auto simp: clear_slot_at_def slot_of_def split: option.splits)

lemma clear_slots:
  assumes "distinct is" and "\<forall>i\<in>set is. i < length (qb_slots b)"
  shows "let b' = fold clear_slot_at is b in
    length (qb_slots b') = length (qb_slots b) \<and> qb_next b' = qb_next b \<and> qb_locked b' = qb_locked b \<and>
    (\<forall>j. slot_of b' j = (if j \<in> set is then [] else slot_of b j)) \<and>
    (\<forall>p. qb_heap b' p = (if \<exists>i\<in>set is. p \<in> set (slot_of b i) then None else qb_heap b p))"
  using assms
proof (induction "is" arbitrary: b)
  case Nil
  then show ?case by simp
next
  case (Cons i "is")
  then have i: "i < length (qb_slots b)" by simp
  from Cons.prems have "distinct is" "\<forall>j\<in>set is. j < length (qb_slots (clear_slot_at i b))"
    by (simp_all add: clear_slot_at(1) [OF i])
  from Cons.IH [OF this] Cons.prems(1) show ?case
    by (auto simp: Let_def clear_slot_at [OF i])
qed

lemma cleanup_queuebox_slots:
  "\<not> qb_locked b \<Longrightarrow> cleanup_queuebox b = Inr (RET_SUCCESS, fold clear_slot_at [0..<QB_SIZE] b)"
  unfolding cleanup_queuebox_def clear_slot_at_def by simp

lemma box_queues_slots: "set (box_queues b) = (\<Union>i<length (qb_slots b). set (slot_of b i))"
proof -
  have "set (box_queues b) = (\<Union>s\<in>set (qb_slots b). set (case s of None \<Rightarrow> [] | Some qs \<Rightarrow> qs))"
    by (simp add: box_queues_def)
  also have "\<dots> = (\<Union>i<length (qb_slots b). set (slot_of b i))"
    by (fastforce simp: slot_of_def in_set_conv_nth)
  finally show ?thesis .
qed

section \<open>Properties\<close>

lemma qb_inv_empty: "qb_inv empty_box"
  by (simp add: qb_inv_def empty_box_def slot_ok_def slot_of_def)

lemma contents_empty: "contents empty_box h = []"
  using queue_index_less [of h] by (simp add: contents_def search_slot_def empty_box_def)

text \<open>C3. Conservation and order of messages: from any well-formed box, every sequence of
  enqueues and dequeues whose allocations succeed runs to its end, keeps the box
  well-formed, and for every hash the messages dequeued, followed by those still pending,
  are the messages pending at the start followed by those enqueued, in order: nothing is
  lost, duplicated, reordered or moved to another queue.\<close>

theorem queue_box_fifo:
  assumes "qb_inv b"
  shows "\<exists>out b'. run_queue_ops (\<lambda>d. enqueue all_mallocs (Some d)) (dequeue all_mallocs) ops b = Inr (out, b')
    \<and> qb_inv b' \<and> (\<forall>k. taken get_hash k out @ contents b' k = contents b k @ puts get_hash k ops)"
  using assms by (rule box.run_conserves)

theorem queue_box_fifo_witness:
  "\<exists>out b'. run_queue_ops (\<lambda>d. enqueue all_mallocs (Some d)) (dequeue all_mallocs)
      [Enq (1::nat) ''/queue/a'', Enq 2 ''/queue/a'', Deq ''/queue/a''] empty_box = Inr (out, b')
    \<and> taken get_hash (get_hash ''/queue/a'') out @ contents b' (get_hash ''/queue/a'') = [1, 2]"
  using queue_box_fifo [OF qb_inv_empty,
      of "[Enq (1::nat) ''/queue/a'', Enq 2 ''/queue/a'', Deq ''/queue/a'']"]
  by (fastforce simp: contents_empty)

text \<open>Queues are identified by the 64-bit hash of their names alone: for two names
  with the same hash, a message enqueued under one is delivered by a dequeue under the
  other. The distinct names \<open>Ez\<close> and \<open>FY\<close> are such a pair.\<close>

theorem queue_name_collision:
  "get_hash ''Ez'' = get_hash ''FY'' \<and>
   (\<exists>b b'. enqueue all_mallocs (Some d) ''Ez'' empty_box = Inr (RET_SUCCESS, b)
      \<and> dequeue all_mallocs ''FY'' b = Inr (Some d, b'))"
proof -
  have eq: "get_hash ''Ez'' = get_hash ''FY''" by (simp add: get_hash_djb2)
  from enqueue_ok [OF qb_inv_empty] obtain b where
    b: "enqueue all_mallocs (Some d) ''Ez'' empty_box = Inr (RET_SUCCESS, b)" "qb_inv b"
    "contents b (get_hash ''Ez'') = [d]"
    by (fastforce simp: contents_empty)
  from dequeue_ok [OF b(2), of "''FY''"] b(3) show ?thesis using eq b(1) by auto
qed

text \<open>When the list head of a slot cannot be allocated, \<^verbatim>\<open>enqueue\<close> reports an error but
  returns with \<^verbatim>\<open>queuebox_lock\<close> held, so that every later enqueue or dequeue on any queue
  blocks forever.\<close>

theorem failed_slot_alloc_wedges_box:
  assumes "\<not> qb_locked b" and "qb_slots b ! queue_index (get_hash qname) = None"
    and "m_entry m" and "\<not> m_head m"
  shows "\<exists>b'. enqueue m (Some d) qname b = Inr (RET_ERROR, b') \<and> qb_heap b' = qb_heap b
    \<and> (\<forall>m' d' n. m_entry m' \<longrightarrow> enqueue m' (Some d') n b' = Inl Deadlock)
    \<and> (\<forall>m' n. dequeue m' n b' = Inl Deadlock)"
  using assms
  by (simp add: enqueue_def dequeue_def create_entry_def get_queue_def ensure_slot_def Let_def)

theorem failed_slot_alloc_wedges_box_witness:
  "\<exists>b'. enqueue \<lparr>m_entry = True, m_head = False, m_queue = True\<rparr> (Some (1::nat)) ''q'' empty_box
      = Inr (RET_ERROR, b') \<and> dequeue all_mallocs ''other'' b' = Inl Deadlock"
  using failed_slot_alloc_wedges_box [of empty_box "''q''" "\<lparr>m_entry = True, m_head = False, m_queue = True\<rparr>" "1::nat"]
    queue_index_less [of "get_hash ''q''"]
  by (auto simp: empty_box_def)

text \<open>C28. Cleaning up the box returns, leaves every slot empty and frees every queue that
  was linked in it; the box stays well-formed.\<close>

theorem cleanup_queuebox_frees_all:
  assumes "qb_inv b"
  shows "\<exists>b'. cleanup_queuebox b = Inr (RET_SUCCESS, b') \<and> qb_inv b' \<and> box_queues b' = []
    \<and> (\<forall>p\<in>set (box_queues b). qb_heap b' p = None) \<and> (\<forall>h. contents b' h = [])"
proof -
  have len: "length (qb_slots b) = QB_SIZE" and unl: "\<not> qb_locked b"
    using assms by (simp_all add: qb_inv_def)
  define b' where "b' = fold clear_slot_at [0..<QB_SIZE] b"
  have c: "length (qb_slots b') = QB_SIZE" "qb_next b' = qb_next b" "qb_locked b' = qb_locked b"
    "\<And>j. j < QB_SIZE \<Longrightarrow> slot_of b' j = []"
    "\<And>p. qb_heap b' p = (if \<exists>i\<in>{0..<QB_SIZE}. p \<in> set (slot_of b i) then None else qb_heap b p)"
    using clear_slots [of "[0..<QB_SIZE]" b] len by (simp_all add: b'_def Let_def)
  have "set (box_queues b') = {}" using c by (simp add: box_queues_slots)
  moreover have "qb_inv b'"
    using assms c by (auto simp: qb_inv_def slot_ok_def)
  moreover have "contents b' h = []" for h
    using c(4) [OF queue_index_less] by (simp add: contents_def search_slot_eq)
  moreover have "\<forall>p\<in>set (box_queues b). qb_heap b' p = None"
    using c(5) len by (auto simp: box_queues_slots)
  ultimately show ?thesis
    using cleanup_queuebox_slots [OF unl] by (simp add: b'_def)
qed

theorem cleanup_queuebox_frees_all_witness:
  "\<exists>b'. cleanup_queuebox (empty_box :: nat queuebox) = Inr (RET_SUCCESS, b') \<and> box_queues b' = []"
  using cleanup_queuebox_frees_all [OF qb_inv_empty] by blast

end
