(* ===== verification/Persistent.thy ===== *)
theory Persistent
  imports Stomp Queue_Box
begin

text \<open>
  Persistence of queues (\<^verbatim>\<open>lib/persistent_worker.c\<close>): the manager's list of \<^verbatim>\<open>queue_info_t\<close>,
  the files \<^verbatim>\<open>data\<close> and \<^verbatim>\<open>sent_index\<close> of a queue, writing frames out and reading them back at the
  next start. The file system is a map from paths to contents and a set of directories;
  whether an \<^verbatim>\<open>fopen\<close> succeeds, the entries of the data directory and the memory behind
  the read buffer are arguments. The mutexes \<^verbatim>\<open>m_qinfo\<close> and \<^verbatim>\<open>m_unpersistent\<close> are only taken and
  released around single operations and are left out.
\<close>

section \<open>Files\<close>

type_synonym path = "byte list"

record fs =
  fs_files :: "path \<Rightarrow> byte list option"
  fs_dirs :: "path \<Rightarrow> bool"

definition mkdir :: "path \<Rightarrow> fs \<Rightarrow> fs" where
  "mkdir p fs = (if fs_files fs p = None then fs\<lparr>fs_dirs := (fs_dirs fs)(p := True)\<rparr> else fs)"

definition set_file :: "path \<Rightarrow> byte list \<Rightarrow> fs \<Rightarrow> fs" where
  "set_file p bytes fs = fs\<lparr>fs_files := (fs_files fs)(p \<mapsto> bytes)\<rparr>"

definition content :: "fs \<Rightarrow> path \<Rightarrow> byte list" where
  "content fs p = (case fs_files fs p of None \<Rightarrow> [] | Some b \<Rightarrow> b)"

text \<open>A \<^verbatim>\<open>long\<close> as its eight bytes in memory, least significant first.\<close>

definition encode_long :: "int \<Rightarrow> byte list" where
  "encode_long x = map (\<lambda>i. char_of (x div 256 ^ i)) [0..<8]"

fun value_le :: "byte list \<Rightarrow> int" where
  "value_le [] = 0"
| "value_le (c # cs) = of_char c + 256 * value_le cs"

text \<open>A short read leaves the higher bytes of the zero-initialised variable alone.\<close>

definition decode_long :: "byte list \<Rightarrow> int" where
  "decode_long bs = sint (word_of_int (value_le (take 8 bs)) :: 64 word)"

text \<open>\<^verbatim>\<open>sprintf(path, "%s/%s", dir, name)\<close> into an array of \<^verbatim>\<open>MAX_PATH_LENGTH\<close> bytes.\<close>

definition MAX_PATH_LENGTH :: nat where "MAX_PATH_LENGTH = 512"
definition BUFFER_LEN :: nat where "BUFFER_LEN = 1024"
definition FNAME_DATA :: "byte list" where "FNAME_DATA = ''data''"
definition FNAME_SENT_INDEX :: "byte list" where "FNAME_SENT_INDEX = ''sent_index''"

definition join_path :: "path \<Rightarrow> byte list \<Rightarrow> path" where
  "join_path dir name = cstr dir @ ''/'' @ cstr name"

definition sprintf_path :: "path \<Rightarrow> byte list \<Rightarrow> path res" where
  "sprintf_path dir name =
     (let p = join_path dir name in if length p + 1 > MAX_PATH_LENGTH then Inl Buffer_Overflow else Inr p)"

section \<open>State\<close>

text \<open>
  \<^verbatim>\<open>queue_info_t\<close>; the open streams \<^verbatim>\<open>fp_context\<close> (appending) and \<^verbatim>\<open>fp_index_sent\<close> are the files
  \<^verbatim>\<open>data\<close> and \<^verbatim>\<open>sent_index\<close> in \<open>qi_dir\<close>.
\<close>

record queue_info =
  qi_qid :: "64 word"
  qi_dir :: path
  qi_unpersistent :: "ptr list"
  qi_index_head :: int
  qi_index_sent :: int
  qi_index_persistent :: int

definition STATUS_INITIALIZED :: flags where "STATUS_INITIALIZED = 1"
definition STATUS_STOP :: flags where "STATUS_STOP = 2"

record persistent_manager =
  pm_heap :: "ptr \<Rightarrow> queue_info option"
  pm_list :: "ptr list"
  pm_next :: ptr
  pm_datadir :: path
  pm_status :: flags
  pm_fs :: fs

text \<open>
  \<^verbatim>\<open>get_qinfo\<close> reads every entry of the list and keeps the last match; an entry that has
  been freed without being unlinked is a dangling pointer.
\<close>

definition get_qinfo :: "64 word \<Rightarrow> persistent_manager \<Rightarrow> ptr option res" where
  "get_qinfo i pm =
     (if list_ex (\<lambda>p. pm_heap pm p = None) (pm_list pm) then Inl Use_After_Free
      else Inr (find_last (\<lambda>p. map_option qi_qid (pm_heap pm p) = Some i) (pm_list pm)))"

definition persist_queue_info :: "queue_info \<Rightarrow> fs \<Rightarrow> fs" where
  "persist_queue_info q fs =
     (let p = join_path (qi_dir q) FNAME_SENT_INDEX in
      set_file p (encode_long (qi_index_sent q) @ drop 8 (content fs p)) fs)"

text \<open>\<^verbatim>\<open>fclose\<close> is reached with a null stream when the file cannot be opened.\<close>

definition unpersist_queue_info :: "path \<Rightarrow> fs \<Rightarrow> int res" where
  "unpersist_queue_info dirpath fs =
     and_then (sprintf_path dirpath FNAME_SENT_INDEX) (\<lambda>p.
       case fs_files fs p of None \<Rightarrow> Inl Null_Deref | Some b \<Rightarrow> Inr (decode_long b))"

text \<open>
  \<^verbatim>\<open>alloc_qinfo\<close>: \<open>open_ok\<close> says which files can be opened for writing. The size that becomes
  \<^verbatim>\<open>index_head\<close> is the one of the \<^verbatim>\<open>sent_index\<close> file, which \<^verbatim>\<open>st\<close> describes at that point.
\<close>

definition alloc_qinfo :: "(path \<Rightarrow> bool) \<Rightarrow> bool \<Rightarrow> byte list \<Rightarrow> persistent_manager \<Rightarrow> (queue_info option \<times> persistent_manager) res" where
  "alloc_qinfo open_ok malloc_ok qname pm =
     (if \<not> malloc_ok then Inr (None, pm)
      else and_then (sprintf_path (pm_datadir pm) qname) (\<lambda>dirpath.
        let fs = pm_fs pm in
        if fs_files fs dirpath \<noteq> None then Inr (None, pm)
        else and_then (if fs_dirs fs dirpath then Inr fs
                       else and_then (mkdir_recursive dirpath) (\<lambda>ps. Inr (fold mkdir ps fs))) (\<lambda>fs.
        and_then (sprintf_path dirpath FNAME_DATA) (\<lambda>datapath.
        if \<not> open_ok datapath then Inr (None, pm\<lparr>pm_fs := fs\<rparr>)
        else let fs = set_file datapath (content fs datapath) fs in
        and_then (sprintf_path dirpath FNAME_SENT_INDEX) (\<lambda>sentpath.
        let q = \<lparr>qi_qid = get_hash qname, qi_dir = dirpath, qi_unpersistent = [],
                 qi_index_head = 0, qi_index_sent = 0, qi_index_persistent = 0\<rparr> in
        and_then (case fs_files fs sentpath of
                    None \<Rightarrow> Inr q
                  | Some b \<Rightarrow> and_then (unpersist_queue_info dirpath fs) (\<lambda>sent.
                      Inr (q\<lparr>qi_index_sent := sent, qi_index_head := int (length b), qi_index_persistent := int (length b)\<rparr>)))
        (\<lambda>q.
        if \<not> open_ok sentpath then Inr (None, pm\<lparr>pm_fs := fs\<rparr>)
        else Inr (Some q, pm\<lparr>pm_fs := persist_queue_info q (set_file sentpath [] fs)\<rparr>)))))))"

definition create_qinfo :: "(path \<Rightarrow> bool) \<Rightarrow> bool \<Rightarrow> byte list \<Rightarrow> persistent_manager \<Rightarrow> (ptr \<times> persistent_manager) res" where
  "create_qinfo open_ok malloc_ok qname pm =
     and_then (get_qinfo (get_hash qname) pm) (\<lambda>found.
       case found of
         Some p \<Rightarrow> Inr (p, pm)
       | None \<Rightarrow>
           and_then (alloc_qinfo open_ok malloc_ok qname pm) (\<lambda>(q, pm).
             case q of None \<Rightarrow> Inl Assert_Fail
             | Some q \<Rightarrow> Inr (pm_next pm, pm\<lparr>pm_heap := (pm_heap pm)(pm_next pm \<mapsto> q),
                                              pm_list := pm_list pm @ [pm_next pm], pm_next := pm_next pm + 1\<rparr>)))"

definition free_qinfo :: "ptr \<Rightarrow> persistent_manager \<Rightarrow> persistent_manager res" where
  "free_qinfo p pm =
     (case pm_heap pm p of None \<Rightarrow> Inl Bad_Free | Some q \<Rightarrow> Inr (pm\<lparr>pm_heap := (pm_heap pm)(p := None)\<rparr>))"

definition upd_qinfo :: "ptr \<Rightarrow> (queue_info \<Rightarrow> queue_info) \<Rightarrow> persistent_manager \<Rightarrow> persistent_manager" where
  "upd_qinfo p f pm = pm\<lparr>pm_heap := (pm_heap pm)(p := map_option f (pm_heap pm p))\<rparr>"

section \<open>Writing\<close>

definition add_frame_into_qinfo :: "ptr \<Rightarrow> queue_info \<Rightarrow> queue_info" where
  "add_frame_into_qinfo frame q = q\<lparr>qi_unpersistent := qi_unpersistent q @ [frame]\<rparr>"

definition persist_frame :: "(path \<Rightarrow> bool) \<Rightarrow> bool \<Rightarrow> (ptr \<Rightarrow> frame_t option) \<Rightarrow> ptr \<Rightarrow> byte list \<Rightarrow> persistent_manager
    \<Rightarrow> (ret \<times> persistent_manager) res" where
  "persist_frame open_ok malloc_ok frames frame qname pm =
     and_then (create_qinfo open_ok malloc_ok qname pm) (\<lambda>(q, pm).
       case frames frame of None \<Rightarrow> Inl Use_After_Free
       | Some f \<Rightarrow> Inr (RET_SUCCESS,
           upd_qinfo q (\<lambda>q. (add_frame_into_qinfo frame q)\<lparr>qi_index_head := qi_index_head q + f_size f\<rparr>) pm))"

definition update_index_sent :: "byte list \<Rightarrow> frame_t \<Rightarrow> persistent_manager \<Rightarrow> (ret \<times> persistent_manager) res" where
  "update_index_sent qname f pm =
     and_then (get_qinfo (get_hash qname) pm) (\<lambda>found.
       case found of None \<Rightarrow> Inr (RET_ERROR, pm)
       | Some q \<Rightarrow> Inr (RET_SUCCESS, upd_qinfo q (\<lambda>q. q\<lparr>qi_index_sent := qi_index_sent q + f_size f\<rparr>) pm))"

text \<open>The bytes \<^verbatim>\<open>persist_queue_context\<close> writes for one frame, in the order of its \<^verbatim>\<open>fwrite\<close> calls.\<close>

definition frame_bytes :: "frame_t \<Rightarrow> byte list" where
  "frame_bytes f =
     take (strlen (f_name f)) (f_name f) @ [NL] @
     concat (map (\<lambda>header. take (ld_len header) (ld_data header) @ [NL]) (f_attrs f)) @ [NL] @
     concat (map (\<lambda>body. take (ld_len body) (ld_data body)) (f_data f)) @ [NUL]"

definition persist_one :: "(ptr \<Rightarrow> frame_t option) \<Rightarrow> ptr \<Rightarrow> queue_info \<times> fs \<Rightarrow> (queue_info \<times> fs) res" where
  "persist_one frames frame = (\<lambda>(q, fs).
     case frames frame of None \<Rightarrow> Inl Use_After_Free
     | Some f \<Rightarrow>
         (let p = join_path (qi_dir q) FNAME_DATA in
          Inr (q\<lparr>qi_unpersistent := remove1 frame (qi_unpersistent q),
                 qi_index_persistent := qi_index_persistent q + f_size f\<rparr>,
               set_file p (content fs p @ frame_bytes f) fs)))"

definition persist_queue_context :: "(ptr \<Rightarrow> frame_t option) \<Rightarrow> queue_info \<Rightarrow> fs \<Rightarrow> (ret \<times> queue_info \<times> fs) res" where
  "persist_queue_context frames q fs =
     and_then (each_res (persist_one frames) (qi_unpersistent q) (q, fs)) (\<lambda>(q, fs). Inr (RET_SUCCESS, q, fs))"

text \<open>One round of \<^verbatim>\<open>persistent_worker\<close> over the list of queues.\<close>

definition persist_entry :: "(ptr \<Rightarrow> frame_t option) \<Rightarrow> ptr \<Rightarrow> persistent_manager \<Rightarrow> persistent_manager res" where
  "persist_entry frames p pm =
     (case pm_heap pm p of None \<Rightarrow> Inl Use_After_Free
      | Some q \<Rightarrow>
          (let pm = pm\<lparr>pm_fs := persist_queue_info q (pm_fs pm)\<rparr> in
           if qi_index_head q > qi_index_persistent q
           then and_then (persist_queue_context frames q (pm_fs pm)) (\<lambda>(_, q, fs).
             Inr (pm\<lparr>pm_heap := (pm_heap pm)(p \<mapsto> q), pm_fs := fs\<rparr>))
           else Inr pm))"

definition persist_round :: "(ptr \<Rightarrow> frame_t option) \<Rightarrow> persistent_manager \<Rightarrow> persistent_manager res" where
  "persist_round frames pm = each_res (persist_entry frames) (pm_list pm) pm"

text \<open>One pass of the loop of \<^verbatim>\<open>persistent_worker\<close>; the result says whether it goes on.\<close>

definition persistent_worker :: "(ptr \<Rightarrow> frame_t option) \<Rightarrow> persistent_manager \<Rightarrow> (bool \<times> persistent_manager) res" where
  "persistent_worker frames pm =
     (if GET (pm_status pm) STATUS_STOP then Inr (False, pm)
      else and_then (persist_round frames pm) (\<lambda>pm. Inr (True, pm)))"

definition stop_persistent_worker :: "persistent_manager \<Rightarrow> persistent_manager" where
  "stop_persistent_worker pm = pm\<lparr>pm_status := SET (pm_status pm) STATUS_STOP\<rparr>"

definition cleanup_persistent_list :: "persistent_manager \<Rightarrow> persistent_manager res" where
  "cleanup_persistent_list pm =
     each_res (\<lambda>p pm. free_qinfo p (pm\<lparr>pm_list := remove1 p (pm_list pm)\<rparr>)) (pm_list pm) pm"

definition cleanup_persistent_worker :: "persistent_manager \<Rightarrow> (ret \<times> persistent_manager) res" where
  "cleanup_persistent_worker pm =
     and_then (cleanup_persistent_list (stop_persistent_worker pm)) (\<lambda>pm. Inr (RET_SUCCESS, pm))"

definition initialize_persistent_worker :: "path option \<Rightarrow> persistent_manager \<Rightarrow> ret \<times> persistent_manager" where
  "initialize_persistent_worker datadir pm =
     (case datadir of None \<Rightarrow> (RET_ERROR, pm)
      | Some d \<Rightarrow>
          (let pm = pm\<lparr>pm_list := [], pm_datadir := d, pm_status := STATUS_INITIALIZED\<rparr> in
           if fs_files (pm_fs pm) d \<noteq> None then (RET_ERROR, pm)
           else if fs_dirs (pm_fs pm) d then (RET_SUCCESS, pm)
           else (RET_SUCCESS, pm\<lparr>pm_fs := mkdir d (pm_fs pm)\<rparr>)))"

section \<open>Reading\<close>

text \<open>
  The loop over one block of \<open>len\<close> bytes in \<^verbatim>\<open>frame_buffer\<close>. \<open>mem\<close> is the memory from the
  buffer's first byte on: its 1024 bytes and what lies behind them. The parser is always
  given \<open>len\<close> bytes, also when it starts at an index behind 0. The state: the index,
  the frame under construction, the parser's static data, the random numbers used and
  the finished frames.
\<close>

record block_state =
  bl_index :: int
  bl_frame :: "frame_t option"
  bl_static :: parse_static
  bl_rand :: nat
  bl_frames :: "frame_t list"

definition block_step :: "(nat \<Rightarrow> nat) \<Rightarrow> byte list \<Rightarrow> nat \<Rightarrow> block_state \<Rightarrow> block_state res" where
  "block_step rnd mem len b =
     (if bl_index b < 0 then Inl Buffer_Overflow
      else let frame = (case bl_frame b of None \<Rightarrow> alloc_frame | Some f \<Rightarrow> f) in
        and_then (parse_frame rnd (bl_rand b) (bl_static b) frame (drop (nat (bl_index b)) mem) len) (\<lambda>r.
          Inr \<lparr>bl_index = bl_index b + pr_offset r,
               bl_frame = (if pr_ret r = RET_SUCCESS then None else Some (pr_frame r)),
               bl_static = pr_static r, bl_rand = pr_rand r,
               bl_frames = bl_frames b @ (if pr_ret r = RET_SUCCESS then [pr_frame r] else [])\<rparr>))"

definition block_loop :: "(nat \<Rightarrow> nat) \<Rightarrow> byte list \<Rightarrow> nat \<Rightarrow> block_state \<Rightarrow> block_state res option" where
  "block_loop rnd mem len b =
     while_option (\<lambda>r. case r of Inl _ \<Rightarrow> False | Inr b \<Rightarrow> bl_index b < int len)
       (\<lambda>r. and_then r (block_step rnd mem len)) (block_step rnd mem len b)"

text \<open>The blocks that successive \<^verbatim>\<open>fread\<close> calls return.\<close>

function read_blocks :: "byte list \<Rightarrow> byte list list" where
  "read_blocks bs = (if bs = [] then [] else take BUFFER_LEN bs # read_blocks (drop BUFFER_LEN bs))"
  by pat_completeness auto
termination by (relation "measure length") (auto simp: BUFFER_LEN_def)

declare read_blocks.simps [simp del]

fun blocks_loop :: "(nat \<Rightarrow> nat) \<Rightarrow> byte list \<Rightarrow> byte list list \<Rightarrow> byte list \<Rightarrow> block_state \<Rightarrow> block_state res option" where
  "blocks_loop rnd stack [] buf b = Some (Inr b)"
| "blocks_loop rnd stack (bytes # blocks) buf b =
     (let buf = bytes @ drop (length bytes) buf in
      case block_loop rnd (buf @ stack) (length bytes) (b\<lparr>bl_index := 0\<rparr>) of
        None \<Rightarrow> None
      | Some (Inl e) \<Rightarrow> Some (Inl e)
      | Some (Inr b) \<Rightarrow> blocks_loop rnd stack blocks buf b)"

text \<open>
  \<^verbatim>\<open>unpersist_queue_context\<close>: the result, the frames in file order and the parser's state
  afterwards. \<open>buf\<close> is the uninitialised content of \<^verbatim>\<open>frame_buffer\<close>. A missing data file
  leads to \<^verbatim>\<open>fclose(NULL)\<close>.
\<close>

definition unpersist_queue_context :: "(nat \<Rightarrow> nat) \<Rightarrow> nat \<Rightarrow> parse_static \<Rightarrow> byte list \<Rightarrow> byte list \<Rightarrow> path \<Rightarrow> fs
    \<Rightarrow> (ret \<times> frame_t list \<times> parse_static \<times> nat) res option" where
  "unpersist_queue_context rnd k st buf stack dirpath fs =
     (case unpersist_queue_info dirpath fs of
        Inl e \<Rightarrow> Some (Inl e)
      | Inr sent_index \<Rightarrow>
          if sent_index < 0 then Some (Inr (RET_ERROR, [], st, k))
          else case sprintf_path dirpath FNAME_DATA of
            Inl e \<Rightarrow> Some (Inl e)
          | Inr p \<Rightarrow>
              (case fs_files fs p of
                 None \<Rightarrow> Some (Inl Null_Deref)
               | Some bytes \<Rightarrow>
                   map_option (\<lambda>r. and_then r (\<lambda>b. Inr (RET_SUCCESS, bl_frames b, bl_static b, bl_rand b)))
                     (blocks_loop rnd stack (read_blocks (drop (nat sent_index) bytes)) buf
                        \<lparr>bl_index = 0, bl_frame = None, bl_static = st, bl_rand = k, bl_frames = []\<rparr>)))"

text \<open>
  \<^verbatim>\<open>unpersist\<close> for one entry of the data directory, then for all of them. The restored frames
  are put on the heap when they are enqueued.
\<close>

record unpersist_state =
  us_pm :: persistent_manager
  us_stomp :: stomp_state
  us_box :: "ptr queuebox"
  us_static :: parse_static

definition restore_frame :: "byte list \<Rightarrow> frame_t \<Rightarrow> unpersist_state \<Rightarrow> unpersist_state res" where
  "restore_frame qname f u =
     (let p = ss_next (us_stomp u) in
      and_then (enqueue all_mallocs (Some p) qname (us_box u)) (\<lambda>(_, box).
        Inr (u\<lparr>us_box := box, us_stomp := (put_frame p f (us_stomp u))\<lparr>ss_next := p + 1\<rparr>\<rparr>)))"

definition unpersist_entry :: "os \<Rightarrow> (path \<Rightarrow> bool) \<Rightarrow> byte list \<Rightarrow> byte list \<Rightarrow> byte list \<Rightarrow> unpersist_state \<Rightarrow> unpersist_state res option" where
  "unpersist_entry os open_ok buf stack name u =
     (if deref name = CHR ''.'' then Some (Inr u)
      else case sprintf_path (pm_datadir (us_pm u)) name of Inl e \<Rightarrow> Some (Inl e)
      | Inr dirpath \<Rightarrow>
        (case create_qinfo open_ok True name (us_pm u) of Inl e \<Rightarrow> Some (Inl e)
         | Inr (q, pm) \<Rightarrow>
           (case unpersist_queue_info dirpath (pm_fs pm) of Inl e \<Rightarrow> Some (Inl e)
            | Inr sent \<Rightarrow>
              let pm = upd_qinfo q (\<lambda>q. q\<lparr>qi_index_sent := sent\<rparr>) pm in
              case sprintf_path dirpath FNAME_DATA of Inl e \<Rightarrow> Some (Inl e)
              | Inr datapath \<Rightarrow>
                if fs_dirs (pm_fs pm) datapath then Some (Inr (u\<lparr>us_pm := pm\<rparr>))
                else
                  let size = int (length (content (pm_fs pm) datapath));
                      pm = upd_qinfo q (\<lambda>q. q\<lparr>qi_index_head := size, qi_index_persistent := size\<rparr>) pm in
                  case unpersist_queue_context (os_rand os) (ss_rand (us_stomp u)) (us_static u) buf stack dirpath (pm_fs pm) of
                    None \<Rightarrow> None
                  | Some (Inl e) \<Rightarrow> Some (Inl e)
                  | Some (Inr (ret, frames, st, k)) \<Rightarrow>
                      let u = u\<lparr>us_pm := pm, us_static := st, us_stomp := (us_stomp u)\<lparr>ss_rand := k\<rparr>\<rparr> in
                      if ret = RET_ERROR
                      then Some (and_then (free_qinfo q pm) (\<lambda>pm. Inr (u\<lparr>us_pm := pm\<rparr>)))
                      else Some (each_res (restore_frame name) frames u))))"

fun unpersist_loop :: "os \<Rightarrow> (path \<Rightarrow> bool) \<Rightarrow> byte list \<Rightarrow> byte list \<Rightarrow> byte list list \<Rightarrow> unpersist_state \<Rightarrow> unpersist_state res option" where
  "unpersist_loop os open_ok buf stack [] u = Some (Inr u)"
| "unpersist_loop os open_ok buf stack (name # names) u =
     (case unpersist_entry os open_ok buf stack name u of
        None \<Rightarrow> None
      | Some (Inl e) \<Rightarrow> Some (Inl e)
      | Some (Inr u) \<Rightarrow> unpersist_loop os open_ok buf stack names u)"

definition unpersist :: "os \<Rightarrow> (path \<Rightarrow> bool) \<Rightarrow> byte list \<Rightarrow> byte list \<Rightarrow> byte list list \<Rightarrow> unpersist_state \<Rightarrow> (ret \<times> unpersist_state) res option" where
  "unpersist os open_ok buf stack entries u =
     (if \<not> GET (pm_status (us_pm u)) STATUS_INITIALIZED then Some (Inr (RET_ERROR, u))
      else map_option (\<lambda>r. and_then r (\<lambda>u. Inr (RET_SUCCESS, u))) (unpersist_loop os open_ok buf stack entries u))"

section \<open>Round trips\<close>

lemma value_le_bytes: "value_le (map (\<lambda>i. char_of (x div 256 ^ i)) [j..<j + n]) = x div 256 ^ j mod 256 ^ n"
proof (induction n arbitrary: j)
  case 0
  then show ?case by simp
next
  case (Suc n)
  let ?y = "x div 256 ^ j"
  have "value_le (map (\<lambda>i. char_of (x div 256 ^ i)) [Suc j..<Suc j + n]) = ?y div 256 mod 256 ^ n"
    unfolding Suc [of "Suc j"] by (simp add: power_Suc2 zdiv_zmult2_eq del: power_Suc)
  moreover have "[j..<j + Suc n] = j # [Suc j..<Suc j + n]" by (simp add: upt_conv_Cons)
  moreover have "?y mod (256 * 256 ^ n) = ?y mod 256 + 256 * (?y div 256 mod 256 ^ n)"
    by (simp add: zmod_zmult2_eq)
  ultimately show ?case by (simp del: upt_Suc)
qed

lemma decode_encode_long:
  assumes "- (2 ^ 63) \<le> x" "x < 2 ^ 63"
  shows "decode_long (encode_long x @ t) = x"
proof -
  have "value_le (encode_long x) = x mod 2 ^ 64"
    using value_le_bytes [of x 0 8] by (simp add: encode_long_def)
  then have "decode_long (encode_long x @ t) = sint (word_of_int (x mod 2 ^ 64) :: 64 word)"
    by (simp add: decode_long_def encode_long_def)
  also have "(word_of_int (x mod 2 ^ 64) :: 64 word) = word_of_int x"
    by (simp add: word_of_int_eq_iff take_bit_eq_mod)
  finally show ?thesis using assms by (simp add: sint_sbintrunc' signed_take_bit_int_eq_self)
qed

lemma frame_bytes_encode: "frame_bytes f = encode (message_of f)"
proof -
  have "take (strlen s) s = cstr s" for s
    unfolding strlen_def cstr_def by (rule takeWhile_eq_take [symmetric])
  moreover have "ld_bytes = (\<lambda>l. take (ld_len l) (ld_data l))" by (rule ext) (simp add: ld_bytes_def)
  ultimately show ?thesis
    by (simp add: frame_bytes_def encode_def message_of_def encode_headers_def ld_bytes_def o_def)
qed

lemma content_set_file [simp]: "content (set_file p b fs) p' = (if p' = p then b else content fs p')"
  by (simp add: content_def set_file_def)

lemma fs_files_set_file [simp]: "fs_files (set_file p b fs) p' = (if p' = p then Some b else fs_files fs p')"
  by (simp add: set_file_def)

lemma persist_frames:
  assumes "map frames ps = map Some fl"
  shows "\<exists>q' fs'. each_res (persist_one frames) ps (q\<lparr>qi_unpersistent := ps\<rparr>, fs) = Inr (q', fs') \<and> qi_unpersistent q' = [] \<and>
    qi_index_persistent q' = qi_index_persistent q + sum_list (map f_size fl) \<and>
    qi_qid q' = qi_qid q \<and> qi_dir q' = qi_dir q \<and> qi_index_head q' = qi_index_head q \<and> qi_index_sent q' = qi_index_sent q \<and>
    content fs' (join_path (qi_dir q) FNAME_DATA) =
      content fs (join_path (qi_dir q) FNAME_DATA) @ concat (map (encode \<circ> message_of) fl) \<and>
    (fs_files fs (join_path (qi_dir q) FNAME_DATA) \<noteq> None \<longrightarrow> fs_files fs' (join_path (qi_dir q) FNAME_DATA) \<noteq> None) \<and>
    (\<forall>p. p \<noteq> join_path (qi_dir q) FNAME_DATA \<longrightarrow> fs_files fs' p = fs_files fs p)"
  using assms
proof (induction ps arbitrary: fl q fs)
  case Nil
  then show ?case by simp
next
  case (Cons p ps)
  then obtain f fl' where fl: "fl = f # fl'" "frames p = Some f" "map frames ps = map Some fl'" by (cases fl) auto
  let ?d = "join_path (qi_dir q) FNAME_DATA"
  define q1 where "q1 = q\<lparr>qi_index_persistent := qi_index_persistent q + f_size f\<rparr>"
  define fs1 where "fs1 = set_file ?d (content fs ?d @ frame_bytes f) fs"
  have "persist_one frames p (q\<lparr>qi_unpersistent := p # ps\<rparr>, fs) = Inr (q1\<lparr>qi_unpersistent := ps\<rparr>, fs1)"
    by (cases q) (simp add: persist_one_def fl(2) q1_def fs1_def Let_def)
  with Cons.IH [OF fl(3), of q1 fs1] show ?case
    by (auto simp: fl(1) q1_def fs1_def frame_bytes_encode split: if_splits)
qed

lemma persist_queue_context_ok:
  assumes "map frames (qi_unpersistent q) = map Some fl"
  shows "\<exists>q' fs'. persist_queue_context frames q fs = Inr (RET_SUCCESS, q', fs') \<and> qi_unpersistent q' = [] \<and>
    qi_index_persistent q' = qi_index_persistent q + sum_list (map f_size fl) \<and>
    qi_qid q' = qi_qid q \<and> qi_dir q' = qi_dir q \<and> qi_index_head q' = qi_index_head q \<and> qi_index_sent q' = qi_index_sent q \<and>
    content fs' (join_path (qi_dir q) FNAME_DATA) =
      content fs (join_path (qi_dir q) FNAME_DATA) @ concat (map (encode \<circ> message_of) fl) \<and>
    (fs_files fs (join_path (qi_dir q) FNAME_DATA) \<noteq> None \<longrightarrow> fs_files fs' (join_path (qi_dir q) FNAME_DATA) \<noteq> None) \<and>
    (\<forall>p. p \<noteq> join_path (qi_dir q) FNAME_DATA \<longrightarrow> fs_files fs' p = fs_files fs p)"
  using persist_frames [OF assms, of q fs] by (auto simp: persist_queue_context_def)

text \<open>Reading one block that holds whole messages.\<close>

lemma block_loop_step:
  assumes "block_step rnd mem len b = Inr b1"
  shows "block_loop rnd mem len b = (if bl_index b1 < int len then block_loop rnd mem len b1 else Some (Inr b1))"
  unfolding block_loop_def assms by (subst while_option_unfold) simp

lemma block_loop_messages:
  assumes "\<forall>m\<in>set ms. msg_ok m" and "ms \<noteq> []" and "drop i mem = concat (map encode ms) @ t"
    and "i + length (concat (map encode ms)) = len"
    and "bl_index b = int i" and "bl_frame b = None" and "bl_static b = parse_static0"
  shows "\<exists>b'. block_loop rnd mem len b = Some (Inr b') \<and> bl_static b' = parse_static0 \<and>
    map message_of (bl_frames b') = map message_of (bl_frames b) @ ms"
  using assms
proof (induction ms arbitrary: i b)
  case Nil
  then show ?case by simp
next
  case (Cons m ms)
  define b1 where "b1 = \<lparr>bl_index = int (i + length (encode m)), bl_frame = None, bl_static = parse_static0,
    bl_rand = bl_rand b + (FRAME_ID_LEN - 1),
    bl_frames = bl_frames b @ [(frame_of m)\<lparr>f_id := gen_random rnd (bl_rand b) FRAME_ID_LEN\<rparr>]\<rparr>"
  have m: "msg_ok m" using Cons.prems(1) by simp
  have d: "drop i mem = encode m @ concat (map encode ms) @ t" using Cons.prems(3) by simp
  have step: "block_step rnd mem len b = Inr b1"
    using Cons.prems(4-7) d
    by (simp add: block_step_def parse_frame_encode [OF m] b1_def)
  have "(frame_of m)\<lparr>f_id := x\<rparr> = (frame_of m)\<lparr>f_status := 0, f_id := x, f_sock := 0, f_cinfo := None\<rparr>" for x
    by (simp add: frame_of_def alloc_frame_def)
  then have mo: "map message_of (bl_frames b1) = map message_of (bl_frames b) @ [m]"
    using message_of_frame_of [OF m] by (simp add: b1_def)
  show ?case
  proof (cases "ms = []")
    case True
    then have "\<not> bl_index b1 < int len" using Cons.prems(4) by (simp add: b1_def)
    then show ?thesis using block_loop_step [OF step] mo True by (auto simp: b1_def)
  next
    case False
    then have "0 < length (concat (map encode ms))" by (cases ms) (auto simp: encode_def)
    moreover have "i + length (encode m) + length (concat (map encode ms)) = len" using Cons.prems(4) by simp
    ultimately have "i + length (encode m) < len" by linarith
    then have "bl_index b1 < int len" by (simp add: b1_def)
    then have l: "block_loop rnd mem len b = block_loop rnd mem len b1" using block_loop_step [OF step] by simp
    have "\<exists>b'. block_loop rnd mem len b1 = Some (Inr b') \<and> bl_static b' = parse_static0 \<and>
      map message_of (bl_frames b') = map message_of (bl_frames b1) @ ms"
      using Cons.prems False drop_behind [OF d] by (intro Cons.IH) (auto simp: b1_def)
    then show ?thesis unfolding l mo by simp
  qed
qed

lemma unpersist_messages:
  assumes ok: "\<forall>m\<in>set ms. msg_ok m" and len: "length (concat (map encode ms)) \<le> BUFFER_LEN"
    and info: "unpersist_queue_info dir fs = Inr (int (length pre))"
    and path: "sprintf_path dir FNAME_DATA = Inr p" and data: "fs_files fs p = Some (pre @ concat (map encode ms))"
  shows "\<exists>frs k'. unpersist_queue_context rnd k parse_static0 buf stack dir fs =
    Some (Inr (RET_SUCCESS, frs, parse_static0, k')) \<and> map message_of frs = ms"
proof -
  let ?b = "\<lparr>bl_index = 0, bl_frame = None, bl_static = parse_static0, bl_rand = k, bl_frames = []\<rparr>"
  let ?d = "concat (map encode ms)"
  have "\<exists>b. blocks_loop rnd stack (read_blocks ?d) buf ?b = Some (Inr b) \<and> bl_static b = parse_static0 \<and>
      map message_of (bl_frames b) = ms"
  proof (cases "ms = []")
    case True
    then show ?thesis by (simp add: read_blocks.simps)
  next
    case False
    then have "?d \<noteq> []" by (cases ms) (auto simp: encode_def)
    then have r: "read_blocks ?d = [?d]" using len by (simp add: read_blocks.simps [of ?d] read_blocks.simps [of "[]"])
    obtain b where "block_loop rnd (?d @ drop (length ?d) buf @ stack) (length ?d) ?b = Some (Inr b)"
      "bl_static b = parse_static0" "map message_of (bl_frames b) = ms"
      using block_loop_messages [OF ok False, of 0 "?d @ drop (length ?d) buf @ stack" _ "length ?d" ?b] by auto
    then show ?thesis by (simp add: r del: length_concat)
  qed
  then obtain b where "blocks_loop rnd stack (read_blocks ?d) buf ?b = Some (Inr b)" "bl_static b = parse_static0"
    "map message_of (bl_frames b) = ms" by blast
  then show ?thesis using info path data by (simp add: unpersist_queue_context_def)
qed

section \<open>The life of a queue\<close>

lemma data_not_sent: "join_path d FNAME_DATA \<noteq> join_path d' FNAME_SENT_INDEX"
proof
  assume "join_path d FNAME_DATA = join_path d' FNAME_SENT_INDEX"
  then have "last (join_path d FNAME_DATA) = last (join_path d' FNAME_SENT_INDEX)" by simp
  then show False by (simp add: join_path_def FNAME_DATA_def FNAME_SENT_INDEX_def cstr_id)
qed

lemma join_path_inj [simp]: "join_path d n = join_path d' n \<longleftrightarrow> cstr d = cstr d'"
  by (simp add: join_path_def)

lemma cstr_join_path [simp]: "cstr (join_path d n) = join_path d n"
  by (rule cstr_id) (simp add: join_path_def)

lemma sprintf_path_ok: "length (join_path d n) < MAX_PATH_LENGTH \<Longrightarrow> sprintf_path d n = Inr (join_path d n)"
  by (simp add: sprintf_path_def Let_def)

text \<open>
  What happens to a queue: a frame is handed to \<^verbatim>\<open>persist_frame\<close>, a sent frame to
  \<^verbatim>\<open>update_index_sent\<close>, and the persistent worker makes a pass. The sending workers of queues
  do not free frames, so that the frames are the same throughout.
\<close>

datatype queue_event = Save ptr | Sent ptr | Pass

fun persist_event :: "(path \<Rightarrow> bool) \<Rightarrow> (ptr \<Rightarrow> frame_t option) \<Rightarrow> byte list \<Rightarrow> queue_event \<Rightarrow> persistent_manager \<Rightarrow> persistent_manager res" where
  "persist_event open_ok frames qname (Save p) pm =
     and_then (persist_frame open_ok True frames p qname pm) (\<lambda>(_, pm). Inr pm)"
| "persist_event open_ok frames qname (Sent p) pm =
     (case frames p of None \<Rightarrow> Inl Use_After_Free
      | Some f \<Rightarrow> and_then (update_index_sent qname f pm) (\<lambda>(_, pm). Inr pm))"
| "persist_event open_ok frames qname Pass pm = and_then (persistent_worker frames pm) (\<lambda>(_, pm). Inr pm)"

definition saves :: "queue_event list \<Rightarrow> ptr list" where
  "saves evs = concat (map (\<lambda>e. case e of Save p \<Rightarrow> [p] | _ \<Rightarrow> []) evs)"

definition sents :: "queue_event list \<Rightarrow> ptr list" where
  "sents evs = concat (map (\<lambda>e. case e of Sent p \<Rightarrow> [p] | _ \<Rightarrow> []) evs)"

lemma saves_simps [simp]: "saves [] = []" "saves (Save p # es) = p # saves es" "saves (Sent p # es) = saves es" "saves (Pass # es) = saves es"
  by (simp_all add: saves_def)

lemma sents_simps [simp]: "sents [] = []" "sents (Save p # es) = sents es" "sents (Sent p # es) = p # sents es" "sents (Pass # es) = sents es"
  by (simp_all add: sents_def)

text \<open>
  The entry \<open>p\<close> of a queue between two events: \<open>bytes\<close> have been written, the frames \<open>wl\<close> are waiting,
  the sent index is \<open>sent\<close> and the index file begins with \<open>idx\<close>. The other queues have other
  hashes and directories, and their waiting frames are alive.
\<close>

definition queue_state :: "(ptr \<Rightarrow> frame_t option) \<Rightarrow> 64 word \<Rightarrow> path \<Rightarrow> ptr \<Rightarrow> byte list \<Rightarrow> frame_t list \<Rightarrow> int \<Rightarrow> byte list option
    \<Rightarrow> persistent_manager \<Rightarrow> bool" where
  "queue_state frames h d p bytes wl sent idx pm \<longleftrightarrow>
     p \<in> set (pm_list pm) \<and> \<not> GET (pm_status pm) STATUS_STOP \<and>
     (\<exists>q. pm_heap pm p = Some q \<and> qi_qid q = h \<and> qi_dir q = d \<and> map frames (qi_unpersistent q) = map Some wl \<and>
        qi_index_head q = qi_index_persistent q + sum_list (map f_size wl) \<and> qi_index_sent q = sent) \<and>
     fs_files (pm_fs pm) (join_path d FNAME_DATA) = Some bytes \<and>
     map_option (take 8) (fs_files (pm_fs pm) (join_path d FNAME_SENT_INDEX)) = idx \<and>
     (\<forall>x\<in>set (pm_list pm). x \<noteq> p \<longrightarrow> (\<exists>q. pm_heap pm x = Some q \<and> qi_qid q \<noteq> h \<and> cstr (qi_dir q) \<noteq> cstr d \<and>
        (\<forall>f\<in>set (qi_unpersistent q). frames f \<noteq> None)))"

lemma queue_state_other:
  assumes "queue_state frames h d p bytes wl sent idx pm" and "x \<in> set (pm_list pm)" and "x \<noteq> p"
  obtains q where "pm_heap pm x = Some q" "qi_qid q \<noteq> h" "cstr (qi_dir q) \<noteq> cstr d" "\<forall>f\<in>set (qi_unpersistent q). frames f \<noteq> None"
  using assms unfolding queue_state_def by blast

lemma queue_state_get:
  assumes "queue_state frames h d p bytes wl sent idx pm"
  shows "get_qinfo h pm = Inr (Some p)"
proof -
  have own: "p \<in> set (pm_list pm)" "map_option qi_qid (pm_heap pm p) = Some h" using assms by (auto simp: queue_state_def)
  have oth: "\<exists>i. map_option qi_qid (pm_heap pm x) = Some i \<and> i \<noteq> h" if "x \<in> set (pm_list pm)" "x \<noteq> p" for x
    by (rule queue_state_other [OF assms that]) auto
  have "\<not> list_ex (\<lambda>p. pm_heap pm p = None) (pm_list pm)" using own oth by (force simp: list_ex_iff)
  moreover have "find_last (\<lambda>p. map_option qi_qid (pm_heap pm p) = Some h) (pm_list pm) = Some p"
    using own oth by (intro find_last_unique) force+
  ultimately show ?thesis by (simp add: get_qinfo_def)
qed

lemma queue_state_save:
  assumes "queue_state frames (get_hash qname) d p bytes wl sent idx pm" and "frames x = Some f"
  shows "\<exists>pm'. persist_event open_ok frames qname (Save x) pm = Inr pm' \<and>
    queue_state frames (get_hash qname) d p bytes (wl @ [f]) sent idx pm'"
  using assms queue_state_get [OF assms(1)]
  by (auto simp: persist_frame_def create_qinfo_def queue_state_def upd_qinfo_def add_frame_into_qinfo_def)

lemma queue_state_sent:
  assumes "queue_state frames (get_hash qname) d p bytes wl sent idx pm" and "frames x = Some f"
  shows "\<exists>pm'. persist_event open_ok frames qname (Sent x) pm = Inr pm' \<and>
    queue_state frames (get_hash qname) d p bytes wl (sent + f_size f) idx pm'"
  using assms queue_state_get [OF assms(1)]
  by (auto simp: update_index_sent_def queue_state_def upd_qinfo_def)

lemma persist_entry_own:
  assumes "queue_state frames h d p bytes wl sent idx pm" and "\<forall>f\<in>set wl. 0 < f_size f"
  shows "\<exists>pm'. persist_entry frames p pm = Inr pm' \<and> pm_list pm' = pm_list pm \<and>
    queue_state frames h d p (bytes @ concat (map (encode \<circ> message_of) wl)) [] sent (Some (encode_long sent)) pm'"
proof -
  let ?dp = "join_path d FNAME_DATA" and ?sp = "join_path d FNAME_SENT_INDEX"
  obtain q where q: "pm_heap pm p = Some q" "qi_qid q = h" "qi_dir q = d" "map frames (qi_unpersistent q) = map Some wl"
      "qi_index_head q = qi_index_persistent q + sum_list (map f_size wl)" "qi_index_sent q = sent"
    using assms(1) by (auto simp: queue_state_def)
  define fs where "fs = persist_queue_info q (pm_fs pm)"
  have fs: "fs_files fs ?dp = Some bytes" "map_option (take 8) (fs_files fs ?sp) = Some (encode_long sent)"
    using assms(1) data_not_sent [of d d] by (auto simp: fs_def persist_queue_info_def queue_state_def q Let_def encode_long_def)
  show ?thesis
  proof (cases "wl = []")
    case True
    then have "persist_entry frames p pm = Inr (pm\<lparr>pm_fs := fs\<rparr>)" using q by (simp add: persist_entry_def fs_def Let_def)
    moreover have "queue_state frames h d p bytes [] sent (Some (encode_long sent)) (pm\<lparr>pm_fs := fs\<rparr>)"
      using assms(1) fs True by (simp add: queue_state_def)
    ultimately show ?thesis using True by auto
  next
    case False
    then have "0 < sum_list (map f_size wl)"
      using assms(2) by (cases wl) (auto intro!: add_pos_nonneg sum_list_nonneg simp: less_imp_le)
    then have g: "qi_index_head q > qi_index_persistent q" using q(5) by simp
    obtain q' fs' where w: "persist_queue_context frames q fs = Inr (RET_SUCCESS, q', fs')" "qi_unpersistent q' = []"
      "qi_index_persistent q' = qi_index_persistent q + sum_list (map f_size wl)"
      "content fs' ?dp = content fs ?dp @ concat (map (encode \<circ> message_of) wl)" "fs_files fs' ?dp \<noteq> None"
      "\<forall>p. p \<noteq> ?dp \<longrightarrow> fs_files fs' p = fs_files fs p" "qi_qid q' = qi_qid q \<and> qi_dir q' = qi_dir q \<and>
        qi_index_head q' = qi_index_head q \<and> qi_index_sent q' = qi_index_sent q"
      using persist_queue_context_ok [OF q(4), of fs] fs(1) q(3) by auto
    define pm' where "pm' = pm\<lparr>pm_heap := (pm_heap pm)(p \<mapsto> q'), pm_fs := fs'\<rparr>"
    have "persist_entry frames p pm = Inr pm'" using q(1) g w(1) by (simp add: persist_entry_def fs_def Let_def pm'_def)
    moreover have "fs_files fs' ?dp = Some (bytes @ concat (map (encode \<circ> message_of) wl))"
      using w(4,5) fs(1) by (auto simp: content_def)
    moreover have "map_option (take 8) (fs_files fs' ?sp) = Some (encode_long sent)"
      using w(6) fs(2) data_not_sent [of d d] by metis
    ultimately show ?thesis using assms(1) w q by (auto simp: queue_state_def pm'_def)
  qed
qed

lemma persist_entry_other:
  assumes "queue_state frames h d p bytes wl sent idx pm" and "x \<in> set (pm_list pm)" and "x \<noteq> p"
  shows "\<exists>pm'. persist_entry frames x pm = Inr pm' \<and> pm_list pm' = pm_list pm \<and>
    queue_state frames h d p bytes wl sent idx pm'"
proof -
  obtain q where q: "pm_heap pm x = Some q" "qi_qid q \<noteq> h" "cstr (qi_dir q) \<noteq> cstr d" "\<forall>f\<in>set (qi_unpersistent q). frames f \<noteq> None"
    using queue_state_other [OF assms] by blast
  define fs where "fs = persist_queue_info q (pm_fs pm)"
  have fs: "fs_files fs (join_path d FNAME_DATA) = fs_files (pm_fs pm) (join_path d FNAME_DATA)"
    "fs_files fs (join_path d FNAME_SENT_INDEX) = fs_files (pm_fs pm) (join_path d FNAME_SENT_INDEX)"
    using q(3) by (auto simp: fs_def persist_queue_info_def Let_def data_not_sent)
  show ?thesis
  proof (cases "qi_index_head q > qi_index_persistent q")
    case False
    then have "persist_entry frames x pm = Inr (pm\<lparr>pm_fs := fs\<rparr>)" using q(1) by (simp add: persist_entry_def fs_def Let_def)
    then show ?thesis using assms(1) fs by (simp add: queue_state_def)
  next
    case True
    define wl' where "wl' = map (\<lambda>f. the (frames f)) (qi_unpersistent q)"
    have wl': "map frames (qi_unpersistent q) = map Some wl'" using q(4) by (simp add: wl'_def)
    obtain q' fs' where w: "persist_queue_context frames q fs = Inr (RET_SUCCESS, q', fs')" "qi_unpersistent q' = []"
      "\<forall>p. p \<noteq> join_path (qi_dir q) FNAME_DATA \<longrightarrow> fs_files fs' p = fs_files fs p" "qi_qid q' = qi_qid q \<and> qi_dir q' = qi_dir q"
      using persist_queue_context_ok [OF wl', of fs] by auto
    define pm' where "pm' = pm\<lparr>pm_heap := (pm_heap pm)(x \<mapsto> q'), pm_fs := fs'\<rparr>"
    have "persist_entry frames x pm = Inr pm'" using q(1) True w(1) by (simp add: persist_entry_def fs_def Let_def pm'_def)
    moreover have "fs_files fs' (join_path d FNAME_DATA) = fs_files fs (join_path d FNAME_DATA)"
      "fs_files fs' (join_path d FNAME_SENT_INDEX) = fs_files fs (join_path d FNAME_SENT_INDEX)"
      using w(3) q(3) data_not_sent by (simp, metis)
    ultimately show ?thesis using assms q w fs by (auto simp: queue_state_def pm'_def)
  qed
qed

text \<open>A pass of the worker over the list of queues.\<close>

lemma persist_round_state:
  assumes "queue_state frames h d p bytes wl sent idx pm" and "\<forall>f\<in>set wl. 0 < f_size f" and "set xs \<subseteq> set (pm_list pm)"
  shows "\<exists>pm'. each_res (persist_entry frames) xs pm = Inr pm' \<and> pm_list pm' = pm_list pm \<and>
    (if p \<in> set xs
     then queue_state frames h d p (bytes @ concat (map (encode \<circ> message_of) wl)) [] sent (Some (encode_long sent)) pm'
     else queue_state frames h d p bytes wl sent idx pm')"
  using assms
proof (induction xs arbitrary: bytes wl idx pm)
  case Nil
  then show ?case by simp
next
  case (Cons x xs)
  show ?case
  proof (cases "x = p")
    case True
    obtain pm1 where pm1: "persist_entry frames p pm = Inr pm1" "pm_list pm1 = pm_list pm"
      "queue_state frames h d p (bytes @ concat (map (encode \<circ> message_of) wl)) [] sent (Some (encode_long sent)) pm1"
      using persist_entry_own [OF Cons.prems(1,2)] by blast
    with Cons.IH [OF pm1(3)] Cons.prems(3) True show ?thesis by (auto split: if_splits)
  next
    case False
    obtain pm1 where pm1: "persist_entry frames x pm = Inr pm1" "pm_list pm1 = pm_list pm"
      "queue_state frames h d p bytes wl sent idx pm1"
      using persist_entry_other [OF Cons.prems(1) _ False] Cons.prems(3) by auto
    with Cons.IH [OF pm1(3) Cons.prems(2)] Cons.prems(3) False show ?thesis by (auto split: if_splits)
  qed
qed

lemma queue_state_pass:
  assumes "queue_state frames h d p bytes wl sent idx pm" and "\<forall>f\<in>set wl. 0 < f_size f"
  shows "\<exists>pm'. persist_event open_ok frames qname Pass pm = Inr pm' \<and>
    queue_state frames h d p (bytes @ concat (map (encode \<circ> message_of) wl)) [] sent (Some (encode_long sent)) pm'"
proof -
  have "p \<in> set (pm_list pm)" "\<not> GET (pm_status pm) STATUS_STOP" using assms(1) by (simp_all add: queue_state_def)
  then show ?thesis
    using persist_round_state [OF assms subset_refl] by (auto simp: persistent_worker_def persist_round_def)
qed

text \<open>A whole history, and its last pass.\<close>

lemma queue_history:
  assumes "queue_state frames (get_hash qname) d p bytes wl sent idx pm" and "\<forall>f\<in>set (wl @ fl). 0 < f_size f"
    and "map frames (saves evs) = map Some fl" and "map frames (sents evs) = map Some gl"
  shows "\<exists>pm' bytes' wl' idx'. each_res (persist_event open_ok frames qname) evs pm = Inr pm' \<and>
    queue_state frames (get_hash qname) d p bytes' wl' (sent + sum_list (map f_size gl)) idx' pm' \<and> (\<forall>f\<in>set wl'. 0 < f_size f) \<and>
    bytes' @ concat (map (encode \<circ> message_of) wl') = bytes @ concat (map (encode \<circ> message_of) (wl @ fl))"
  using assms
proof (induction evs arbitrary: bytes wl sent idx pm fl gl)
  case Nil
  then show ?case by auto
next
  case (Cons e evs)
  show ?case
  proof (cases e)
    case (Save x)
    then obtain f fl' where fl: "fl = f # fl'" "frames x = Some f" "map frames (saves evs) = map Some fl'"
      using Cons.prems(3) by (cases fl) auto
    obtain pm1 where "persist_event open_ok frames qname (Save x) pm = Inr pm1"
      "queue_state frames (get_hash qname) d p bytes (wl @ [f]) sent idx pm1"
      using queue_state_save [OF Cons.prems(1) fl(2), of open_ok] by blast
    with Cons.IH [of bytes "wl @ [f]" sent idx pm1 fl' gl] Cons.prems(2,4) fl Save show ?thesis by simp
  next
    case (Sent x)
    then obtain f gl' where gl: "gl = f # gl'" "frames x = Some f" "map frames (sents evs) = map Some gl'"
      using Cons.prems(4) by (cases gl) auto
    obtain pm1 where "persist_event open_ok frames qname (Sent x) pm = Inr pm1"
      "queue_state frames (get_hash qname) d p bytes wl (sent + f_size f) idx pm1"
      using queue_state_sent [OF Cons.prems(1) gl(2), of open_ok] by blast
    with Cons.IH [of bytes wl "sent + f_size f" idx pm1 fl gl'] Cons.prems(2,3) gl Sent show ?thesis
      by (simp add: add.assoc)
  next
    case Pass
    obtain pm1 where "persist_event open_ok frames qname Pass pm = Inr pm1"
      "queue_state frames (get_hash qname) d p (bytes @ concat (map (encode \<circ> message_of) wl)) [] sent (Some (encode_long sent)) pm1"
      using queue_state_pass [OF Cons.prems(1), of open_ok qname] Cons.prems(2) by auto
    with Cons.IH [of "bytes @ concat (map (encode \<circ> message_of) wl)" "[]" sent "Some (encode_long sent)" pm1 fl gl]
      Cons.prems(2-4) Pass show ?thesis by (simp add: o_def)
  qed
qed

lemma each_res_append: "each_res f (xs @ ys) s = and_then (each_res f xs s) (each_res f ys)"
  by (induction xs arbitrary: s) (auto simp: and_then_def split: sum.splits)

lemma queue_history_end:
  assumes "queue_state frames (get_hash qname) d p bytes wl sent idx pm" and "\<forall>f\<in>set (wl @ fl). 0 < f_size f"
    and "map frames (saves evs) = map Some fl" and "map frames (sents evs) = map Some gl"
  defines "n \<equiv> sent + sum_list (map f_size gl)"
  shows "\<exists>pm'. each_res (persist_event open_ok frames qname) (evs @ [Pass]) pm = Inr pm' \<and>
    queue_state frames (get_hash qname) d p (bytes @ concat (map (encode \<circ> message_of) (wl @ fl))) [] n (Some (encode_long n)) pm'"
proof -
  obtain pm1 bytes' wl' idx' where 1: "each_res (persist_event open_ok frames qname) evs pm = Inr pm1"
    "queue_state frames (get_hash qname) d p bytes' wl' n idx' pm1" "\<forall>f\<in>set wl'. 0 < f_size f"
    "bytes' @ concat (map (encode \<circ> message_of) wl') = bytes @ concat (map (encode \<circ> message_of) (wl @ fl))"
    using queue_history [OF assms(1-4), of open_ok] unfolding n_def by blast
  from queue_state_pass [OF 1(2,3), of open_ok qname] 1 show ?thesis by (auto simp: each_res_append)
qed

text \<open>A queue that has no entry and no files yet; its first frame creates them.\<close>

definition new_queue :: "byte list \<Rightarrow> (ptr \<Rightarrow> frame_t option) \<Rightarrow> persistent_manager \<Rightarrow> bool" where
  "new_queue qname frames pm \<longleftrightarrow>
     (let d = join_path (pm_datadir pm) qname in
      length (join_path d FNAME_SENT_INDEX) < MAX_PATH_LENGTH \<and> fs_files (pm_fs pm) d = None \<and>
      fs_files (pm_fs pm) (join_path d FNAME_DATA) = None \<and> fs_files (pm_fs pm) (join_path d FNAME_SENT_INDEX) = None \<and>
      \<not> GET (pm_status pm) STATUS_STOP \<and>
      (\<forall>x\<in>set (pm_list pm). x \<noteq> pm_next pm \<and> (\<exists>q. pm_heap pm x = Some q \<and> qi_qid q \<noteq> get_hash qname \<and> cstr (qi_dir q) \<noteq> d \<and>
         (\<forall>f\<in>set (qi_unpersistent q). frames f \<noteq> None))))"

lemma new_queue_mono:
  assumes "new_queue qname F pm" and live: "\<And>f. F f \<noteq> None \<Longrightarrow> G f \<noteq> None"
  shows "new_queue qname G pm"
proof -
  have "\<forall>f\<in>A. G f \<noteq> None" if "\<forall>f\<in>A. F f \<noteq> None" for A using live that by blast
  note L = this
  show ?thesis using assms(1) unfolding new_queue_def Let_def by (elim conjE, intro conjI) (assumption | (intro ballI, drule (1) bspec, use L in fast))+
qed

lemma fs_files_mkdirs [simp]: "fs_files (fold mkdir ps fs) = fs_files fs"
  by (induction ps arbitrary: fs) (simp_all add: mkdir_def)

lemma new_queue_save:
  assumes "new_queue qname frames pm" and "\<forall>p. open_ok p" and "frames x = Some f"
  defines "d \<equiv> join_path (pm_datadir pm) qname"
  shows "\<exists>pm'. persist_event open_ok frames qname (Save x) pm = Inr pm' \<and>
    queue_state frames (get_hash qname) d (pm_next pm) [] [f] 0 (Some (encode_long 0)) pm'"
proof -
  note nq = assms(1) [unfolded new_queue_def Let_def, folded d_def]
  have len: "length (join_path d FNAME_SENT_INDEX) < MAX_PATH_LENGTH" using nq by simp
  then have "length d < MAX_PATH_LENGTH" "length (join_path d FNAME_DATA) < MAX_PATH_LENGTH" "strlen d < MAX_PATH_LENGTH" "strlen d \<noteq> 0"
    by (simp_all add: join_path_def [of d] FNAME_SENT_INDEX_def FNAME_DATA_def strlen_def)
      (simp_all add: d_def join_path_def cstr_id)
  note paths = this
  have sp: "sprintf_path (pm_datadir pm) qname = Inr d" "sprintf_path d FNAME_DATA = Inr (join_path d FNAME_DATA)"
    "sprintf_path d FNAME_SENT_INDEX = Inr (join_path d FNAME_SENT_INDEX)"
    using sprintf_path_ok len paths by (simp_all add: d_def)
  obtain ps where mk: "mkdir_recursive d = Inr ps"
    using paths by (auto simp: mkdir_recursive_def MAX_PATH_LENGTH_def Let_def)
  have g: "get_qinfo (get_hash qname) pm = Inr None"
    using nq by (force simp: get_qinfo_def list_ex_iff find_last_None_iff)
  define fs0 where "fs0 = (if fs_dirs (pm_fs pm) d then pm_fs pm else fold mkdir ps (pm_fs pm))"
  have fs0: "fs_files fs0 = fs_files (pm_fs pm)" by (simp add: fs0_def)
  define q where "q = \<lparr>qi_qid = get_hash qname, qi_dir = d, qi_unpersistent = [], qi_index_head = 0, qi_index_sent = 0, qi_index_persistent = 0\<rparr>"
  define fs where "fs = persist_queue_info q (set_file (join_path d FNAME_SENT_INDEX) [] (set_file (join_path d FNAME_DATA) [] fs0))"
  define pm1 where "pm1 = pm\<lparr>pm_fs := fs, pm_heap := (pm_heap pm)(pm_next pm \<mapsto> q), pm_list := pm_list pm @ [pm_next pm],
    pm_next := pm_next pm + 1\<rparr>"
  have "alloc_qinfo open_ok True qname pm = Inr (Some q, pm\<lparr>pm_fs := fs\<rparr>)"
    using nq data_not_sent [of d d] fs0 assms(2)
    by (simp add: alloc_qinfo_def sp mk Let_def fs_def q_def content_def fs0_def)
  then have c: "create_qinfo open_ok True qname pm = Inr (pm_next pm, pm1)"
    by (simp add: create_qinfo_def g pm1_def)
  have "queue_state frames (get_hash qname) d (pm_next pm) [] [] 0 (Some (encode_long 0)) pm1"
    using nq data_not_sent [of d d]
    by (auto simp: queue_state_def pm1_def q_def fs_def persist_queue_info_def Let_def encode_long_def cstr_id d_def)
  from queue_state_save [OF this assms(3), of open_ok] c queue_state_get [OF this] show ?thesis
    by (simp add: persist_frame_def create_qinfo_def g)
qed

section \<open>Properties\<close>

text \<open>
  The messages that have been received, as the frames that are saved: their wire forms and their sizes.
\<close>

definition size_of :: "message \<Rightarrow> int" where
  "size_of m = int (length (encode m)) - (if msg_body m = [] then 1 else 0)"

lemma size_of_delivered: "f_size (delivered os sock c k m) = size_of m"
  by (simp add: delivered_def frame_of_def size_of_def)

lemma size_of_pos: "0 < size_of m"
  by (simp add: size_of_def encode_def)

lemma size_of_all: "sum_list (map size_of ms) =
  int (length (concat (map encode ms))) - int (length (filter (\<lambda>m. msg_body m = []) ms))"
  by (induction ms) (auto simp: size_of_def)

lemma received_history:
  assumes idle: "conn_idle cinfo" and ok: "\<forall>m\<in>set ms. msg_ok m"
    and evs: "evs = Save p # evs'" "saves evs = [ss_next st ..< ss_next st + length ms]" "sents evs = take n (saves evs)"
    and new: "new_queue qname (\<lambda>p. if p < ss_next st then ss_frames st p else None) pm" and op: "\<forall>p. open_ok p"
  defines "d \<equiv> join_path (pm_datadir pm) qname"
    and "i \<equiv> int (length (concat (map encode (take n ms)))) - int (length (filter (\<lambda>m. msg_body m = []) (take n ms)))"
  shows "\<exists>st' pm' q. recv_data os (concat (map encode ms) @ t) (int (length (concat (map encode ms)))) sock c cinfo st =
      Some (Inr (RET_SUCCESS, cinfo, st')) \<and>
    each_res (persist_event open_ok (ss_frames st') qname) (evs @ [Pass]) pm = Inr pm' \<and>
    get_qinfo (get_hash qname) pm' = Inr (Some (pm_next pm)) \<and> pm_heap pm' (pm_next pm) = Some q \<and> qi_index_sent q = i \<and>
    fs_files (pm_fs pm') (join_path d FNAME_DATA) = Some (concat (map encode ms)) \<and>
    map_option (take 8) (fs_files (pm_fs pm') (join_path d FNAME_SENT_INDEX)) = Some (encode_long i)"
proof -
  define st' where "st' = fold (deliver os sock c) ms st"
  define fl where "fl = map (\<lambda>i. delivered os sock c (ss_rand st + i * (FRAME_ID_LEN - 1)) (ms ! i)) [0..<length ms]"
  have fl: "map (ss_frames st') [ss_next st ..< ss_next st + length ms] = map Some fl" "length fl = length ms"
    by (rule nth_equalityI; simp add: fl_def st'_def deliver_new) (simp add: fl_def)
  have sz: "map f_size fl = map size_of ms" and mo: "map message_of fl = ms"
    using ok by (auto simp: fl_def size_of_delivered message_of_delivered intro!: nth_equalityI)
  have pos: "\<forall>f\<in>set fl. 0 < f_size f" by (auto simp: fl_def size_of_delivered size_of_pos)
  have enc: "map (encode \<circ> message_of) fl = map encode ms" using mo by (metis map_map)
  obtain f fl' where cons: "fl = f # fl'" "ss_frames st' p = Some f" "map (ss_frames st') (saves evs') = map Some fl'"
    using fl(1) evs(1,2) by (cases fl) auto
  have sent: "map (ss_frames st') (sents evs') = map Some (take n fl)"
    using evs fl(1) by (metis sents_simps(2) take_map)
  have "ss_frames st' f \<noteq> None" if "(if f < ss_next st then ss_frames st f else None) \<noteq> None" for f
    using that by (auto simp: st'_def deliver_old split: if_splits)
  then have "new_queue qname (ss_frames st') pm" by (rule new_queue_mono [OF new])
  from new_queue_save [OF this op cons(2)] obtain pm1 where
    1: "persist_event open_ok (ss_frames st') qname (Save p) pm = Inr pm1"
      "queue_state (ss_frames st') (get_hash qname) d (pm_next pm) [] [f] 0 (Some (encode_long 0)) pm1"
    unfolding d_def by blast
  have i: "0 + sum_list (map f_size (take n fl)) = i"
    using size_of_all [of "take n ms"] by (simp add: i_def take_map [symmetric] sz)
  obtain pm' where 2: "each_res (persist_event open_ok (ss_frames st') qname) (evs' @ [Pass]) pm1 = Inr pm'"
    "queue_state (ss_frames st') (get_hash qname) d (pm_next pm) ([] @ concat (map (encode \<circ> message_of) ([f] @ fl'))) [] i (Some (encode_long i)) pm'"
    using queue_history_end [OF 1(2) _ cons(3) sent, of open_ok] pos unfolding i by (auto simp: cons(1))
  have "[] @ concat (map (encode \<circ> message_of) ([f] @ fl')) = concat (map encode ms)"
    unfolding enc [symmetric] by (simp add: cons(1))
  with 2(2) have "fs_files (pm_fs pm') (join_path d FNAME_DATA) = Some (concat (map encode ms))"
    by (simp add: queue_state_def)
  moreover have "recv_data os (concat (map encode ms) @ t) (int (length (concat (map encode ms)))) sock c cinfo st =
      Some (Inr (RET_SUCCESS, cinfo, st'))"
    unfolding st'_def by (rule recv_data_all [OF idle ok])
  ultimately show ?thesis
    using 1(1) 2 queue_state_get [OF 2(2)] by (auto simp: evs(1) queue_state_def)
qed

text \<open>
  C13. A queue survives a restart. Messages are received, and their frames are handed to
  persistence for a queue that does not exist yet; at any moments in between, the
  persistent worker makes passes over all its queues, and the first \<open>n\<close> frames are sent
  (\<^verbatim>\<open>update_index_sent\<close>), in order. After one more pass, reading the queue's directory at the
  next start gives one frame for every message that was not sent, in order and equal to
  the original, as long as these fit into one read block of 1024 bytes and the sent ones
  have a body (see \<open>sent_index_accounting\<close>). All sizes and indexes are the ones the code
  computes; the other queues only need other directories and hashes and live frames.
\<close>

theorem queue_survives_restart:
  assumes "conn_idle cinfo" and "\<forall>m\<in>set ms. msg_ok m"
    and "evs = Save p # evs'" and "saves evs = [ss_next st ..< ss_next st + length ms]" and "sents evs = take n (saves evs)"
    and "new_queue qname (\<lambda>p. if p < ss_next st then ss_frames st p else None) pm" and "\<forall>p. open_ok p"
    and "\<forall>m\<in>set (take n ms). msg_body m \<noteq> []" and "int (length (concat (map encode (take n ms)))) < 2 ^ 63"
    and "length (concat (map encode (drop n ms))) \<le> BUFFER_LEN"
  shows "\<exists>st' pm' frs k'. recv_data os (concat (map encode ms) @ t) (int (length (concat (map encode ms)))) sock c cinfo st =
      Some (Inr (RET_SUCCESS, cinfo, st')) \<and>
    each_res (persist_event open_ok (ss_frames st') qname) (evs @ [Pass]) pm = Inr pm' \<and>
    unpersist_queue_context rnd k parse_static0 buf stack (join_path (pm_datadir pm) qname) (pm_fs pm') =
      Some (Inr (RET_SUCCESS, frs, parse_static0, k')) \<and>
    map message_of frs = drop n ms"
proof -
  define d where "d = join_path (pm_datadir pm) qname"
  define pre where "pre = concat (map encode (take n ms))"
  have "filter (\<lambda>m. msg_body m = []) (take n ms) = []" using assms(8) by (simp add: filter_empty_conv)
  then obtain st' pm' where 1: "recv_data os (concat (map encode ms) @ t) (int (length (concat (map encode ms)))) sock c cinfo st =
      Some (Inr (RET_SUCCESS, cinfo, st'))" "each_res (persist_event open_ok (ss_frames st') qname) (evs @ [Pass]) pm = Inr pm'"
    "fs_files (pm_fs pm') (join_path d FNAME_DATA) = Some (concat (map encode ms))"
    "map_option (take 8) (fs_files (pm_fs pm') (join_path d FNAME_SENT_INDEX)) = Some (encode_long (int (length pre)))"
    using received_history [OF assms(1-7), of os t sock c] unfolding d_def pre_def by auto
  have len: "length (join_path d FNAME_SENT_INDEX) < MAX_PATH_LENGTH"
    using assms(6) by (simp add: new_queue_def Let_def d_def)
  then have "length (join_path d FNAME_DATA) < MAX_PATH_LENGTH" by (simp add: join_path_def FNAME_DATA_def FNAME_SENT_INDEX_def)
  then have path: "sprintf_path d FNAME_DATA = Inr (join_path d FNAME_DATA)" by (rule sprintf_path_ok)
  obtain b where b: "fs_files (pm_fs pm') (join_path d FNAME_SENT_INDEX) = Some b" "take 8 b = encode_long (int (length pre))"
    using 1(4) by auto
  have "decode_long b = decode_long (encode_long (int (length pre)) @ drop 8 b)" using b(2) by (metis append_take_drop_id)
  also have "\<dots> = int (length pre)" using assms(9) by (intro decode_encode_long) (simp_all add: pre_def)
  finally have info: "unpersist_queue_info d (pm_fs pm') = Inr (int (length pre))"
    using b(1) sprintf_path_ok [OF len] by (simp add: unpersist_queue_info_def)
  have "concat (map encode ms) = pre @ concat (map encode (drop n ms))"
    unfolding pre_def by (metis append_take_drop_id concat_append map_append)
  then have data: "fs_files (pm_fs pm') (join_path d FNAME_DATA) = Some (pre @ concat (map encode (drop n ms)))"
    using 1(3) by simp
  have "\<forall>m\<in>set (drop n ms). msg_ok m" using assms(2) by (meson in_set_dropD)
  from unpersist_messages [OF this assms(10) info path data, of rnd k buf stack] 1(1,2) show ?thesis unfolding d_def by blast
qed

text \<open>A queue of one sent and one waiting message, for the witnesses.\<close>

definition qinfo1 :: queue_info where
  "qinfo1 = \<lparr>qi_qid = 0, qi_dir = ''/d/q'', qi_unpersistent = [1], qi_index_head = 0,
     qi_index_sent = int (length (concat (map encode [msg1]))), qi_index_persistent = 0\<rparr>"

definition fs1 :: fs where
  "fs1 = \<lparr>fs_files = [join_path ''/d/q'' FNAME_DATA \<mapsto> concat (map encode ([msg1] @ [msg2]))], fs_dirs = (\<lambda>_. False)\<rparr>"

text \<open>A manager without queues, and no files.\<close>

definition pm0 :: persistent_manager where
  "pm0 = \<lparr>pm_heap = (\<lambda>_. None), pm_list = [], pm_next = 1, pm_datadir = ''/d'', pm_status = STATUS_INITIALIZED,
     pm_fs = \<lparr>fs_files = (\<lambda>_. None), fs_dirs = (\<lambda>_. False)\<rparr>\<rparr>"

theorem queue_survives_restart_witness:
  "\<exists>st' pm' frs k'. recv_data os0 (concat (map encode [msg1, msg1]) @ []) (int (length (concat (map encode [msg1, msg1])))) 4 9 conn0 st0 =
      Some (Inr (RET_SUCCESS, conn0, st')) \<and>
    each_res (persist_event (\<lambda>_. True) (ss_frames st') ''q'') ([Save 1, Pass, Save 2, Sent 1] @ [Pass]) pm0 = Inr pm' \<and>
    unpersist_queue_context (\<lambda>i. i) 0 parse_static0 [] [] (join_path (pm_datadir pm0) ''q'') (pm_fs pm') =
      Some (Inr (RET_SUCCESS, frs, parse_static0, k')) \<and>
    map message_of frs = drop 1 [msg1, msg1]"
proof (rule queue_survives_restart [OF _ _ refl])
  show "conn_idle conn0" by (simp add: conn_idle_def conn0_def)
  show "\<forall>m\<in>set [msg1, msg1]. msg_ok m" using msgs_ok by simp
  show "new_queue ''q'' (\<lambda>p. if p < ss_next st0 then ss_frames st0 p else None) pm0"
    by (simp add: new_queue_def pm0_def Let_def join_path_def cstr_id FNAME_SENT_INDEX_def MAX_PATH_LENGTH_def STATUS_INITIALIZED_def
        STATUS_STOP_def GET_def)
  show "int (length (concat (map encode (take 1 [msg1, msg1])))) < 2 ^ 63"
    "length (concat (map encode (drop 1 [msg1, msg1]))) \<le> BUFFER_LEN"
    by (simp_all add: msg1_def encode_def encode_headers_def BUFFER_LEN_def)
  show "\<forall>m\<in>set (take 1 [msg1, msg1]). msg_body m \<noteq> []" by (simp add: msg1_def)
qed (simp_all add: st0_def upt_rec)

text \<open>
  C34. A frame that is larger than the read block is not restored. When the first unsent
  message of a queue is longer than 1024 bytes (without its null byte), and its command and
  header lines with the blank line are shorter, so that the block ends inside its body,
  reading the queue back runs into the overflow of \<^verbatim>\<open>parse_frame\<close> instead of returning frames.
\<close>

theorem large_frame_not_restored:
  assumes "msg_ok m" and "BUFFER_LEN < length (encode m) - 1" and "length (encode_head m) + 1 < BUFFER_LEN"
    and "unpersist_queue_info dir fs = Inr (int (length pre))" and "sprintf_path dir FNAME_DATA = Inr p"
    and "fs_files fs p = Some (pre @ encode m @ rest)"
  shows "unpersist_queue_context rnd k parse_static0 buf stack dir fs = Some (Inl Buffer_Overflow)"
proof -
  define n where "n = BUFFER_LEN - (length (encode_head m) + 1)"
  define b1 where "b1 = take n (msg_body m)"
  define d where "d = encode m @ rest"
  have len: "length (encode m) = length (encode_head m) + 2 + length (msg_body m)" by (simp add: encode_head)
  have n: "n < length (msg_body m)" "0 < n" using assms(2,3) len by (simp_all add: n_def)
  have b1: "msg_body m = b1 @ drop n (msg_body m)" "b1 \<noteq> []" "drop n (msg_body m) \<noteq> []" "length b1 = n"
    using n by (auto simp: b1_def)
  have bl: "take BUFFER_LEN d = encode_head m @ NL # b1" "length (encode_head m @ NL # b1) = BUFFER_LEN"
    using n assms(3) by (simp_all add: d_def encode_head b1_def n_def take_Cons' )
  have "d \<noteq> []" by (simp add: d_def encode_def)
  then have rb: "read_blocks d = (encode_head m @ NL # b1) # read_blocks (drop BUFFER_LEN d)"
    using bl(1) by (subst read_blocks.simps) simp
  have "length b1 \<le> LD_MAX" using b1(4) by (simp add: n_def BUFFER_LEN_def size_consts)
  then have pf: "parse_frame rnd k parse_static0 alloc_frame (encode_head m @ NL # b1 @ t) BUFFER_LEN = Inl Buffer_Overflow" for t
    using parse_frame_cut [OF assms(1) b1(1-3)] bl(2) by simp
  define b where "b = \<lparr>bl_index = 0, bl_frame = None, bl_static = parse_static0, bl_rand = k, bl_frames = []\<rparr>"
  have "block_step rnd ((encode_head m @ NL # b1) @ t) BUFFER_LEN b = Inl Buffer_Overflow" for t
    using pf by (simp add: block_step_def b_def)
  then have "block_loop rnd ((encode_head m @ NL # b1) @ t) BUFFER_LEN b = Some (Inl Buffer_Overflow)" for t
    unfolding block_loop_def by (simp add: while_option_exit)
  then have "blocks_loop rnd stack (read_blocks d) buf b = Some (Inl Buffer_Overflow)"
    using bl(2) by (simp add: rb b_def)
  then show ?thesis using assms(4-6) by (simp add: unpersist_queue_context_def b_def d_def)
qed

definition msg3 :: message where
  "msg3 = \<lparr>msg_name = ''SEND'', msg_headers = [''content-length:2000''], msg_body = replicate 2000 (CHR ''x'')\<rparr>"

theorem large_frame_not_restored_witness:
  "unpersist_queue_context (\<lambda>i. i) 0 parse_static0 [] [] ''/d''
     \<lparr>fs_files = [join_path ''/d'' FNAME_SENT_INDEX \<mapsto> encode_long 0, join_path ''/d'' FNAME_DATA \<mapsto> [] @ encode msg3 @ []],
      fs_dirs = (\<lambda>_. False)\<rparr> = Some (Inl Buffer_Overflow)"
proof (rule large_frame_not_restored)
  have "fold cl_step [''content-length:2000''] (- 1) = 2000" by code_simp
  then show "msg_ok msg3" by (simp add: msg_ok_def msg3_def finfo_arr_def header_ok_def size_consts is_space_def)
  show "BUFFER_LEN < length (encode msg3) - 1" "length (encode_head msg3) + 1 < BUFFER_LEN"
    by (simp_all add: msg3_def encode_def encode_head_def encode_headers_def BUFFER_LEN_def)
  show "sprintf_path ''/d'' FNAME_DATA = Inr (join_path ''/d'' FNAME_DATA)"
    by (simp add: sprintf_path_def join_path_def FNAME_DATA_def MAX_PATH_LENGTH_def)
  have "decode_long (encode_long 0) = 0" using decode_encode_long [of 0 "[]"] by simp
  then show "unpersist_queue_info ''/d'' \<lparr>fs_files = [join_path ''/d'' FNAME_SENT_INDEX \<mapsto> encode_long 0,
      join_path ''/d'' FNAME_DATA \<mapsto> [] @ encode msg3 @ []], fs_dirs = (\<lambda>_. False)\<rparr> = Inr (int (length ([] :: byte list)))"
    by (simp add: unpersist_queue_info_def sprintf_path_def join_path_def FNAME_DATA_def FNAME_SENT_INDEX_def MAX_PATH_LENGTH_def)
qed simp

text \<open>
  C35. The sent index counts one byte too few for every message without a body. Messages are
  received and their frames persisted in a new queue, with passes of the worker and the
  first \<open>n\<close> frames sent at any moments, as before. After a last pass the data file holds the
  wire form of every message, but the size of a frame that ended at its blank line leaves
  out the null byte: the queue's \<^verbatim>\<open>index_sent\<close>, in memory and in the index file, is the number of
  bytes written for the sent messages minus the number of those with an empty body, so that
  the next start begins to read that many bytes before the first unsent message.
\<close>

theorem sent_index_accounting:
  assumes "conn_idle cinfo" and "\<forall>m\<in>set ms. msg_ok m"
    and "evs = Save p # evs'" and "saves evs = [ss_next st ..< ss_next st + length ms]" and "sents evs = take n (saves evs)"
    and "new_queue qname (\<lambda>p. if p < ss_next st then ss_frames st p else None) pm" and "\<forall>p. open_ok p"
    and "d = join_path (pm_datadir pm) qname"
    and "i = int (length (concat (map encode (take n ms)))) - int (length (filter (\<lambda>m. msg_body m = []) (take n ms)))"
  shows "\<exists>st' pm' q. recv_data os (concat (map encode ms) @ t) (int (length (concat (map encode ms)))) sock c cinfo st =
      Some (Inr (RET_SUCCESS, cinfo, st')) \<and>
    each_res (persist_event open_ok (ss_frames st') qname) (evs @ [Pass]) pm = Inr pm' \<and>
    get_qinfo (get_hash qname) pm' = Inr (Some (pm_next pm)) \<and> pm_heap pm' (pm_next pm) = Some q \<and> qi_index_sent q = i \<and>
    fs_files (pm_fs pm') (join_path d FNAME_DATA) = Some (concat (map encode ms)) \<and>
    map_option (take 8) (fs_files (pm_fs pm') (join_path d FNAME_SENT_INDEX)) = Some (encode_long i)"
  unfolding assms(8,9) by (rule received_history [OF assms(1-7)])

text \<open>A message that ends at its blank line.\<close>

definition msg_bare :: message where
  "msg_bare = \<lparr>msg_name = ''SEND'', msg_headers = [''content-length:0''], msg_body = []\<rparr>"

theorem sent_index_accounting_witness:
  "\<exists>st' pm' q. recv_data os0 (concat (map encode [msg_bare, msg1]) @ []) (int (length (concat (map encode [msg_bare, msg1])))) 4 9 conn0 st0 =
      Some (Inr (RET_SUCCESS, conn0, st')) \<and>
    each_res (persist_event (\<lambda>_. True) (ss_frames st') ''q'') ([Save 1, Pass, Save 2, Sent 1] @ [Pass]) pm0 = Inr pm' \<and>
    get_qinfo (get_hash ''q'') pm' = Inr (Some (pm_next pm0)) \<and> pm_heap pm' (pm_next pm0) = Some q \<and>
      qi_index_sent q = int (length (encode msg_bare)) - 1 \<and>
    fs_files (pm_fs pm') (join_path (join_path (pm_datadir pm0) ''q'') FNAME_DATA) = Some (concat (map encode [msg_bare, msg1])) \<and>
    map_option (take 8) (fs_files (pm_fs pm') (join_path (join_path (pm_datadir pm0) ''q'') FNAME_SENT_INDEX)) =
      Some (encode_long (int (length (encode msg_bare)) - 1))"
proof (rule sent_index_accounting [where n = 1, OF _ _ refl])
  show "conn_idle conn0" by (simp add: conn_idle_def conn0_def)
  have "msg_ok msg_bare" by code_simp
  then show "\<forall>m\<in>set [msg_bare, msg1]. msg_ok m" using msgs_ok by simp
  show "new_queue ''q'' (\<lambda>p. if p < ss_next st0 then ss_frames st0 p else None) pm0"
    by (simp add: new_queue_def pm0_def Let_def join_path_def cstr_id FNAME_SENT_INDEX_def MAX_PATH_LENGTH_def STATUS_INITIALIZED_def
        STATUS_STOP_def GET_def)
qed (simp_all add: st0_def upt_rec msg_bare_def)

text \<open>A manager with one queue.\<close>

definition pm1 :: persistent_manager where
  "pm1 = \<lparr>pm_heap = [1 \<mapsto> qinfo1\<lparr>qi_qid := get_hash ''q''\<rparr>], pm_list = [1], pm_next = 2, pm_datadir = ''/d'',
     pm_status = STATUS_INITIALIZED, pm_fs = fs1\<rparr>"

text \<open>
  A long queue name. The first frame for a queue whose directory name, data directory
  included, needs 512 bytes or more overflows the path buffer of \<^verbatim>\<open>alloc_qinfo\<close>; the name
  comes from a client's \<^verbatim>\<open>destination\<close> header, which may be more than 1000 bytes long.
\<close>

theorem long_queue_name_overflows:
  assumes "get_qinfo (get_hash qname) pm = Inr None" and "MAX_PATH_LENGTH \<le> strlen (pm_datadir pm) + 1 + strlen qname"
  shows "persist_frame open_ok True frames f qname pm = Inl Buffer_Overflow"
  using assms
  by (simp add: persist_frame_def create_qinfo_def alloc_qinfo_def sprintf_path_def join_path_def strlen_def Let_def)

theorem long_queue_name_overflows_witness:
  "persist_frame (\<lambda>_. True) True (\<lambda>_. None) 1 (replicate 510 (CHR ''x'')) (pm1\<lparr>pm_list := []\<rparr>) = Inl Buffer_Overflow"
  by (rule long_queue_name_overflows)
    (simp_all add: get_qinfo_def pm1_def strlen_def cstr_id MAX_PATH_LENGTH_def)

end
