(* ===== verification/Sending.thy ===== *)
theory Sending
  imports Persistent
begin

text \<open>
  The sending workers (\<^verbatim>\<open>lib/stomp_sending_worker.c\<close>): destination groups with their clients, the
  registration of a worker, and the three kinds of worker threads that take frames from a
  queue and send them to clients. A thread is modelled by one pass of its loop, so that a
  run of several threads is a sequence of such passes in any order; the result says
  whether the loop goes on. The mutexes only guard single list operations and are left out.
  The locale \<open>frame_server\<close> is what a worker that serves one client promises; both such
  workers of the program interpret it.
\<close>

section \<open>State\<close>

text \<open>The null pointer in \<^verbatim>\<open>destination\<close> before \<^verbatim>\<open>initialize_dest_group\<close> is the empty list.\<close>

record dest_group_t =
  dg_destination :: "byte list"
  dg_len :: nat
  dg_clients :: "ptr list"
  dg_status :: flags

text \<open>\<open>ci_id_live\<close> says that the string behind \<open>ci_id\<close> has not been freed.\<close>

record client_info_t =
  ci_sock :: int
  ci_id :: "byte list option"
  ci_id_live :: bool
  ci_dgroup :: ptr

datatype thread = Reply_Worker ptr | Unicast_Worker ptr | Multicast_Worker ptr

text \<open>\<^verbatim>\<open>worker_manager\<close> with the heap of groups and clients and the threads created so far.\<close>

record worker_manager_t =
  wm_groups :: "ptr \<Rightarrow> dest_group_t option"
  wm_clients :: "ptr \<Rightarrow> client_info_t option"
  wm_list :: "ptr list"
  wm_next :: ptr
  wm_threads :: "thread list"

record send_mallocs =
  m_group :: bool
  m_dest :: bool
  m_client :: bool

definition all_send_mallocs :: send_mallocs where
  "all_send_mallocs = \<lparr>m_group = True, m_dest = True, m_client = True\<rparr>"

section \<open>Groups and clients\<close>

definition initialize_sending_worker :: "worker_manager_t \<Rightarrow> ret \<times> worker_manager_t" where
  "initialize_sending_worker wm = (RET_SUCCESS, wm\<lparr>wm_list := []\<rparr>)"

text \<open>The first group of the list with the wanted destination.\<close>

definition search_dest_group :: "byte list \<Rightarrow> nat \<Rightarrow> worker_manager_t \<Rightarrow> ptr option" where
  "search_dest_group dest len wm =
     find (\<lambda>g. case wm_groups wm g of None \<Rightarrow> False
               | Some dg \<Rightarrow> len = dg_len dg \<and> strncmp0 (dg_destination dg) dest len) (wm_list wm)"

definition alloc_dest_group :: "bool \<Rightarrow> dest_group_t option" where
  "alloc_dest_group ok =
     (if ok then Some \<lparr>dg_destination = [], dg_len = 0, dg_clients = [], dg_status = CLR 0\<rparr> else None)"

definition initialize_dest_group :: "bool \<Rightarrow> dest_group_t option \<Rightarrow> byte list \<Rightarrow> nat \<Rightarrow> worker_manager_t
    \<Rightarrow> (ptr \<times> worker_manager_t) res" where
  "initialize_dest_group ok dgroup destination len wm =
     (case dgroup of None \<Rightarrow> Inl Assert_Fail
      | Some dg \<Rightarrow>
          if \<not> ok then Inl Null_Deref
          else let g = wm_next wm; dg = dg\<lparr>dg_destination := take len destination @ [NUL], dg_len := len\<rparr>
               in Inr (g, wm\<lparr>wm_groups := (wm_groups wm)(g \<mapsto> dg), wm_list := wm_list wm @ [g], wm_next := g + 1\<rparr>))"

definition alloc_client_info :: "bool \<Rightarrow> client_info_t option" where
  "alloc_client_info ok =
     (if ok then Some \<lparr>ci_sock = 0, ci_id = None, ci_id_live = False, ci_dgroup = 0\<rparr> else None)"

definition free_client_info :: "ptr \<Rightarrow> worker_manager_t \<Rightarrow> worker_manager_t res" where
  "free_client_info c wm =
     (case wm_clients wm c of None \<Rightarrow> Inl Use_After_Free
      | Some ci \<Rightarrow> if ci_id ci \<noteq> None \<and> \<not> ci_id_live ci then Inl Bad_Free
                   else Inr (wm\<lparr>wm_clients := (wm_clients wm)(c := None)\<rparr>))"

definition free_dest_group :: "ptr option \<Rightarrow> worker_manager_t \<Rightarrow> worker_manager_t res" where
  "free_dest_group dgroup wm =
     (case dgroup of None \<Rightarrow> Inr wm
      | Some g \<Rightarrow>
        (case wm_groups wm g of None \<Rightarrow> Inl Use_After_Free
         | Some dg \<Rightarrow>
           and_then (each_res (\<lambda>c wm.
               case wm_clients wm c of None \<Rightarrow> Inl Use_After_Free
               | Some ci \<Rightarrow>
                   if ci_id ci \<noteq> None \<and> \<not> ci_id_live ci then Inl Bad_Free
                   else free_client_info c (wm\<lparr>wm_clients := (wm_clients wm)(c \<mapsto> ci\<lparr>ci_id_live := False\<rparr>)\<rparr>))
             (dg_clients dg) wm) (\<lambda>wm.
           Inr (wm\<lparr>wm_groups := (wm_groups wm)(g := None)\<rparr>))))"

text \<open>The part that the three registrations share: a client of the group is allocated and linked.\<close>

definition register_client :: "bool \<Rightarrow> int \<Rightarrow> ptr \<Rightarrow> worker_manager_t \<Rightarrow> (ptr \<times> worker_manager_t) res" where
  "register_client ok sock g wm =
     (case alloc_client_info ok of None \<Rightarrow> Inl Null_Deref
      | Some ci \<Rightarrow>
          (let c = wm_next wm in
           Inr (c, wm\<lparr>wm_clients := (wm_clients wm)(c \<mapsto> ci\<lparr>ci_sock := sock, ci_dgroup := g\<rparr>),
                      wm_groups := (wm_groups wm)(g := map_option (\<lambda>dg. dg\<lparr>dg_clients := dg_clients dg @ [c]\<rparr>) (wm_groups wm g)),
                      wm_next := c + 1\<rparr>)))"

definition create_thread :: "thread \<Rightarrow> worker_manager_t \<Rightarrow> worker_manager_t" where
  "create_thread t wm = wm\<lparr>wm_threads := wm_threads wm @ [t]\<rparr>"

definition register_reply_worker :: "send_mallocs \<Rightarrow> int \<Rightarrow> byte list \<Rightarrow> worker_manager_t \<Rightarrow> (ret \<times> worker_manager_t) res" where
  "register_reply_worker m sock destination wm =
     (let len = strlen destination in
      case search_dest_group destination len wm of
        Some _ \<Rightarrow> Inr (RET_SUCCESS, wm)
      | None \<Rightarrow>
          and_then (initialize_dest_group (m_dest m) (alloc_dest_group (m_group m)) destination len wm) (\<lambda>(g, wm).
          and_then (register_client (m_client m) sock g wm) (\<lambda>(c, wm).
          Inr (RET_SUCCESS, create_thread (Reply_Worker c) wm))))"

definition register_unicast_worker :: "send_mallocs \<Rightarrow> int \<Rightarrow> byte list \<Rightarrow> byte list option \<Rightarrow> worker_manager_t
    \<Rightarrow> (ret \<times> worker_manager_t) res" where
  "register_unicast_worker m sock destination i wm =
     (let len = strlen destination in
      and_then (case search_dest_group destination len wm of
                  Some g \<Rightarrow> Inr (g, wm)
                | None \<Rightarrow> initialize_dest_group (m_dest m) (alloc_dest_group (m_group m)) destination len wm) (\<lambda>(g, wm).
      and_then (register_client (m_client m) sock g wm) (\<lambda>(c, wm).
      Inr (RET_SUCCESS, create_thread (Unicast_Worker c) wm))))"

definition register_multicast_worker :: "send_mallocs \<Rightarrow> int \<Rightarrow> byte list \<Rightarrow> byte list option \<Rightarrow> worker_manager_t
    \<Rightarrow> (ret \<times> worker_manager_t) res" where
  "register_multicast_worker m sock destination i wm =
     (let len = strlen destination in
      and_then (case search_dest_group destination len wm of
                  Some g \<Rightarrow> Inr (g, wm)
                | None \<Rightarrow>
                    and_then (initialize_dest_group (m_dest m) (alloc_dest_group (m_group m)) destination len wm) (\<lambda>(g, wm).
                    Inr (g, create_thread (Multicast_Worker g) wm))) (\<lambda>(g, wm).
      and_then (register_client (m_client m) sock g wm) (\<lambda>(_, wm).
      Inr (RET_SUCCESS, wm))))"

section \<open>Workers\<close>

text \<open>The state the workers share with the rest of the program.\<close>

record broker =
  bk_stomp :: stomp_state
  bk_box :: "ptr queuebox"
  bk_pm :: persistent_manager
  bk_wm :: worker_manager_t

abbreviation bk_out :: "'a broker_scheme \<Rightarrow> sends" where
  "bk_out w \<equiv> ss_out (bk_stomp w)"

definition send_out :: "(sends \<Rightarrow> sends) \<Rightarrow> 'a broker_scheme \<Rightarrow> 'a broker_scheme" where
  "send_out f w = w\<lparr>bk_stomp := (bk_stomp w)\<lparr>ss_out := f (ss_out (bk_stomp w))\<rparr>\<rparr>"

text \<open>\<^verbatim>\<open>sprintf(buf, "subscription: %s", cinfo->id)\<close> and the header node made of it.\<close>

definition subscription_header :: "byte list option \<Rightarrow> linedata_t list res" where
  "subscription_header i =
     (case i of None \<Rightarrow> Inr []
      | Some s \<Rightarrow>
          (let buf = ''subscription: '' @ cstr s in
           if length buf + 1 > LD_MAX then Inl Buffer_Overflow else Inr (snd (stomp_setdata allocated buf (length buf) []))))"

text \<open>A frame taken from the queue is sent to the client and counted as sent.\<close>

definition send_to_client :: "os \<Rightarrow> int \<Rightarrow> linedata_t list option \<Rightarrow> byte list \<Rightarrow> ptr \<Rightarrow> 'a broker_scheme
    \<Rightarrow> 'a broker_scheme res" where
  "send_to_client os sock headers dest p w =
     (case ss_frames (bk_stomp w) p of None \<Rightarrow> Inl Use_After_Free
      | Some frame \<Rightarrow>
          (let w = send_out (stomp_send_message os sock frame headers) w in
           and_then (update_index_sent dest frame (bk_pm w)) (\<lambda>(_, pm). Inr (w\<lparr>bk_pm := pm\<rparr>))))"

text \<open>One pass of the loop that \<^verbatim>\<open>reply_worker\<close> and \<^verbatim>\<open>unicast_worker\<close> have in common.\<close>

definition serve_client :: "os \<Rightarrow> int \<Rightarrow> linedata_t list option \<Rightarrow> ptr \<Rightarrow> 'a broker_scheme \<Rightarrow> (bool \<times> 'a broker_scheme) res" where
  "serve_client os sock headers g w =
     (if is_socket_valid os sock \<noteq> RET_SUCCESS then Inr (False, w)
      else case wm_groups (bk_wm w) g of None \<Rightarrow> Inl Use_After_Free
      | Some dg \<Rightarrow>
          and_then (dequeue all_mallocs (dg_destination dg) (bk_box w)) (\<lambda>(frame, box).
          let w = w\<lparr>bk_box := box\<rparr> in
          case frame of None \<Rightarrow> Inr (True, w)
          | Some p \<Rightarrow> and_then (send_to_client os sock headers (dg_destination dg) p w) (\<lambda>w. Inr (True, w))))"

definition reply_worker :: "os \<Rightarrow> ptr \<Rightarrow> 'a broker_scheme \<Rightarrow> (bool \<times> 'a broker_scheme) res" where
  "reply_worker os c w =
     (case wm_clients (bk_wm w) c of None \<Rightarrow> Inl Use_After_Free
      | Some ci \<Rightarrow> serve_client os (ci_sock ci) None (ci_dgroup ci) w)"

text \<open>
  The headers of \<^verbatim>\<open>unicast_worker\<close> are made once when the thread starts; they depend on the
  client's \<^verbatim>\<open>id\<close> only, which never changes.
\<close>

definition unicast_worker :: "os \<Rightarrow> ptr \<Rightarrow> 'a broker_scheme \<Rightarrow> (bool \<times> 'a broker_scheme) res" where
  "unicast_worker os c w =
     (case wm_clients (bk_wm w) c of None \<Rightarrow> Inl Use_After_Free
      | Some ci \<Rightarrow>
          and_then (subscription_header (ci_id ci)) (\<lambda>hs.
            serve_client os (ci_sock ci) (if ci_id ci = None then None else Some hs) (ci_dgroup ci) w))"

text \<open>The inner loop of \<^verbatim>\<open>multicast_worker\<close>: a client is served, or unlinked when its socket is gone.\<close>

definition multicast_client :: "os \<Rightarrow> ptr \<Rightarrow> frame_t \<Rightarrow> ptr \<Rightarrow> 'a broker_scheme \<Rightarrow> 'a broker_scheme res" where
  "multicast_client os g frame c w =
     (case wm_clients (bk_wm w) c of None \<Rightarrow> Inl Use_After_Free
      | Some ci \<Rightarrow>
          if is_socket_valid os (ci_sock ci) = RET_SUCCESS then
            and_then (subscription_header (ci_id ci)) (\<lambda>hs.
              Inr (send_out (stomp_send_message os (ci_sock ci) frame (Some hs)) w))
          else
            (let wm = bk_wm w in
             Inr (w\<lparr>bk_wm := wm\<lparr>wm_groups := (wm_groups wm)(g :=
                map_option (\<lambda>dg. dg\<lparr>dg_clients := remove1 c (dg_clients dg)\<rparr>) (wm_groups wm g))\<rparr>\<rparr>)))"

definition multicast_worker :: "os \<Rightarrow> ptr \<Rightarrow> 'a broker_scheme \<Rightarrow> (bool \<times> 'a broker_scheme) res" where
  "multicast_worker os g w =
     (case wm_groups (bk_wm w) g of None \<Rightarrow> Inl Use_After_Free
      | Some dg \<Rightarrow>
          if dg_clients dg = [] then Inr (False, w)
          else and_then (dequeue all_mallocs (dg_destination dg) (bk_box w)) (\<lambda>(frame, box).
            let w = w\<lparr>bk_box := box\<rparr> in
            case frame of None \<Rightarrow> Inr (True, w)
            | Some p \<Rightarrow>
              (case ss_frames (bk_stomp w) p of None \<Rightarrow> Inl Use_After_Free
               | Some f \<Rightarrow>
                   and_then (each_res (multicast_client os g f) (dg_clients dg) w) (\<lambda>w.
                   and_then (update_index_sent (dg_destination dg) f (bk_pm w)) (\<lambda>(_, pm).
                   and_then (free_frame p (bk_stomp w)) (\<lambda>st.
                   Inr (True, w\<lparr>bk_pm := pm, bk_stomp := st\<rparr>)))))))"

section \<open>Serving a queue\<close>

datatype ('c, 'f) serve_event = Arrive 'f | Serve 'c

text \<open>A run: frames arrive in the queue and worker passes happen, in any order.\<close>

fun run_serving :: "('f \<Rightarrow> 's \<Rightarrow> (ret \<times> 's) res) \<Rightarrow> ('c \<Rightarrow> 's \<Rightarrow> (bool \<times> 's) res) \<Rightarrow> ('c, 'f) serve_event list \<Rightarrow> 's \<Rightarrow> 's res" where
  "run_serving arrive serve [] s = Inr s"
| "run_serving arrive serve (Arrive f # es) s = and_then (arrive f s) (\<lambda>(_, s). run_serving arrive serve es s)"
| "run_serving arrive serve (Serve c # es) s = and_then (serve c s) (\<lambda>(_, s). run_serving arrive serve es s)"

text \<open>The specification: each pass takes the oldest frame that waits; who gets which frame, in order.\<close>

fun served :: "'f list \<Rightarrow> ('c, 'f) serve_event list \<Rightarrow> ('c \<times> 'f) list" where
  "served q [] = []"
| "served q (Arrive f # es) = served (q @ [f]) es"
| "served q (Serve c # es) = (case q of [] \<Rightarrow> served [] es | f # q \<Rightarrow> (c, f) # served q es)"

fun arrivals :: "('c, 'f) serve_event list \<Rightarrow> 'f list" where
  "arrivals [] = []"
| "arrivals (Arrive f # es) = f # arrivals es"
| "arrivals (Serve c # es) = arrivals es"

fun servers :: "('c, 'f) serve_event list \<Rightarrow> 'c list" where
  "servers [] = []"
| "servers (Arrive f # es) = servers es"
| "servers (Serve c # es) = c # servers es"

locale frame_server =
  fixes inv :: "'s \<Rightarrow> bool"
    and pend :: "'s \<Rightarrow> 'f list"
    and out :: "'s \<Rightarrow> 'o"
    and live :: "'f \<Rightarrow> bool"
    and client :: "'c \<Rightarrow> bool"
    and arrive :: "'f \<Rightarrow> 's \<Rightarrow> (ret \<times> 's) res"
    and serve :: "'c \<Rightarrow> 's \<Rightarrow> (bool \<times> 's) res"
    and emit :: "'c \<Rightarrow> 'f \<Rightarrow> 'o \<Rightarrow> 'o"
  assumes arrive_law: "inv s \<Longrightarrow> live f \<Longrightarrow>
      \<exists>s'. arrive f s = Inr (RET_SUCCESS, s') \<and> inv s' \<and> pend s' = pend s @ [f] \<and> out s' = out s"
    and serve_law: "inv s \<Longrightarrow> client c \<Longrightarrow>
      \<exists>s'. serve c s = Inr (True, s') \<and> inv s' \<and> pend s' = tl (pend s) \<and>
        out s' = (case pend s of [] \<Rightarrow> out s | f # _ \<Rightarrow> emit c f (out s))"
begin

lemma run_serves:
  assumes "inv s" and "\<forall>f\<in>set (arrivals es). live f" and "\<forall>c\<in>set (servers es). client c"
  shows "\<exists>s'. run_serving arrive serve es s = Inr s' \<and> inv s' \<and>
    out s' = fold (\<lambda>(c, f). emit c f) (served (pend s) es) (out s) \<and>
    map snd (served (pend s) es) @ pend s' = pend s @ arrivals es"
  using assms
proof (induction es arbitrary: s)
  case Nil
  then show ?case by simp
next
  case (Cons e es)
  show ?case
  proof (cases e)
    case (Arrive f)
    with Cons.prems arrive_law [of s f] obtain s1 where "arrive f s = Inr (RET_SUCCESS, s1)" "inv s1"
      "pend s1 = pend s @ [f]" "out s1 = out s" by auto
    with Cons.IH [of s1] Cons.prems Arrive show ?thesis by auto
  next
    case (Serve c)
    with Cons.prems serve_law [of s c] obtain s1 where "serve c s = Inr (True, s1)" "inv s1"
      "pend s1 = tl (pend s)" "out s1 = (case pend s of [] \<Rightarrow> out s | f # _ \<Rightarrow> emit c f (out s))" by auto
    with Cons.IH [of s1] Cons.prems Serve show ?thesis by (cases "pend s") auto
  qed
qed

end

text \<open>The invariant of a run: the groups and the frames on the heap do not change.\<close>

definition pm_live :: "persistent_manager \<Rightarrow> bool" where
  "pm_live pm \<longleftrightarrow> list_all (\<lambda>p. pm_heap pm p \<noteq> None) (pm_list pm)"

definition serve_inv :: "worker_manager_t \<Rightarrow> (ptr \<Rightarrow> frame_t option) \<Rightarrow> byte list \<Rightarrow> 'a broker_scheme \<Rightarrow> bool" where
  "serve_inv wm frames d w \<longleftrightarrow> bk_wm w = wm \<and> ss_frames (bk_stomp w) = frames \<and> qb_inv (bk_box w) \<and>
     pm_live (bk_pm w) \<and> (\<forall>p\<in>set (contents (bk_box w) (get_hash d)). frames p \<noteq> None)"

definition pending_of :: "byte list \<Rightarrow> 'a broker_scheme \<Rightarrow> ptr list" where
  "pending_of d w = contents (bk_box w) (get_hash d)"

definition arrive_at :: "byte list \<Rightarrow> ptr \<Rightarrow> 'a broker_scheme \<Rightarrow> (ret \<times> 'a broker_scheme) res" where
  "arrive_at d p w = and_then (enqueue all_mallocs (Some p) d (bk_box w)) (\<lambda>(r, box). Inr (r, w\<lparr>bk_box := box\<rparr>))"

text \<open>A client of a group with destination \<open>d\<close> whose socket is open and whose identifier fits.\<close>

definition client_of :: "os \<Rightarrow> worker_manager_t \<Rightarrow> byte list \<Rightarrow> ptr \<Rightarrow> bool" where
  "client_of os wm d c \<longleftrightarrow> (\<exists>ci dg hs. wm_clients wm c = Some ci \<and> wm_groups wm (ci_dgroup ci) = Some dg \<and>
     dg_destination dg = d \<and> is_socket_valid os (ci_sock ci) = RET_SUCCESS \<and> subscription_header (ci_id ci) = Inr hs)"

text \<open>What a client is sent for a frame; \<open>hd\<close> says whether its subscription header is sent along.\<close>

definition emit_to :: "os \<Rightarrow> worker_manager_t \<Rightarrow> (ptr \<Rightarrow> frame_t option) \<Rightarrow> bool \<Rightarrow> ptr \<Rightarrow> ptr \<Rightarrow> sends \<Rightarrow> sends" where
  "emit_to os wm frames hdr c p out =
     (case (wm_clients wm c, frames p) of
        (Some ci, Some f) \<Rightarrow>
          stomp_send_message os (ci_sock ci) f
            (if hdr \<and> ci_id ci \<noteq> None then Some (projr (subscription_header (ci_id ci))) else None) out
      | _ \<Rightarrow> out)"

lemma send_out_simps [simp]:
  "bk_box (send_out f w) = bk_box w" "bk_pm (send_out f w) = bk_pm w" "bk_wm (send_out f w) = bk_wm w"
  "bk_out (send_out f w) = f (bk_out w)" "ss_frames (bk_stomp (send_out f w)) = ss_frames (bk_stomp w)"
  by (simp_all add: send_out_def)

lemma update_index_sent_live:
  assumes "pm_live pm"
  shows "\<exists>r pm'. update_index_sent d f pm = Inr (r, pm') \<and> pm_live pm' \<and> pm_list pm' = pm_list pm \<and>
    (\<forall>x. map_option (\<lambda>q. q\<lparr>qi_index_sent := 0\<rparr>) (pm_heap pm' x) = map_option (\<lambda>q. q\<lparr>qi_index_sent := 0\<rparr>) (pm_heap pm x))"
proof -
  have "\<not> list_ex (\<lambda>p. pm_heap pm p = None) (pm_list pm)"
    using assms by (auto simp: pm_live_def list_ex_iff list_all_iff)
  then obtain r where r: "get_qinfo (get_hash d) pm = Inr r" by (simp add: get_qinfo_def)
  show ?thesis
    using assms by (cases r) (auto simp: update_index_sent_def r pm_live_def upd_qinfo_def list_all_iff option.map_comp o_def)
qed

lemma send_to_client_ok:
  assumes "ss_frames (bk_stomp w) p = Some f" and "pm_live (bk_pm w)"
  shows "\<exists>pm'. send_to_client os sock hs d p w =
    Inr ((send_out (stomp_send_message os sock f hs) w)\<lparr>bk_pm := pm'\<rparr>) \<and> pm_live pm'"
  using assms update_index_sent_live [OF assms(2), of d f] by (auto simp: send_to_client_def Let_def)

lemma serve_client_law:
  assumes "serve_inv wm frames d w" and "wm_groups wm g = Some dg" and "dg_destination dg = d"
    and "is_socket_valid os sock = RET_SUCCESS"
  shows "\<exists>w'. serve_client os sock hs g w = Inr (True, w') \<and> serve_inv wm frames d w' \<and>
    pending_of d w' = tl (pending_of d w) \<and>
    bk_out w' = (case pending_of d w of [] \<Rightarrow> bk_out w
      | p # _ \<Rightarrow> (case frames p of None \<Rightarrow> bk_out w | Some f \<Rightarrow> stomp_send_message os sock f hs (bk_out w)))"
proof -
  have i: "bk_wm w = wm" "ss_frames (bk_stomp w) = frames" "qb_inv (bk_box w)" "pm_live (bk_pm w)"
    "\<forall>p\<in>set (contents (bk_box w) (get_hash d)). frames p \<noteq> None"
    using assms(1) by (simp_all add: serve_inv_def)
  from box.deq_law [OF i(3), of d] obtain b where b: "dequeue all_mallocs d (bk_box w) =
      Inr (case contents (bk_box w) (get_hash d) of [] \<Rightarrow> None | x # _ \<Rightarrow> Some x, b)" "qb_inv b"
    "contents b = (contents (bk_box w))(get_hash d := tl (contents (bk_box w) (get_hash d)))" by blast
  have sub: "set (tl xs) \<subseteq> set xs" for xs :: "ptr list" by (cases xs) auto
  show ?thesis
  proof (cases "contents (bk_box w) (get_hash d)")
    case Nil
    then show ?thesis using assms i b by (auto simp: serve_client_def serve_inv_def pending_of_def)
  next
    case (Cons p ps)
    then obtain f where f: "frames p = Some f" using i(5) by auto
    with i send_to_client_ok [of "w\<lparr>bk_box := b\<rparr>" p f os sock hs d] obtain pm' where
      "send_to_client os sock hs d p (w\<lparr>bk_box := b\<rparr>) =
        Inr ((send_out (stomp_send_message os sock f hs) (w\<lparr>bk_box := b\<rparr>))\<lparr>bk_pm := pm'\<rparr>)" "pm_live pm'" by auto
    then show ?thesis
      using assms i b Cons f by (auto simp: serve_client_def serve_inv_def pending_of_def)
  qed
qed

lemma arrive_at_law:
  assumes "serve_inv wm frames d w" and "frames p \<noteq> None"
  shows "\<exists>w'. arrive_at d p w = Inr (RET_SUCCESS, w') \<and> serve_inv wm frames d w' \<and>
    pending_of d w' = pending_of d w @ [p] \<and> bk_out w' = bk_out w"
proof -
  have "qb_inv (bk_box w)" using assms(1) by (simp add: serve_inv_def)
  from box.enq_law [OF this, of p d] obtain b where "enqueue all_mallocs (Some p) d (bk_box w) = Inr (RET_SUCCESS, b)"
    "qb_inv b" "contents b = (contents (bk_box w))(get_hash d := contents (bk_box w) (get_hash d) @ [p])" by blast
  with assms show ?thesis by (auto simp: arrive_at_def serve_inv_def pending_of_def)
qed

text \<open>
  The two workers. A pass carries the surroundings it sees, so that a socket may be open for one
  pass and not for the next.
\<close>

interpretation unicast: frame_server "serve_inv wm frames d" "pending_of d" bk_out "\<lambda>p. frames p \<noteq> None"
  "\<lambda>(os, c). client_of os wm d c" "arrive_at d" "\<lambda>(os, c). unicast_worker os c" "\<lambda>(os, c). emit_to os wm frames True c"
  for wm frames d
proof unfold_locales
  fix w :: "'a broker_scheme" and osc :: "os \<times> ptr"
  assume inv: "serve_inv wm frames d w" and "(\<lambda>(os, c). client_of os wm d c) osc"
  moreover obtain os c where osc: "osc = (os, c)" by fastforce
  ultimately have c: "client_of os wm d c" by simp
  from c obtain ci dg hs where ci: "wm_clients wm c = Some ci" "wm_groups wm (ci_dgroup ci) = Some dg"
    "dg_destination dg = d" "is_socket_valid os (ci_sock ci) = RET_SUCCESS" "subscription_header (ci_id ci) = Inr hs"
    by (auto simp: client_of_def)
  have "bk_wm w = wm" using inv by (simp add: serve_inv_def)
  with serve_client_law [OF inv ci(2-4), of "if ci_id ci = None then None else Some hs"] ci
  show "\<exists>w'. (\<lambda>(os, c). unicast_worker os c) osc w = Inr (True, w') \<and> serve_inv wm frames d w' \<and> pending_of d w' = tl (pending_of d w) \<and>
    bk_out w' = (case pending_of d w of [] \<Rightarrow> bk_out w | f # _ \<Rightarrow> (\<lambda>(os, c). emit_to os wm frames True c) osc f (bk_out w))"
    by (auto simp: osc unicast_worker_def emit_to_def split: list.splits option.splits)
qed (rule arrive_at_law)

interpretation reply: frame_server "serve_inv wm frames d" "pending_of d" bk_out "\<lambda>p. frames p \<noteq> None"
  "\<lambda>(os, c). client_of os wm d c" "arrive_at d" "\<lambda>(os, c). reply_worker os c" "\<lambda>(os, c). emit_to os wm frames False c"
  for wm frames d
proof unfold_locales
  fix w :: "'a broker_scheme" and osc :: "os \<times> ptr"
  assume inv: "serve_inv wm frames d w" and "(\<lambda>(os, c). client_of os wm d c) osc"
  moreover obtain os c where osc: "osc = (os, c)" by fastforce
  ultimately have c: "client_of os wm d c" by simp
  from c obtain ci dg where ci: "wm_clients wm c = Some ci" "wm_groups wm (ci_dgroup ci) = Some dg"
    "dg_destination dg = d" "is_socket_valid os (ci_sock ci) = RET_SUCCESS" by (auto simp: client_of_def)
  have "bk_wm w = wm" using inv by (simp add: serve_inv_def)
  with serve_client_law [OF inv ci(2-4), of None] ci
  show "\<exists>w'. (\<lambda>(os, c). reply_worker os c) osc w = Inr (True, w') \<and> serve_inv wm frames d w' \<and> pending_of d w' = tl (pending_of d w) \<and>
    bk_out w' = (case pending_of d w of [] \<Rightarrow> bk_out w | f # _ \<Rightarrow> (\<lambda>(os, c). emit_to os wm frames False c) osc f (bk_out w))"
    by (auto simp: osc reply_worker_def emit_to_def split: list.splits option.splits)
qed (rule arrive_at_law)

section \<open>Topics\<close>

definition client_valid :: "os \<Rightarrow> worker_manager_t \<Rightarrow> ptr \<Rightarrow> bool" where
  "client_valid os wm c =
     (case wm_clients wm c of None \<Rightarrow> False | Some ci \<Rightarrow> is_socket_valid os (ci_sock ci) = RET_SUCCESS)"

definition topic_emit :: "os \<Rightarrow> worker_manager_t \<Rightarrow> frame_t \<Rightarrow> ptr \<Rightarrow> sends \<Rightarrow> sends" where
  "topic_emit os wm f c out =
     (case wm_clients wm c of None \<Rightarrow> out
      | Some ci \<Rightarrow> stomp_send_message os (ci_sock ci) f (Some (projr (subscription_header (ci_id ci)))) out)"

text \<open>The group after the clients \<open>cs\<close> have been unlinked.\<close>

definition unlink_clients :: "ptr \<Rightarrow> ptr list \<Rightarrow> worker_manager_t \<Rightarrow> worker_manager_t" where
  "unlink_clients g cs wm = wm\<lparr>wm_groups := (wm_groups wm)(g :=
     map_option (\<lambda>dg. dg\<lparr>dg_clients := fold remove1 cs (dg_clients dg)\<rparr>) (wm_groups wm g))\<rparr>"

lemma multicast_clients:
  assumes "\<forall>c\<in>set cs. \<exists>ci hs. wm_clients (bk_wm w) c = Some ci \<and> subscription_header (ci_id ci) = Inr hs"
  shows "each_res (multicast_client os g f) cs w =
    Inr (send_out (fold (topic_emit os (bk_wm w) f) (filter (client_valid os (bk_wm w)) cs))
      (w\<lparr>bk_wm := unlink_clients g (filter (\<lambda>c. \<not> client_valid os (bk_wm w) c) cs) (bk_wm w)\<rparr>))"
  using assms
proof (induction cs arbitrary: w)
  case Nil
  then show ?case by (simp add: send_out_def unlink_clients_def option.map_ident fun_upd_idem)
next
  case (Cons c cs)
  obtain ci hs where c: "wm_clients (bk_wm w) c = Some ci" "subscription_header (ci_id ci) = Inr hs"
    using Cons.prems by auto
  show ?case
  proof (cases "is_socket_valid os (ci_sock ci) = RET_SUCCESS")
    case True
    let ?w = "send_out (stomp_send_message os (ci_sock ci) f (Some hs)) w"
    have "multicast_client os g f c w = Inr ?w" using c True by (simp add: multicast_client_def)
    moreover have "client_valid os (bk_wm w) c" using c True by (simp add: client_valid_def)
    ultimately show ?thesis
      using Cons.IH [of ?w] Cons.prems c by (simp add: send_out_def topic_emit_def)
  next
    case False
    let ?w = "w\<lparr>bk_wm := unlink_clients g [c] (bk_wm w)\<rparr>"
    have m: "multicast_client os g f c w = Inr ?w"
      using c False by (simp add: multicast_client_def unlink_clients_def Let_def)
    have v: "\<not> client_valid os (bk_wm w) c" using c False by (simp add: client_valid_def)
    have same: "wm_clients (bk_wm ?w) = wm_clients (bk_wm w)" by (simp add: unlink_clients_def)
    then have "client_valid os (bk_wm ?w) = client_valid os (bk_wm w)" "topic_emit os (bk_wm ?w) f = topic_emit os (bk_wm w) f"
      by (auto simp: client_valid_def topic_emit_def fun_eq_iff)
    moreover have "unlink_clients g cs' (unlink_clients g [c] (bk_wm w)) = unlink_clients g (c # cs') (bk_wm w)" for cs'
      by (simp add: unlink_clients_def option.map_comp o_def)
    ultimately show ?thesis
      using Cons.IH [of ?w] Cons.prems m v same by simp
  qed
qed

lemma fold_remove1_filter: "distinct xs \<Longrightarrow> fold remove1 (filter (\<lambda>x. \<not> P x) xs) xs = filter P xs"
proof -
  have "fold remove1 ys xs = filter (\<lambda>x. x \<notin> set ys) xs" if "distinct xs" for xs ys :: "'a list"
    using that
  proof (induction ys arbitrary: xs)
    case (Cons y ys)
    have "remove1 y xs = filter (\<lambda>x. x \<noteq> y) xs"
      using Cons.prems by (simp add: distinct_remove1_removeAll removeAll_filter_not_eq) metis
    moreover have "fold remove1 ys (remove1 y xs) = filter (\<lambda>x. x \<notin> set ys) (remove1 y xs)"
      using Cons by (simp add: distinct_remove1)
    ultimately show ?case by (simp add: conj_commute)
  qed simp
  then show "distinct xs \<Longrightarrow> fold remove1 (filter (\<lambda>x. \<not> P x) xs) xs = filter P xs"
    by (auto intro: filter_cong)
qed

text \<open>A topic that can be served: its frame is alive and its clients are in order.\<close>

definition topic_ready :: "ptr \<Rightarrow> dest_group_t \<Rightarrow> ptr \<Rightarrow> frame_t \<Rightarrow> 'a broker_scheme \<Rightarrow> bool" where
  "topic_ready g dg p f w \<longleftrightarrow> wm_groups (bk_wm w) g = Some dg \<and> dg_clients dg \<noteq> [] \<and> distinct (dg_clients dg) \<and>
     (\<forall>c\<in>set (dg_clients dg). \<exists>ci hs. wm_clients (bk_wm w) c = Some ci \<and> subscription_header (ci_id ci) = Inr hs) \<and>
     qb_inv (bk_box w) \<and> pm_live (bk_pm w) \<and> ss_frames (bk_stomp w) p = Some f \<and> f_tdata f = None \<and>
     (\<exists>ps. pending_of (dg_destination dg) w = p # ps)"

lemma multicast_pass:
  assumes "topic_ready g dg p f w"
  shows "\<exists>w'. multicast_worker os g w = Inr (True, w') \<and>
    bk_out w' = fold (topic_emit os (bk_wm w) f) (filter (client_valid os (bk_wm w)) (dg_clients dg)) (bk_out w) \<and>
    wm_groups (bk_wm w') g = Some (dg\<lparr>dg_clients := filter (client_valid os (bk_wm w)) (dg_clients dg)\<rparr>) \<and>
    pending_of (dg_destination dg) w' = tl (pending_of (dg_destination dg) w) \<and>
    ss_frames (bk_stomp w') = (ss_frames (bk_stomp w))(p := None) \<and>
    pm_list (bk_pm w') = pm_list (bk_pm w) \<and>
    (\<forall>x. map_option (\<lambda>q. q\<lparr>qi_index_sent := 0\<rparr>) (pm_heap (bk_pm w') x) = map_option (\<lambda>q. q\<lparr>qi_index_sent := 0\<rparr>) (pm_heap (bk_pm w) x))"
proof -
  have a: "wm_groups (bk_wm w) g = Some dg" "dg_clients dg \<noteq> []" "distinct (dg_clients dg)"
    "\<forall>c\<in>set (dg_clients dg). \<exists>ci hs. wm_clients (bk_wm w) c = Some ci \<and> subscription_header (ci_id ci) = Inr hs"
    "qb_inv (bk_box w)" "pm_live (bk_pm w)" "ss_frames (bk_stomp w) p = Some f" "f_tdata f = None"
    using assms by (auto simp: topic_ready_def)
  obtain ps where ps: "contents (bk_box w) (get_hash (dg_destination dg)) = p # ps"
    using assms by (auto simp: topic_ready_def pending_of_def)
  from box.deq_law [OF a(5), of "dg_destination dg"] ps obtain b where b:
    "dequeue all_mallocs (dg_destination dg) (bk_box w) = Inr (Some p, b)"
    "contents b = (contents (bk_box w))(get_hash (dg_destination dg) := ps)" by auto
  obtain r pm' where pm: "update_index_sent (dg_destination dg) f (bk_pm w) = Inr (r, pm')" "pm_list pm' = pm_list (bk_pm w)"
    "\<forall>x. map_option (\<lambda>q. q\<lparr>qi_index_sent := 0\<rparr>) (pm_heap pm' x) = map_option (\<lambda>q. q\<lparr>qi_index_sent := 0\<rparr>) (pm_heap (bk_pm w) x)"
    using update_index_sent_live [OF a(6)] by blast
  let ?w = "w\<lparr>bk_box := b\<rparr>"
  have "each_res (multicast_client os g f) (dg_clients dg) ?w =
    Inr (send_out (fold (topic_emit os (bk_wm w) f) (filter (client_valid os (bk_wm w)) (dg_clients dg)))
      (?w\<lparr>bk_wm := unlink_clients g (filter (\<lambda>c. \<not> client_valid os (bk_wm w) c) (dg_clients dg)) (bk_wm w)\<rparr>))"
    using multicast_clients [of "dg_clients dg" ?w os g f] a(4) by simp
  then show ?thesis
    using a b ps pm fold_remove1_filter [OF a(3)]
    by (simp add: multicast_worker_def Let_def free_frame_def pending_of_def unlink_clients_def)
qed

text \<open>A freed frame that still waits to be written makes the next round of the persistent worker fault.\<close>

lemma persist_one_None: "frames x = None \<Longrightarrow> persist_one frames x qfs = Inl Use_After_Free"
  by (cases qfs) (simp add: persist_one_def)

lemma persist_one_Some: "frames x = Some f \<Longrightarrow> \<exists>y. persist_one frames x qfs = Inr y"
  by (cases qfs) (simp add: persist_one_def Let_def)

lemma each_res_dangling:
  assumes "frames x = None"
  shows "x \<in> set xs \<Longrightarrow> each_res (persist_one frames) xs qfs = Inl Use_After_Free"
proof (induction xs arbitrary: qfs)
  case (Cons y ys)
  show ?case
  proof (cases "frames y")
    case None
    then show ?thesis by (simp add: persist_one_None)
  next
    case (Some f)
    then have "x \<in> set ys" using Cons.prems assms by auto
    with Cons.IH persist_one_Some [of frames y f qfs] Some show ?thesis by auto
  qed
qed simp

lemma each_res_persist_cases:
  "each_res (persist_one frames) xs qfs = Inl Use_After_Free \<or> (\<exists>y. each_res (persist_one frames) xs qfs = Inr y)"
proof (induction xs arbitrary: qfs)
  case (Cons x xs)
  show ?case
  proof (cases "frames x")
    case None
    then show ?thesis by (simp add: persist_one_None)
  next
    case (Some f)
    then obtain y where "persist_one frames x qfs = Inr y" using persist_one_Some [of frames x f] by blast
    with Cons.IH [of y] show ?thesis by simp
  qed
qed simp

lemma persist_entry_cases:
  "i \<noteq> p \<Longrightarrow> persist_entry frames p pm = Inl Use_After_Free \<or>
     (\<exists>pm1. persist_entry frames p pm = Inr pm1 \<and> pm_heap pm1 i = pm_heap pm i)"
  using each_res_persist_cases
  by (fastforce simp: persist_entry_def Let_def persist_queue_context_def and_then_eq_Inl split: prod.splits option.splits)

lemma persist_entries_dangling:
  assumes "i \<in> set ps" and "distinct ps" and "pm_heap pm i = Some q" and "qi_index_head q > qi_index_persistent q"
    and "x \<in> set (qi_unpersistent q)" and "frames x = None"
  shows "each_res (persist_entry frames) ps pm = Inl Use_After_Free"
  using assms(1-3)
proof (induction ps arbitrary: pm)
  case (Cons p ps)
  show ?case
  proof (cases "p = i")
    case True
    have "each_res (persist_one frames) (qi_unpersistent q) qfs = Inl Use_After_Free" for qfs
      using assms(6,5) by (rule each_res_dangling)
    then have "persist_entry frames p pm = Inl Use_After_Free"
      using Cons.prems True assms(4) by (simp add: persist_entry_def Let_def persist_queue_context_def)
    then show ?thesis by simp
  next
    case False
    with persist_entry_cases [of i p frames pm] Cons show ?thesis by auto
  qed
qed simp

section \<open>Properties\<close>

text \<open>
  C8. Every frame goes to exactly one subscriber. Take any number of clients of one queue and
  any interleaving of arriving frames and passes of their workers: the run returns, what is
  written to the sockets is one MESSAGE per frame taken, to the client whose worker took it,
  in the order of the queue, and the frames sent followed by those still waiting are the frames
  that waited or arrived, in order. This holds for unicast workers and for reply workers. Each pass
  sees its own surroundings, so that what \<^verbatim>\<open>getsockopt\<close> and \<^verbatim>\<open>send\<close> return may change in between.
\<close>

theorem workers_serve_in_order:
  assumes "serve_inv wm frames d w" and "\<forall>p\<in>set (arrivals es). frames p \<noteq> None"
    and "\<forall>(os, c)\<in>set (servers es). client_of os wm d c"
  shows "(\<exists>w'. run_serving (arrive_at d) (\<lambda>(os, c). unicast_worker os c) es w = Inr w' \<and> serve_inv wm frames d w' \<and>
      bk_out w' = fold (\<lambda>((os, c), p). emit_to os wm frames True c p) (served (pending_of d w) es) (bk_out w) \<and>
      map snd (served (pending_of d w) es) @ pending_of d w' = pending_of d w @ arrivals es) \<and>
    (\<exists>w'. run_serving (arrive_at d) (\<lambda>(os, c). reply_worker os c) es w = Inr w' \<and> serve_inv wm frames d w' \<and>
      bk_out w' = fold (\<lambda>((os, c), p). emit_to os wm frames False c p) (served (pending_of d w) es) (bk_out w) \<and>
      map snd (served (pending_of d w) es) @ pending_of d w' = pending_of d w @ arrivals es)"
  using unicast.run_serves [OF assms] reply.run_serves [OF assms] by (simp add: case_prod_unfold)

text \<open>Two clients of a queue, registered one after the other on an empty manager.\<close>

definition wm0 :: worker_manager_t where
  "wm0 = \<lparr>wm_groups = (\<lambda>_. None), wm_clients = (\<lambda>_. None), wm_list = [], wm_next = 1, wm_threads = []\<rparr>"

definition wm2 :: worker_manager_t where
  "wm2 = snd (projr (register_unicast_worker all_send_mallocs 5 ''/q'' None
     (snd (projr (register_unicast_worker all_send_mallocs 4 ''/q'' None wm0)))))"

definition broker0 :: broker where
  "broker0 = \<lparr>bk_stomp = st0\<lparr>ss_frames := [7 \<mapsto> delivered os0 4 9 0 msg1, 8 \<mapsto> delivered os0 4 9 0 msg2]\<rparr>,
     bk_box = empty_box, bk_pm = pm1, bk_wm = wm2\<rparr>"

lemma wm2_clients:
  "wm_clients wm2 2 = Some \<lparr>ci_sock = 4, ci_id = None, ci_id_live = False, ci_dgroup = 1\<rparr>"
  "wm_clients wm2 3 = Some \<lparr>ci_sock = 5, ci_id = None, ci_id_live = False, ci_dgroup = 1\<rparr>"
  "wm_groups wm2 1 = Some \<lparr>dg_destination = ''/q'' @ [NUL], dg_len = 2, dg_clients = [2, 3], dg_status = 0\<rparr>"
  "wm_threads wm2 = [Unicast_Worker 2, Unicast_Worker 3]"
  by (simp_all add: wm2_def wm0_def register_unicast_worker_def search_dest_group_def initialize_dest_group_def
      alloc_dest_group_def register_client_def alloc_client_info_def create_thread_def all_send_mallocs_def
      strlen_def strncmp0.simps CLR_def Let_def eval_nat_numeral)

lemma broker0_ready:
  "serve_inv wm2 (ss_frames (bk_stomp broker0)) (''/q'' @ [NUL]) broker0" "pending_of d broker0 = []"
  by (simp_all add: serve_inv_def broker0_def pm_live_def pm1_def pending_of_def qb_inv_empty contents_empty)

text \<open>The socket 5 has failed meanwhile.\<close>

definition os_failed :: os where
  "os_failed = os0\<lparr>os_getsockopt := (\<lambda>sock. (0, if sock = 5 then 104 else 0))\<rparr>"

theorem workers_serve_in_order_witness:
  "\<exists>w'. run_serving (arrive_at (''/q'' @ [NUL])) (\<lambda>(os, c). unicast_worker os c) [Arrive 7, Arrive 8, Serve (os0, 3), Serve (os_failed, 2)] broker0 = Inr w' \<and>
     bk_out w' = stomp_send_message os_failed 4 (delivered os0 4 9 0 msg2) None
       (stomp_send_message os0 5 (delivered os0 4 9 0 msg1) None [])"
proof -
  have "\<forall>(os, c)\<in>set (servers [Arrive 7, Arrive 8, Serve (os0, 3), Serve (os_failed, 2::ptr)]). client_of os wm2 (''/q'' @ [NUL]) c"
    by (simp add: client_of_def wm2_clients os0_def os_failed_def is_socket_valid_def subscription_header_def del: One_nat_def)
  moreover have fr: "ss_frames (bk_stomp broker0) 7 = Some (delivered os0 4 9 0 msg1)"
    "ss_frames (bk_stomp broker0) 8 = Some (delivered os0 4 9 0 msg2)" "bk_out broker0 = []"
    by (simp_all add: broker0_def st0_def)
  ultimately show ?thesis
    using workers_serve_in_order [OF broker0_ready(1), of "[Arrive 7, Arrive 8, Serve (os0, 3), Serve (os_failed, 2)]"]
    by (auto simp: broker0_ready(2) emit_to_def wm2_clients simp del: run_serving.simps)
qed

text \<open>
  C14. A topic frame goes to every subscriber. One pass of the multicast worker over a topic with
  a waiting frame sends the frame once to every client whose socket is open, in the order of
  their subscriptions, unlinks exactly the other clients, removes the frame from the queue
  and frees it.
\<close>

theorem multicast_fan_out:
  assumes "topic_ready g dg p f w"
  shows "\<exists>w'. multicast_worker os g w = Inr (True, w') \<and>
    bk_out w' = fold (topic_emit os (bk_wm w) f) (filter (client_valid os (bk_wm w)) (dg_clients dg)) (bk_out w) \<and>
    wm_groups (bk_wm w') g = Some (dg\<lparr>dg_clients := filter (client_valid os (bk_wm w)) (dg_clients dg)\<rparr>) \<and>
    pending_of (dg_destination dg) w' = tl (pending_of (dg_destination dg) w) \<and>
    ss_frames (bk_stomp w') = (ss_frames (bk_stomp w))(p := None)"
  using multicast_pass [OF assms, of os] by blast

text \<open>A topic with one waiting frame and two clients.\<close>

definition wm3 :: worker_manager_t where
  "wm3 = snd (projr (register_multicast_worker all_send_mallocs 5 ''/topic/a'' None
     (snd (projr (register_multicast_worker all_send_mallocs 4 ''/topic/a'' None wm0)))))"

definition broker1 :: broker where
  "broker1 = \<lparr>bk_stomp = st0\<lparr>ss_frames := [7 \<mapsto> delivered os0 4 9 0 msg1]\<rparr>,
     bk_box = snd (projr (enqueue all_mallocs (Some 7) (''/topic/a'' @ [NUL]) empty_box)),
     bk_pm = upd_qinfo 1 (\<lambda>q. q\<lparr>qi_unpersistent := [7], qi_index_head := 60\<rparr>) pm1, bk_wm = wm3\<rparr>"

definition dg3 :: dest_group_t where
  "dg3 = \<lparr>dg_destination = ''/topic/a'' @ [NUL], dg_len = 8, dg_clients = [2, 3], dg_status = 0\<rparr>"

lemma wm3_clients:
  "wm_clients wm3 2 = Some \<lparr>ci_sock = 4, ci_id = None, ci_id_live = False, ci_dgroup = 1\<rparr>"
  "wm_clients wm3 3 = Some \<lparr>ci_sock = 5, ci_id = None, ci_id_live = False, ci_dgroup = 1\<rparr>"
  "wm_groups wm3 1 = Some dg3" "wm_threads wm3 = [Multicast_Worker 1]"
  by (simp_all add: wm3_def wm0_def dg3_def register_multicast_worker_def search_dest_group_def initialize_dest_group_def
      alloc_dest_group_def register_client_def alloc_client_info_def create_thread_def all_send_mallocs_def
      strlen_def strncmp0.simps CLR_def Let_def eval_nat_numeral)

lemma broker1_ready: "topic_ready 1 dg3 7 (delivered os0 4 9 0 msg1) broker1"
proof -
  have f: "f_tdata (delivered os0 4 9 0 msg1) = None" by (simp add: delivered_def frame_of_def alloc_frame_def)
  obtain b where b: "enqueue all_mallocs (Some (7::ptr)) (''/topic/a'' @ [NUL]) empty_box = Inr (RET_SUCCESS, b)" "qb_inv b"
    "contents b (get_hash (''/topic/a'' @ [NUL])) = [7]"
    using box.enq_law [OF qb_inv_empty, of "7::ptr" "''/topic/a'' @ [NUL]"] by (auto simp: contents_empty)
  then have "qb_inv (bk_box broker1)" "pending_of (dg_destination dg3) broker1 = [7]"
    by (simp_all add: broker1_def pending_of_def dg3_def)
  moreover have "pm_live (bk_pm broker1)" by (simp add: broker1_def pm_live_def pm1_def upd_qinfo_def)
  moreover have "wm_groups (bk_wm broker1) 1 = Some dg3" "dg_clients dg3 = [2, 3]"
    "\<forall>c\<in>set (dg_clients dg3). \<exists>ci hs. wm_clients (bk_wm broker1) c = Some ci \<and> subscription_header (ci_id ci) = Inr hs"
    by (simp_all add: broker1_def wm3_clients dg3_def subscription_header_def del: One_nat_def)
  ultimately show ?thesis using f by (simp add: topic_ready_def broker1_def)
qed

theorem multicast_fan_out_witness:
  "\<exists>w'. multicast_worker (os0\<lparr>os_getsockopt := (\<lambda>s. (0, if s = 4 then 32 else 0))\<rparr>) 1 broker1 = Inr (True, w') \<and>
     wm_groups (bk_wm w') 1 = Some (dg3\<lparr>dg_clients := [3]\<rparr>)"
proof -
  let ?os = "os0\<lparr>os_getsockopt := (\<lambda>s. (0, if s = 4 then 32 else 0))\<rparr>"
  have "filter (client_valid ?os (bk_wm broker1)) (dg_clients dg3) = [3]"
    by (simp add: dg3_def client_valid_def broker1_def wm3_clients is_socket_valid_def)
  then show ?thesis using multicast_fan_out [OF broker1_ready, of ?os] by auto
qed

text \<open>
  C32. A topic frame that is delivered before it is written to disk is lost with the server. The
  multicast worker frees the frame although the persistent worker's list still points to
  it, and the next round of the persistent worker uses the freed memory.
\<close>

theorem topic_frame_freed_before_persisted:
  assumes "topic_ready g dg p f w" and "i \<in> set (pm_list (bk_pm w))" and "distinct (pm_list (bk_pm w))"
    and "pm_heap (bk_pm w) i = Some q" and "qi_index_head q > qi_index_persistent q" and "p \<in> set (qi_unpersistent q)"
  shows "\<exists>w'. multicast_worker os g w = Inr (True, w') \<and>
    persist_round (ss_frames (bk_stomp w')) (bk_pm w') = Inl Use_After_Free"
proof -
  obtain w' where w': "multicast_worker os g w = Inr (True, w')"
    "ss_frames (bk_stomp w') = (ss_frames (bk_stomp w))(p := None)" "pm_list (bk_pm w') = pm_list (bk_pm w)"
    and h: "map_option (\<lambda>q. q\<lparr>qi_index_sent := 0\<rparr>) (pm_heap (bk_pm w') i) = Some (q\<lparr>qi_index_sent := 0\<rparr>)"
    using multicast_pass [OF assms(1), of os] assms(4) by (metis option.simps(9))
  from h obtain q' where q': "pm_heap (bk_pm w') i = Some q'" "q'\<lparr>qi_index_sent := 0\<rparr> = q\<lparr>qi_index_sent := 0\<rparr>"
    by (cases "pm_heap (bk_pm w') i") auto
  from arg_cong [OF q'(2), of qi_index_head] arg_cong [OF q'(2), of qi_index_persistent] arg_cong [OF q'(2), of qi_unpersistent]
  have "qi_index_head q' > qi_index_persistent q'" "p \<in> set (qi_unpersistent q')" using assms(5,6) by simp_all
  with persist_entries_dangling [of i "pm_list (bk_pm w')" "bk_pm w'" q' p "ss_frames (bk_stomp w')"] assms(2,3) w' q'
  show ?thesis by (simp add: persist_round_def)
qed

theorem topic_frame_freed_before_persisted_witness:
  "\<exists>w'. multicast_worker os0 1 broker1 = Inr (True, w') \<and>
    persist_round (ss_frames (bk_stomp w')) (bk_pm w') = Inl Use_After_Free"
  by (rule topic_frame_freed_before_persisted [OF broker1_ready, where i = 1
        and q = "qinfo1\<lparr>qi_qid := get_hash ''q'', qi_unpersistent := [7], qi_index_head := 60\<rparr>"])
    (simp_all add: broker1_def upd_qinfo_def pm1_def qinfo1_def)

end
