(* ===== verification/Transaction.thy ===== *)
theory Transaction
  imports Prelude
begin

text \<open>
  Transactions (\<^verbatim>\<open>lib/transaction.c\<close>): the manager's list of transactions, each with its
  array for the name and its list of frames, and the operations on them. The callback of
  a frame is a parameter of \<^verbatim>\<open>transaction_commit\<close>, whose loop may run forever. The locale
  \<open>tx_store\<close> is what the protocol handlers rely on: for names of one length the manager is a
  map from names to lists of frames.
\<close>

section \<open>State and operations\<close>

definition TID_SIZE :: nat where "TID_SIZE = 512"

record transaction_t =
  t_tid :: "byte list"
  t_frames :: "ptr list"

text \<open>
  The transactions on the heap, the list \<^verbatim>\<open>manager.list\<close>, the address of the next
  allocation and whether the running thread holds \<^verbatim>\<open>manager.mutex\<close>.
\<close>

record tmanager =
  tm_objs :: "ptr \<Rightarrow> transaction_t option"
  tm_list :: "ptr list"
  tm_next :: ptr
  tm_locked :: bool

definition transaction_init :: "tmanager \<Rightarrow> ret \<times> tmanager" where
  "transaction_init m = (RET_SUCCESS, m\<lparr>tm_list := [], tm_locked := False\<rparr>)"

text \<open>\<^verbatim>\<open>strncmp(t->tid, tid, strlen(tid)) == 0\<close>; the last match in the list wins.\<close>

definition tid_matches :: "tmanager \<Rightarrow> byte list \<Rightarrow> ptr \<Rightarrow> bool" where
  "tid_matches m tid p =
     (case tm_objs m p of None \<Rightarrow> False | Some t \<Rightarrow> strncmp0 (t_tid t) tid (strlen tid))"

definition get_transaction :: "byte list \<Rightarrow> tmanager \<Rightarrow> ptr option res" where
  "get_transaction tid m =
     (if tm_locked m then Inl Deadlock else Inr (find_last (tid_matches m tid) (tm_list m)))"

text \<open>
  \<open>junk\<close> is the content of the fresh allocation. Without memory the null object is
  linked into the list all the same.
\<close>

definition alloc_transaction :: "bool \<Rightarrow> byte list \<Rightarrow> byte list \<Rightarrow> tmanager \<Rightarrow> (ptr \<times> tmanager) res" where
  "alloc_transaction malloc_ok junk tid m =
     (if \<not> malloc_ok then Inl Null_Deref
      else if strlen tid > TID_SIZE then Inl Buffer_Overflow
      else if tm_locked m then Inl Deadlock
      else let p = tm_next m;
               obj = \<lparr>t_tid = memcpy junk tid (strlen tid), t_frames = []\<rparr>
           in Inr (p, m\<lparr>tm_objs := (tm_objs m)(p \<mapsto> obj), tm_list := tm_list m @ [p], tm_next := p + 1\<rparr>))"

definition free_transaction :: "ptr option \<Rightarrow> tmanager \<Rightarrow> (ret \<times> tmanager) res" where
  "free_transaction obj m =
     (case obj of None \<Rightarrow> Inr (RET_ERROR, m)
      | Some p \<Rightarrow>
          if tm_locked m then Inl Deadlock
          else if tm_objs m p = None then Inl Use_After_Free
          else Inr (RET_SUCCESS, m\<lparr>tm_list := remove1 p (tm_list m), tm_objs := (tm_objs m)(p := None)\<rparr>))"

definition transaction_destruct :: "tmanager \<Rightarrow> (ret \<times> tmanager) res" where
  "transaction_destruct m =
     (if tm_locked m then Inl Deadlock
      else and_then (each_res (\<lambda>p m. and_then (free_transaction (Some p) m) (\<lambda>(_, m). Inr m)) (tm_list m) (m\<lparr>tm_locked := True\<rparr>))
             (\<lambda>m. Inr (RET_SUCCESS, m\<lparr>tm_locked := False\<rparr>)))"

definition transaction_start :: "bool \<Rightarrow> byte list \<Rightarrow> byte list \<Rightarrow> tmanager \<Rightarrow> (ret \<times> tmanager) res" where
  "transaction_start malloc_ok junk tid m =
     and_then (get_transaction tid m) (\<lambda>obj.
       case obj of None \<Rightarrow> and_then (alloc_transaction malloc_ok junk tid m) (\<lambda>(_, m). Inr (RET_SUCCESS, m))
       | Some _ \<Rightarrow> Inr (RET_ERROR, m))"

text \<open>\<^verbatim>\<open>list_add\<close> puts the new frame first.\<close>

definition transaction_add :: "byte list \<Rightarrow> ptr \<Rightarrow> tmanager \<Rightarrow> (ret \<times> tmanager) res" where
  "transaction_add tid frame m =
     and_then (get_transaction tid m) (\<lambda>obj.
       case obj of None \<Rightarrow> Inr (RET_ERROR, m)
       | Some p \<Rightarrow>
           Inr (RET_SUCCESS, m\<lparr>tm_objs := (tm_objs m)(p := map_option (\<lambda>t. t\<lparr>t_frames := frame # t_frames t\<rparr>) (tm_objs m p))\<rparr>))"

definition transaction_abort :: "byte list \<Rightarrow> tmanager \<Rightarrow> (ret \<times> tmanager) res" where
  "transaction_abort tid m =
     and_then (get_transaction tid m) (\<lambda>obj.
       case obj of None \<Rightarrow> Inr (RET_ERROR, m)
       | Some p \<Rightarrow> and_then (free_transaction (Some p) m) (\<lambda>(_, m). Inr (RET_SUCCESS, m)))"

text \<open>
  The loop of \<^verbatim>\<open>transaction_commit\<close> over the frames, the rest of the program's state and
  whether \<^verbatim>\<open>break\<close> was reached. \<open>callback p s\<close> is a fault when the frame cannot be read, \<open>None\<close> when
  its \<^verbatim>\<open>transaction_callback\<close> is null, else the result of the call. The frame stays in the list
  when there is nothing to call.
\<close>

type_synonym 's callback = "ptr \<Rightarrow> 's \<Rightarrow> (ret \<times> 's) option res"

definition commit_step :: "'s callback \<Rightarrow> ptr list \<times> 's \<times> bool \<Rightarrow> (ptr list \<times> 's \<times> bool) res" where
  "commit_step callback = (\<lambda>(fs, s, stop).
     and_then (callback (hd fs) s) (\<lambda>called.
       Inr (case called of None \<Rightarrow> (fs, s, stop)
            | Some (ret_callback, s) \<Rightarrow> (tl fs, s, ret_callback = RET_ERROR))))"

definition commit_loop :: "'s callback \<Rightarrow> ptr list \<Rightarrow> 's \<Rightarrow> (ptr list \<times> 's \<times> bool) res option" where
  "commit_loop callback fs s =
     while_option (\<lambda>r. case r of Inl _ \<Rightarrow> False | Inr (fs, s, stop) \<Rightarrow> fs \<noteq> [] \<and> \<not> stop)
       (\<lambda>r. and_then r (commit_step callback)) (Inr (fs, s, False))"

text \<open>
  The \<^verbatim>\<open>ret_callback\<close> that is tested at the end is the outer variable, which the loop's own
  declaration hides: it is always \<^verbatim>\<open>RET_SUCCESS\<close>. The result is \<open>None\<close> when the loop does
  not end.
\<close>

definition transaction_commit :: "'s callback \<Rightarrow> byte list \<Rightarrow> tmanager \<Rightarrow> 's \<Rightarrow> (ret \<times> tmanager \<times> 's) res option" where
  "transaction_commit callback tid m s =
     (case get_transaction tid m of
        Inl e \<Rightarrow> Some (Inl e)
      | Inr None \<Rightarrow> Some (Inr (RET_ERROR, m, s))
      | Inr (Some p) \<Rightarrow>
          (let ret_callback = RET_SUCCESS;
               frames = (case tm_objs m p of None \<Rightarrow> [] | Some t \<Rightarrow> t_frames t)
           in map_option (\<lambda>r. and_then r (\<lambda>(fs, s, stop).
                let m = m\<lparr>tm_objs := (tm_objs m)(p := map_option (\<lambda>t. t\<lparr>t_frames := fs\<rparr>) (tm_objs m p))\<rparr> in
                and_then (free_transaction (Some p) m) (\<lambda>(_, m).
                  Inr (if ret_callback = RET_SUCCESS then RET_SUCCESS else RET_ERROR, m, s))))
              (commit_loop callback frames s)))"

text \<open>The operations see a name up to its null byte.\<close>

lemma get_transaction_cstr: "get_transaction (cstr tid) m = get_transaction tid m"
proof -
  have "tid_matches m (cstr tid) = tid_matches m tid"
    by (simp add: fun_eq_iff tid_matches_def strncmp0_cstr split: option.split)
  then show ?thesis by (simp add: get_transaction_def)
qed

lemma tx_ops_cstr:
  "transaction_start ok junk (cstr tid) m = transaction_start ok junk tid m"
  "transaction_add (cstr tid) f m = transaction_add tid f m"
  "transaction_abort (cstr tid) m = transaction_abort tid m"
  "transaction_commit callback (cstr tid) m s = transaction_commit callback tid m s"
proof -
  have "alloc_transaction ok junk (cstr tid) = alloc_transaction ok junk tid"
    by (simp add: fun_eq_iff alloc_transaction_def memcpy_cstr)
  then show "transaction_start ok junk (cstr tid) m = transaction_start ok junk tid m"
    by (simp add: transaction_start_def get_transaction_cstr cong: option.case_cong)
qed (simp_all add: transaction_add_def transaction_abort_def transaction_commit_def get_transaction_cstr)

section \<open>Invariant and abstraction\<close>

text \<open>The first \<open>L\<close> bytes of the name of the transaction at an address.\<close>

definition tid_at :: "nat \<Rightarrow> tmanager \<Rightarrow> ptr \<Rightarrow> byte list option" where
  "tid_at L m p = map_option (\<lambda>t. take L (t_tid t)) (tm_objs m p)"

definition tm_inv :: "nat \<Rightarrow> tmanager \<Rightarrow> bool" where
  "tm_inv L m \<longleftrightarrow> \<not> tm_locked m \<and> distinct (tm_list m) \<and>
     (\<forall>p\<in>set (tm_list m). p < tm_next m \<and> (\<exists>t. tm_objs m p = Some t \<and> L \<le> length (t_tid t))) \<and>
     distinct (map (tid_at L m) (tm_list m))"

text \<open>The names the abstraction is about: \<open>L\<close> bytes, none of them null, no longer than the array.\<close>

definition tid_ok :: "nat \<Rightarrow> byte list \<Rightarrow> bool" where
  "tid_ok L tid \<longleftrightarrow> length tid = L \<and> NUL \<notin> set tid \<and> L \<le> TID_SIZE"

definition tx_frames :: "tmanager \<Rightarrow> byte list \<Rightarrow> ptr list option" where
  "tx_frames m tid =
     (case find_last (tid_matches m tid) (tm_list m) of None \<Rightarrow> None
      | Some p \<Rightarrow> map_option t_frames (tm_objs m p))"

text \<open>The address a name stands for.\<close>

definition tx_at :: "nat \<Rightarrow> tmanager \<Rightarrow> byte list \<Rightarrow> ptr \<Rightarrow> bool" where
  "tx_at L m tid p \<longleftrightarrow> p \<in> set (tm_list m) \<and> tid_at L m p = Some tid"

lemma tid_matches_iff: "tid_ok L tid \<Longrightarrow> tid_matches m tid p \<longleftrightarrow> tid_at L m p = Some tid"
  using strncmp0_prefix [of tid] cstr_id [of tid]
  by (auto simp: tid_matches_def tid_at_def tid_ok_def strlen_def split: option.splits)

lemma tx_at_unique: "tm_inv L m \<Longrightarrow> tx_at L m tid p \<Longrightarrow> tx_at L m tid q \<Longrightarrow> p = q"
  unfolding tm_inv_def tx_at_def distinct_map by (metis inj_onD)

lemma find_tid:
  assumes "tm_inv L m" "tid_ok L tid"
  shows "find_last (tid_matches m tid) (tm_list m) = Some p \<longleftrightarrow> tx_at L m tid p"
proof
  assume p: "tx_at L m tid p"
  show "find_last (tid_matches m tid) (tm_list m) = Some p"
  proof (rule find_last_unique)
    show "p \<in> set (tm_list m)" "tid_matches m tid p"
      using p by (simp_all add: tx_at_def tid_matches_iff [OF assms(2)])
    fix q assume "q \<in> set (tm_list m)" "tid_matches m tid q"
    then have "tx_at L m tid q" by (simp add: tx_at_def tid_matches_iff [OF assms(2)])
    then show "q = p" by (rule tx_at_unique [OF assms(1) _ p])
  qed
next
  assume "find_last (tid_matches m tid) (tm_list m) = Some p"
  from find_last_SomeD [OF this] show "tx_at L m tid p"
    by (simp add: tx_at_def tid_matches_iff [OF assms(2)])
qed

lemma tx_frames_at:
  assumes "tm_inv L m" "tid_ok L tid"
  shows "tx_at L m tid p \<Longrightarrow> tx_frames m tid = map_option t_frames (tm_objs m p)"
    and "(\<And>p. \<not> tx_at L m tid p) \<Longrightarrow> tx_frames m tid = None"
proof -
  assume "tx_at L m tid p"
  then have "find_last (tid_matches m tid) (tm_list m) = Some p" using find_tid [OF assms] by simp
  then show "tx_frames m tid = map_option t_frames (tm_objs m p)" by (simp add: tx_frames_def)
next
  assume "\<And>p. \<not> tx_at L m tid p"
  then have "find_last (tid_matches m tid) (tm_list m) = None"
    using find_tid [OF assms] by (cases "find_last (tid_matches m tid) (tm_list m)") auto
  then show "tx_frames m tid = None" by (simp add: tx_frames_def)
qed

lemma tx_at_frames:
  assumes "tm_inv L m" "tid_ok L tid" "tx_frames m tid = Some fs"
  shows "\<exists>p t. tx_at L m tid p \<and> tm_objs m p = Some t \<and> t_frames t = fs"
proof -
  obtain p where p: "tx_at L m tid p" using tx_frames_at(2) [OF assms(1,2)] assms(3) by force
  then show ?thesis using tx_frames_at(1) [OF assms(1,2) p] assms(3) by (cases "tm_objs m p") auto
qed

lemma no_tx_at:
  assumes "tm_inv L m" "tid_ok L tid" "tx_frames m tid = None"
  shows "\<not> tx_at L m tid p"
proof
  assume p: "tx_at L m tid p"
  then have "tm_objs m p \<noteq> None" using assms(1) by (auto simp: tm_inv_def tx_at_def)
  then show False using tx_frames_at(1) [OF assms(1,2) p] assms(3) by auto
qed

text \<open>A name is not affected by a change elsewhere.\<close>

lemma tx_frames_cong:
  assumes "tm_inv L m" "tm_inv L m'" "tid_ok L tid"
    and "\<And>p. tx_at L m' tid p \<longleftrightarrow> tx_at L m tid p" and "\<And>p. tx_at L m tid p \<Longrightarrow> tm_objs m' p = tm_objs m p"
  shows "tx_frames m' tid = tx_frames m tid"
proof (cases "\<exists>p. tx_at L m tid p")
  case True
  then show ?thesis using assms(4,5) tx_frames_at(1) [OF assms(1,3)] tx_frames_at(1) [OF assms(2,3)] by metis
next
  case False
  then show ?thesis using assms(4) tx_frames_at(2) [OF assms(1,3)] tx_frames_at(2) [OF assms(2,3)] by metis
qed

lemma get_transaction_at:
  assumes "tm_inv L m" "tid_ok L tid"
  shows "tx_at L m tid p \<Longrightarrow> get_transaction tid m = Inr (Some p)"
    and "tx_frames m tid = None \<Longrightarrow> get_transaction tid m = Inr None"
proof -
  have nl: "\<not> tm_locked m" using assms(1) by (simp add: tm_inv_def)
  show "tx_at L m tid p \<Longrightarrow> get_transaction tid m = Inr (Some p)"
    using nl find_tid [OF assms, of p] by (simp add: get_transaction_def)
  assume "tx_frames m tid = None"
  then have "find_last (tid_matches m tid) (tm_list m) \<noteq> Some q" for q
    using no_tx_at [OF assms] find_tid [OF assms, of q] by simp
  then show "get_transaction tid m = Inr None"
    using nl by (cases "find_last (tid_matches m tid) (tm_list m)") (auto simp: get_transaction_def)
qed

section \<open>The operations\<close>

text \<open>What an operation on one name leaves of the others.\<close>

definition others_kept :: "nat \<Rightarrow> byte list \<Rightarrow> tmanager \<Rightarrow> tmanager \<Rightarrow> bool" where
  "others_kept L tid m m' \<longleftrightarrow> (\<forall>tid'. tid_ok L tid' \<longrightarrow> tid' \<noteq> tid \<longrightarrow> tx_frames m' tid' = tx_frames m tid')"

lemma transaction_start_ok:
  assumes inv: "tm_inv L m" and tid: "tid_ok L tid" and new: "tx_frames m tid = None" and junk: "length junk = TID_SIZE"
  shows "\<exists>m'. transaction_start True junk tid m = Inr (RET_SUCCESS, m') \<and> tm_inv L m' \<and> tx_frames m' tid = Some [] \<and>
    others_kept L tid m m'"
proof -
  define p where "p = tm_next m"
  define t where "t = \<lparr>t_tid = memcpy junk tid (strlen tid), t_frames = []\<rparr>"
  define m' where "m' = m\<lparr>tm_objs := (tm_objs m)(p \<mapsto> t), tm_list := tm_list m @ [p], tm_next := p + 1\<rparr>"
  have len: "strlen tid = L" "L \<le> TID_SIZE" "length tid = L"
    using tid by (simp_all add: tid_ok_def strlen_def cstr_id)
  have t: "take L (t_tid t) = tid" "L \<le> length (t_tid t)" "t_frames t = []"
    using len junk by (simp_all add: t_def memcpy_def)
  have fresh: "p \<notin> set (tm_list m)" using inv by (auto simp: tm_inv_def p_def)
  have run: "transaction_start True junk tid m = Inr (RET_SUCCESS, m')"
    using get_transaction_at(2) [OF inv tid new] inv len
    by (simp add: transaction_start_def alloc_transaction_def tm_inv_def Let_def m'_def p_def t_def)
  have at: "tid_at L m' q = (if q = p then Some tid else tid_at L m q)" for q
    by (simp add: tid_at_def m'_def t)
  have "distinct (map (tid_at L m') (tm_list m))"
    using inv fresh at unfolding tm_inv_def by (metis distinct_map_cong)
  moreover have "Some tid \<notin> tid_at L m' ` set (tm_list m)"
  proof
    assume "Some tid \<in> tid_at L m' ` set (tm_list m)"
    then obtain q where "q \<in> set (tm_list m)" "tid_at L m' q = Some tid" by auto
    then have "tx_at L m tid q" using fresh at [of q] by (cases "q = p") (auto simp: tx_at_def)
    then show False using no_tx_at [OF inv tid new] by blast
  qed
  moreover have l: "tm_list m' = tm_list m @ [p]" and "tid_at L m' p = Some tid"
    by (simp add: m'_def, simp add: at)
  ultimately have "distinct (map (tid_at L m') (tm_list m'))" by simp
  then have inv': "tm_inv L m'"
    using inv fresh t l unfolding tm_inv_def by (auto simp: m'_def p_def less_SucI)
  have tx: "tx_at L m' tid' q \<longleftrightarrow> (if q = p then tid' = tid else tx_at L m tid' q)" for tid' q
    using fresh by (auto simp: tx_at_def at) (auto simp: m'_def)
  have "tx_at L m' tid p" by (simp add: tx)
  then have "tx_frames m' tid = Some []" using tx_frames_at(1) [OF inv' tid] t by (simp add: m'_def)
  moreover have "tx_frames m' tid' = tx_frames m tid'" if "tid_ok L tid'" "tid' \<noteq> tid" for tid'
  proof (rule tx_frames_cong [OF inv inv' that(1)])
    have "\<not> tx_at L m tid' p" using fresh by (simp add: tx_at_def)
    then show "tx_at L m' tid' q \<longleftrightarrow> tx_at L m tid' q" for q using that tx by simp
    then show "tx_at L m tid' q \<Longrightarrow> tm_objs m' q = tm_objs m q" for q
      using fresh by (auto simp: tx_at_def m'_def)
  qed
  ultimately show ?thesis using run inv' by (auto simp: others_kept_def)
qed

text \<open>Changing the frames of the transaction that a name stands for, and removing it.\<close>

lemma set_frames_ok:
  assumes inv: "tm_inv L m" and tid: "tid_ok L tid" and p: "tx_at L m tid p" "tm_objs m p = Some t"
    and m': "m' = m\<lparr>tm_objs := (tm_objs m)(p \<mapsto> t\<lparr>t_frames := fs\<rparr>)\<rparr>"
  shows "tm_inv L m'" "tx_at L m' tid p" "tx_frames m' tid = Some fs" "others_kept L tid m m'"
proof -
  have at: "tid_at L m' = tid_at L m" using p(2) by (auto simp: m' tid_at_def)
  then show inv': "tm_inv L m'" using inv p(2) unfolding tm_inv_def by (auto simp: m')
  have tx: "tx_at L m' tid' q \<longleftrightarrow> tx_at L m tid' q" for tid' q by (simp add: tx_at_def at) (simp add: m')
  show txp: "tx_at L m' tid p" using p(1) by (simp add: tx)
  show "tx_frames m' tid = Some fs" using tx_frames_at(1) [OF inv' tid txp] by (simp add: m')
  have "tx_frames m' tid' = tx_frames m tid'" if "tid_ok L tid'" "tid' \<noteq> tid" for tid'
    using that p(1) tx by (intro tx_frames_cong [OF inv inv']) (auto simp: tx_at_def m')
  then show "others_kept L tid m m'" by (simp add: others_kept_def)
qed

lemma transaction_add_ok:
  assumes inv: "tm_inv L m" and tid: "tid_ok L tid" and fs: "tx_frames m tid = Some fs"
  shows "\<exists>m'. transaction_add tid f m = Inr (RET_SUCCESS, m') \<and> tm_inv L m' \<and> tx_frames m' tid = Some (f # fs) \<and>
    others_kept L tid m m'"
proof -
  obtain p t where p: "tx_at L m tid p" "tm_objs m p = Some t" "t_frames t = fs"
    using tx_at_frames [OF inv tid fs] by blast
  then have "transaction_add tid f m = Inr (RET_SUCCESS, m\<lparr>tm_objs := (tm_objs m)(p \<mapsto> t\<lparr>t_frames := f # fs\<rparr>)\<rparr>)"
    using get_transaction_at(1) [OF inv tid p(1)] by (simp add: transaction_add_def)
  with set_frames_ok [OF inv tid p(1,2) refl, of "f # fs"] show ?thesis by blast
qed

lemma free_transaction_ok:
  assumes inv: "tm_inv L m" and tid: "tid_ok L tid" and p: "tx_at L m tid p"
  shows "\<exists>m'. free_transaction (Some p) m = Inr (RET_SUCCESS, m') \<and> tm_inv L m' \<and> tx_frames m' tid = None \<and>
    others_kept L tid m m'"
proof -
  define m' where "m' = m\<lparr>tm_list := remove1 p (tm_list m), tm_objs := (tm_objs m)(p := None)\<rparr>"
  have d: "distinct (tm_list m)" using inv by (simp add: tm_inv_def)
  have l: "q \<in> set (tm_list m') \<longleftrightarrow> q \<in> set (tm_list m) \<and> q \<noteq> p" for q using d by (auto simp: m'_def)
  have at: "q \<noteq> p \<Longrightarrow> tid_at L m' q = tid_at L m q" for q by (simp add: tid_at_def m'_def)
  have "distinct (map (tid_at L m) (tm_list m'))"
    using inv by (auto simp: tm_inv_def m'_def distinct_map intro: inj_on_subset set_remove1_subset)
  then have "distinct (map (tid_at L m') (tm_list m'))"
    using l at by (metis distinct_map_cong)
  then have inv': "tm_inv L m'"
    using inv l d unfolding tm_inv_def by (auto simp: m'_def)
  have tx: "tx_at L m' tid' q \<longleftrightarrow> q \<noteq> p \<and> tx_at L m tid' q" for tid' q
    using l at by (auto simp: tx_at_def)
  have "tx_frames m' tid = None"
    using tx_frames_at(2) [OF inv' tid] tx tx_at_unique [OF inv _ p] by blast
  moreover have "tx_frames m' tid' = tx_frames m tid'" if "tid_ok L tid'" "tid' \<noteq> tid" for tid'
    using that p tx by (intro tx_frames_cong [OF inv inv']) (auto simp: tx_at_def m'_def)
  moreover have "free_transaction (Some p) m = Inr (RET_SUCCESS, m')"
    using inv p by (auto simp: free_transaction_def tm_inv_def m'_def tx_at_def)
  ultimately show ?thesis using inv' by (auto simp: others_kept_def)
qed

lemma transaction_abort_ok:
  assumes inv: "tm_inv L m" and tid: "tid_ok L tid" and fs: "tx_frames m tid = Some fs"
  shows "\<exists>m'. transaction_abort tid m = Inr (RET_SUCCESS, m') \<and> tm_inv L m' \<and> tx_frames m' tid = None \<and>
    others_kept L tid m m'"
proof -
  obtain p where p: "tx_at L m tid p" using tx_at_frames [OF inv tid fs] by blast
  with free_transaction_ok [OF inv tid p] get_transaction_at(1) [OF inv tid p] show ?thesis
    by (auto simp: transaction_abort_def)
qed

section \<open>The interface of the protocol handlers\<close>

text \<open>
  What the handlers use: names are open or not, opening starts with no frames, adding
  puts a frame in front, and no operation touches another name.
\<close>

locale tx_store =
  fixes inv :: "'s \<Rightarrow> bool" and ok :: "'n \<Rightarrow> bool" and frames :: "'s \<Rightarrow> 'n \<Rightarrow> 'f list option"
    and start :: "'n \<Rightarrow> 's \<Rightarrow> (ret \<times> 's) res" and add :: "'n \<Rightarrow> 'f \<Rightarrow> 's \<Rightarrow> (ret \<times> 's) res"
  assumes start_law: "inv s \<Longrightarrow> ok n \<Longrightarrow> frames s n = None \<Longrightarrow>
      \<exists>s'. start n s = Inr (RET_SUCCESS, s') \<and> inv s' \<and> frames s' n = Some [] \<and>
        (\<forall>n'. ok n' \<longrightarrow> n' \<noteq> n \<longrightarrow> frames s' n' = frames s n')"
    and add_law: "inv s \<Longrightarrow> ok n \<Longrightarrow> frames s n = Some fs \<Longrightarrow>
      \<exists>s'. add n f s = Inr (RET_SUCCESS, s') \<and> inv s' \<and> frames s' n = Some (f # fs) \<and>
        (\<forall>n'. ok n' \<longrightarrow> n' \<noteq> n \<longrightarrow> frames s' n' = frames s n')"
begin

lemma add_all:
  assumes "inv s" and "\<forall>(n, f)\<in>set ops. ok n \<and> frames s n \<noteq> None"
  shows "\<exists>s'. each_res (\<lambda>(n, f) s. and_then (add n f s) (\<lambda>(_, s). Inr s)) ops s = Inr s' \<and> inv s' \<and>
    (\<forall>n. ok n \<longrightarrow> frames s' n = map_option (\<lambda>fs. rev (map snd (filter (\<lambda>x. fst x = n) ops)) @ fs) (frames s n))"
  using assms
proof (induction ops arbitrary: s)
  case Nil
  then show ?case by (simp add: option.map_ident)
next
  case (Cons x ops)
  obtain n f where x: "x = (n, f)" by (cases x)
  obtain fs where n: "ok n" "frames s n = Some fs" using Cons.prems(2) x by auto
  obtain s1 where s1: "add n f s = Inr (RET_SUCCESS, s1)" "inv s1" "frames s1 n = Some (f # fs)"
    and oth: "\<forall>n'. ok n' \<longrightarrow> n' \<noteq> n \<longrightarrow> frames s1 n' = frames s n'"
    using add_law [OF Cons.prems(1) n] by blast
  have "\<forall>(n', f)\<in>set ops. ok n' \<and> frames s1 n' \<noteq> None"
    using Cons.prems(2) oth s1(3) by (auto split: prod.splits) (metis option.distinct(1))+
  then obtain s' where s': "each_res (\<lambda>(n, f) s. and_then (add n f s) (\<lambda>(_, s). Inr s)) ops s1 = Inr s'" "inv s'"
    and fr: "\<forall>n. ok n \<longrightarrow> frames s' n = map_option (\<lambda>fs. rev (map snd (filter (\<lambda>x. fst x = n) ops)) @ fs) (frames s1 n)"
    using Cons.IH [OF s1(2)] by blast
  have "frames s' n' = map_option (\<lambda>fs. rev (map snd (filter (\<lambda>x. fst x = n') (x # ops))) @ fs) (frames s n')" if "ok n'" for n'
    using that fr oth s1(3) n(2) x by (cases "n' = n") auto
  then show ?case using s' s1(1) x by auto
qed

end

interpretation manager: tx_store "tm_inv L" "tid_ok L" tx_frames "transaction_start True (replicate TID_SIZE NUL)" transaction_add for L
  by unfold_locales
    (use transaction_start_ok transaction_add_ok in \<open>auto simp: others_kept_def\<close>)

section \<open>Commit\<close>

lemma commit_loop_run:
  assumes "\<forall>f\<in>set xs. \<forall>s. callback f s = Inr (Some (RET_SUCCESS, step f s))"
  shows "commit_loop callback (xs @ ys) s = commit_loop callback ys (fold step xs s)"
  using assms
proof (induction xs arbitrary: s)
  case Nil
  then show ?case by simp
next
  case (Cons x xs)
  have "commit_loop callback ((x # xs) @ ys) s = commit_loop callback (xs @ ys) (step x s)"
    unfolding commit_loop_def using Cons.prems by (subst while_option_step) (simp_all add: commit_step_def)
  with Cons show ?case by simp
qed

lemma commit_loop_nil: "commit_loop callback [] s = Some (Inr ([], s, False))"
  unfolding commit_loop_def by (subst while_option_exit) simp_all

lemma commit_loop_error:
  "callback f s = Inr (Some (RET_ERROR, s')) \<Longrightarrow> commit_loop callback (f # fs) s = Some (Inr (fs, s', True))"
  unfolding commit_loop_def by (subst while_option_step) (simp_all add: while_option_exit commit_step_def)

lemma commit_loop_stuck: "callback f s = Inr None \<Longrightarrow> commit_loop callback (f # fs) s = None"
  unfolding commit_loop_def
  by (rule while_option_diverges [where P = "\<lambda>x. x = Inr (f # fs, s, False)"]) (auto simp: commit_step_def)

lemma transaction_commit_ok:
  assumes inv: "tm_inv L m" and tid: "tid_ok L tid" and fs: "tx_frames m tid = Some fs"
    and loop: "commit_loop callback fs s = Some (Inr (fs', s', b))"
  shows "\<exists>m'. transaction_commit callback tid m s = Some (Inr (RET_SUCCESS, m', s')) \<and> tm_inv L m' \<and>
    tx_frames m' tid = None \<and> others_kept L tid m m'"
proof -
  obtain p t where p: "tx_at L m tid p" "tm_objs m p = Some t" "t_frames t = fs"
    using tx_at_frames [OF inv tid fs] by blast
  define m1 where "m1 = m\<lparr>tm_objs := (tm_objs m)(p \<mapsto> t\<lparr>t_frames := fs'\<rparr>)\<rparr>"
  note m1 = set_frames_ok [OF inv tid p(1,2) m1_def]
  obtain m' where m': "free_transaction (Some p) m1 = Inr (RET_SUCCESS, m')" "tm_inv L m'" "tx_frames m' tid = None"
    "others_kept L tid m1 m'" using free_transaction_ok [OF m1(1) tid m1(2)] by blast
  have "transaction_commit callback tid m s = Some (Inr (RET_SUCCESS, m', s'))"
    using get_transaction_at(1) [OF inv tid p(1)] p loop m'(1) by (simp add: transaction_commit_def m1_def)
  then show ?thesis using m' m1(4) by (auto simp: others_kept_def)
qed

section \<open>Properties\<close>

definition tm0 :: tmanager where
  "tm0 = \<lparr>tm_objs = (\<lambda>_. None), tm_list = [], tm_next = 1, tm_locked = False\<rparr>"

text \<open>
  C7. A transaction from start to commit, interleaved with others. For names of one
  length: a name that is not open can be started; while any frames are added to it and
  to other open transactions, in any order, no operation fails; \<^verbatim>\<open>transaction_commit\<close> on
  it returns \<^verbatim>\<open>RET_SUCCESS\<close>, calls the callback of exactly the frames added under this name,
  each once, last added first, and closes the name, while the frames of every
  other transaction are those added to it.
\<close>

theorem transaction_session:
  assumes "tm_inv L m" and "tid_ok L tid" and "tx_frames m tid = None"
    and "\<forall>(n, f)\<in>set ops. tid_ok L n \<and> (n = tid \<or> tx_frames m n \<noteq> None)"
    and "\<forall>f\<in>snd ` set ops. \<forall>s. callback f s = Inr (Some (RET_SUCCESS, step f s))"
  shows "\<exists>m1 m2 m3. transaction_start True (replicate TID_SIZE NUL) tid m = Inr (RET_SUCCESS, m1) \<and>
    each_res (\<lambda>(n, f) m. and_then (transaction_add n f m) (\<lambda>(_, m). Inr m)) ops m1 = Inr m2 \<and>
    transaction_commit callback tid m2 s =
      Some (Inr (RET_SUCCESS, m3, fold step (rev (map snd (filter (\<lambda>x. fst x = tid) ops))) s)) \<and>
    tm_inv L m3 \<and> tx_frames m3 tid = None \<and>
    (\<forall>n. tid_ok L n \<and> n \<noteq> tid \<longrightarrow>
       tx_frames m3 n = map_option (\<lambda>fs. rev (map snd (filter (\<lambda>x. fst x = n) ops)) @ fs) (tx_frames m n))"
proof -
  obtain m1 where m1: "transaction_start True (replicate TID_SIZE NUL) tid m = Inr (RET_SUCCESS, m1)" "tm_inv L m1"
    "tx_frames m1 tid = Some []" and o1: "\<forall>n'. tid_ok L n' \<longrightarrow> n' \<noteq> tid \<longrightarrow> tx_frames m1 n' = tx_frames m n'"
    using manager.start_law [OF assms(1-3)] by blast
  have "\<forall>(n, f)\<in>set ops. tid_ok L n \<and> tx_frames m1 n \<noteq> None" using assms(4) m1(3) o1 by fastforce
  then obtain m2 where m2: "each_res (\<lambda>(n, f) m. and_then (transaction_add n f m) (\<lambda>(_, m). Inr m)) ops m1 = Inr m2"
    "tm_inv L m2" and o2: "\<forall>n. tid_ok L n \<longrightarrow> tx_frames m2 n =
      map_option (\<lambda>fs. rev (map snd (filter (\<lambda>x. fst x = n) ops)) @ fs) (tx_frames m1 n)"
    using manager.add_all [OF m1(2)] by blast
  define fs where "fs = rev (map snd (filter (\<lambda>x. fst x = tid) ops))"
  have f2: "tx_frames m2 tid = Some fs" using o2 assms(2) m1(3) by (simp add: fs_def)
  have loop: "commit_loop callback fs s = Some (Inr ([], fold step fs s, False))"
    using commit_loop_run [of fs callback step "[]" s] assms(5) by (auto simp: fs_def commit_loop_nil)
  obtain m3 where "transaction_commit callback tid m2 s = Some (Inr (RET_SUCCESS, m3, fold step fs s))" "tm_inv L m3"
    "tx_frames m3 tid = None" "others_kept L tid m2 m3"
    using transaction_commit_ok [OF m2(2) assms(2) f2 loop] by blast
  then show ?thesis using m1(1) m2(1) o1 o2 by (auto simp: fs_def others_kept_def)
qed

lemma tm0_inv: "tm_inv L tm0" "tx_frames tm0 tid = None"
  by (simp_all add: tm_inv_def tm0_def tx_frames_def)

theorem transaction_session_witness:
  "\<exists>m1 m2 m3. transaction_start True (replicate TID_SIZE NUL) ''t1'' tm0 = Inr (RET_SUCCESS, m1) \<and>
    each_res (\<lambda>(n, f) m. and_then (transaction_add n f m) (\<lambda>(_, m). Inr m)) [(''t1'', 7), (''t1'', 8)] m1 = Inr m2 \<and>
    transaction_commit (\<lambda>f s. Inr (Some (RET_SUCCESS, s @ [f]))) ''t1'' m2 [] =
      Some (Inr (RET_SUCCESS, m3, fold (\<lambda>f s. s @ [f]) (rev (map snd (filter (\<lambda>x. fst x = ''t1'') [(''t1'', 7), (''t1'', 8)]))) [])) \<and>
    tm_inv 2 m3 \<and> tx_frames m3 ''t1'' = None \<and>
    (\<forall>n. tid_ok 2 n \<and> n \<noteq> ''t1'' \<longrightarrow>
       tx_frames m3 n = map_option (\<lambda>fs. rev (map snd (filter (\<lambda>x. fst x = n) [(''t1'', 7), (''t1'', 8)])) @ fs) (tx_frames tm0 n))"
  by (rule transaction_session) (simp_all add: tm0_inv tid_ok_def TID_SIZE_def)

lemma transaction_commit_stuck:
  assumes "tm_inv L m" and "tid_ok L tid" and "tx_frames m tid = Some (f # fs)" and "callback f s = Inr None"
  shows "transaction_commit callback tid m s = None"
proof -
  obtain p t where p: "tx_at L m tid p" "tm_objs m p = Some t" "t_frames t = f # fs"
    using tx_at_frames [OF assms(1-3)] by blast
  then show ?thesis
    using get_transaction_at(1) [OF assms(1,2) p(1)] commit_loop_stuck [of callback f s fs] assms(4)
    by (simp add: transaction_commit_def)
qed

text \<open>
  C25. Commit with a frame that has no callback. When the most recently added frame of an
  open transaction has a null \<^verbatim>\<open>transaction_callback\<close>, \<^verbatim>\<open>transaction_commit\<close> never returns: the
  loop leaves such a frame at the head of the list and tests it again, with the
  transaction's mutex held. None of the server's handlers sets one.
\<close>

theorem commit_without_callback_diverges:
  assumes "tm_inv L m" and "tid_ok L tid" and "tx_frames m tid = Some (f # fs)" and "callback f s = Inr None"
  shows "transaction_commit callback tid m s = None"
  using assms by (rule transaction_commit_stuck)

text \<open>A manager with one open transaction, for the witnesses.\<close>

definition tm1 :: "ptr list \<Rightarrow> tmanager" where
  "tm1 fs = \<lparr>tm_objs = [1 \<mapsto> \<lparr>t_tid = ''t1'' @ replicate 510 NUL, t_frames = fs\<rparr>], tm_list = [1], tm_next = 2, tm_locked = False\<rparr>"

lemma tm1_facts: "tm_inv 2 (tm1 fs)" "tid_ok 2 ''t1''" "tx_frames (tm1 fs) ''t1'' = Some fs"
proof -
  show "tm_inv 2 (tm1 fs)" by (simp add: tm_inv_def tm1_def)
  show "tid_ok 2 ''t1''" by (simp add: tid_ok_def TID_SIZE_def)
  have "tid_matches (tm1 fs) ''t1'' 1"
    using tid_matches_iff [of 2 "''t1''"] by (simp add: tid_ok_def TID_SIZE_def tid_at_def tm1_def)
  then show "tx_frames (tm1 fs) ''t1'' = Some fs"
    by (simp add: tx_frames_def tm1_def)
qed

theorem commit_without_callback_diverges_witness:
  "transaction_commit (\<lambda>f s. Inr (if f = 8 then None else Some (RET_SUCCESS, s))) ''t1'' (tm1 [8, 7]) (0 :: nat) = None"
  by (rule commit_without_callback_diverges [OF tm1_facts]) simp

text \<open>
  C26. A failed callback is reported as success. When the callback of some frame returns
  \<^verbatim>\<open>RET_ERROR\<close>, the loop stops there, the frames behind it are dropped with the
  transaction and their callbacks never run, and \<^verbatim>\<open>transaction_commit\<close> still returns
  \<^verbatim>\<open>RET_SUCCESS\<close>, because the loop's \<^verbatim>\<open>ret_callback\<close> hides the one that decides.
\<close>

theorem commit_hides_failure:
  assumes "tm_inv L m" and "tid_ok L tid" and "tx_frames m tid = Some (xs @ f # ys)"
    and "\<forall>f\<in>set xs. \<forall>s. callback f s = Inr (Some (RET_SUCCESS, step f s))"
    and "callback f (fold step xs s) = Inr (Some (RET_ERROR, s'))"
  shows "\<exists>m'. transaction_commit callback tid m s = Some (Inr (RET_SUCCESS, m', s')) \<and> tx_frames m' tid = None"
proof -
  have "commit_loop callback (xs @ f # ys) s = Some (Inr (ys, s', True))"
    using commit_loop_run [OF assms(4)] commit_loop_error [of callback f _ s'] assms(5) by simp
  from transaction_commit_ok [OF assms(1-3) this] show ?thesis by blast
qed

theorem commit_hides_failure_witness:
  "\<exists>m'. transaction_commit (\<lambda>f s. Inr (Some (if f = 8 then RET_ERROR else RET_SUCCESS, s @ [f]))) ''t1'' (tm1 ([9] @ 8 # [7])) [] =
      Some (Inr (RET_SUCCESS, m', [9, 8])) \<and> tx_frames m' ''t1'' = None"
  by (rule commit_hides_failure [OF tm1_facts, where step = "\<lambda>f s. s @ [f]"]) simp_all

text \<open>
  \<^verbatim>\<open>transaction_destruct\<close> with an open transaction. It holds the manager's mutex, which
  is not recursive, while it calls \<^verbatim>\<open>free_transaction\<close>, which locks the same mutex: with one
  or more transactions in the list the thread waits for itself forever; with none it
  returns \<^verbatim>\<open>RET_SUCCESS\<close> and changes nothing.
\<close>

theorem transaction_destruct_deadlocks:
  assumes "\<not> tm_locked m"
  shows "transaction_destruct m = (if tm_list m = [] then Inr (RET_SUCCESS, m) else Inl Deadlock)"
  using assms by (cases m, cases "tm_list m") (auto simp: transaction_destruct_def free_transaction_def)

theorem transaction_destruct_deadlocks_witness:
  "transaction_destruct (tm1 []) = (if tm_list (tm1 []) = [] then Inr (RET_SUCCESS, tm1 []) else Inl Deadlock)"
  by (rule transaction_destruct_deadlocks) (simp add: tm1_def)

text \<open>
  Names are compared by prefix. Once a transaction is open under a name, every prefix of
  that name, the empty one included, denotes the same transaction: it cannot be started,
  and frames added under the prefix go to the transaction with the longer name.
\<close>

theorem transaction_prefix_confused:
  assumes "\<not> tm_locked m" and "NUL \<notin> set tid" and "length junk = TID_SIZE"
    and "transaction_start True junk tid m = Inr (RET_SUCCESS, m1)"
  shows "transaction_start malloc_ok junk' (take k tid) m1 = Inr (RET_ERROR, m1) \<and>
    transaction_add (take k tid) f m1 = transaction_add tid f m1"
proof -
  define p where "p = tm_next m"
  define t where "t = \<lparr>t_tid = memcpy junk tid (strlen tid), t_frames = []\<rparr>"
  have m1: "m1 = m\<lparr>tm_objs := (tm_objs m)(p \<mapsto> t), tm_list := tm_list m @ [p], tm_next := p + 1\<rparr>"
    and len: "length tid \<le> TID_SIZE"
    using assms(1,2,4)
    by (auto simp: transaction_start_def alloc_transaction_def get_transaction_def Let_def p_def t_def strlen_def cstr_id
        and_then_eq_Inr split: option.splits if_splits)
  have match: "tid_matches m1 (take j tid) p" for j
  proof -
    have n: "NUL \<notin> set (take j tid)" using assms(2) by (meson in_set_takeD)
    have "take (length (take j tid)) (t_tid t) = take j tid"
      using assms(2) by (simp add: t_def memcpy_def strlen_def cstr_id min_def)
    then show ?thesis
      using strncmp0_prefix [OF n, of "t_tid t"] by (simp add: tid_matches_def m1 strlen_def cstr_id [OF n])
  qed
  have g: "get_transaction (take j tid) m1 = Inr (Some p)" for j
    using match [of j] assms(1) by (simp add: get_transaction_def m1 find_last_append)
  show ?thesis using g [of k] g [of "length tid"] by (simp add: transaction_start_def transaction_add_def)
qed

theorem transaction_prefix_confused_witness:
  "transaction_start True [] (take 1 ''ab'') (snd (projr (transaction_start True (replicate TID_SIZE NUL) ''ab'' tm0))) =
     Inr (RET_ERROR, snd (projr (transaction_start True (replicate TID_SIZE NUL) ''ab'' tm0))) \<and>
   transaction_add (take 1 ''ab'') 7 (snd (projr (transaction_start True (replicate TID_SIZE NUL) ''ab'' tm0))) =
     transaction_add ''ab'' 7 (snd (projr (transaction_start True (replicate TID_SIZE NUL) ''ab'' tm0)))"
proof (rule transaction_prefix_confused)
  have "tid_ok 2 ''ab''" by (simp add: tid_ok_def TID_SIZE_def)
  from transaction_start_ok [OF tm0_inv(1) this tm0_inv(2), of "replicate TID_SIZE NUL"]
  show "transaction_start True (replicate TID_SIZE NUL) ''ab'' tm0 =
      Inr (RET_SUCCESS, snd (projr (transaction_start True (replicate TID_SIZE NUL) ''ab'' tm0)))" by auto
qed (simp_all add: tm0_def)

end
