(* ===== verification/Protocol.thy ===== *)
theory Protocol
  imports Sending Transaction
begin

text \<open>
  The management worker (\<^verbatim>\<open>lib/stomp_management_worker.c\<close>) and the handlers of the STOMP
  commands (\<^verbatim>\<open>lib/stomp_proto_*.c\<close>): frames are taken from the bucket, their headers are matched
  against a table of header handlers, and the command's handler changes the queues, the
  transactions, the workers and the connections. All of the server's state is one
  record. A handler's result is \<open>None\<close> when it never returns, which only COMMIT can do.
  A pointer into a header line is the memory from there to the end of the line's array.
\<close>

section \<open>State\<close>

record subscribe_t =
  sub_id :: "byte list"
  sub_thread :: nat

record world = broker +
  w_tm :: tmanager
  w_conns :: "ptr \<Rightarrow> stomp_conninfo_t option"
  w_subs :: "subscribe_t list"
  w_cancelled :: "nat list"

text \<open>
  What a handler depends on: the operating system, which files open and which allocations
  succeed, the content of fresh memory, and the functions behind \<^verbatim>\<open>transaction_callback\<close> pointers.
\<close>

record env =
  e_os :: os
  e_open :: "path \<Rightarrow> bool"
  e_queue :: mallocs
  e_send :: send_mallocs
  e_tx :: bool
  e_qinfo :: bool
  e_junk :: "byte list"
  e_call :: "ptr \<Rightarrow> ptr \<Rightarrow> world \<Rightarrow> ret \<times> world"

section \<open>Subscribers\<close>

definition initialize_manager :: "world \<Rightarrow> ret \<times> world" where
  "initialize_manager w = (RET_SUCCESS, w\<lparr>w_subs := []\<rparr>)"

definition register_subscriber :: "bool \<Rightarrow> byte list \<Rightarrow> byte list option \<Rightarrow> nat \<Rightarrow> subscribe_t list \<Rightarrow> ret \<times> subscribe_t list" where
  "register_subscriber malloc_ok junk i tid subs =
     (case i of None \<Rightarrow> (RET_SUCCESS, subs)
      | Some s \<Rightarrow>
          if \<not> malloc_ok then (RET_ERROR, subs)
          else let len = (if strlen s < LD_MAX then strlen s else LD_MAX)
               in (RET_SUCCESS, \<lparr>sub_id = memcpy junk s len, sub_thread = tid\<rparr> # subs))"

text \<open>Both of these look at the first entry of the list, whatever the identifier.\<close>

definition unregister_subscriber :: "byte list option \<Rightarrow> subscribe_t list \<Rightarrow> ret \<times> subscribe_t list" where
  "unregister_subscriber i subs =
     (case i of None \<Rightarrow> (RET_ERROR, subs)
      | Some _ \<Rightarrow> (case subs of [] \<Rightarrow> (RET_ERROR, subs) | _ # subs \<Rightarrow> (RET_SUCCESS, subs)))"

definition get_subscriber :: "byte list option \<Rightarrow> subscribe_t list \<Rightarrow> subscribe_t option" where
  "get_subscriber i subs =
     (case i of None \<Rightarrow> None | Some _ \<Rightarrow> (case subs of [] \<Rightarrow> None | s # _ \<Rightarrow> Some s))"

section \<open>Headers\<close>

text \<open>A header handler gets the text behind the header's name, its data, and the line, which it may change.\<close>

type_synonym 'd header_handler = "byte list \<Rightarrow> 'd \<Rightarrow> linedata_t \<Rightarrow> (ret \<times> 'd \<times> linedata_t) res"

fun iterate_line :: "(byte list \<times> 'd header_handler) list \<Rightarrow> 'd \<Rightarrow> linedata_t \<Rightarrow> (ret \<times> 'd \<times> linedata_t) res" where
  "iterate_line [] data line = Inr (RET_SUCCESS, data, line)"
| "iterate_line ((name, handler) # handlers) data line =
     (if strncmp0 (ld_data line) name (strlen name) then
        and_then (handler (drop (strlen name) (ld_data line)) data line) (\<lambda>(ret, data, line).
          if ret = RET_ERROR then Inr (RET_ERROR, data, line) else iterate_line handlers data line)
      else iterate_line handlers data line)"

fun iterate_header :: "(byte list \<times> 'd header_handler) list \<Rightarrow> 'd \<Rightarrow> linedata_t list \<Rightarrow> (ret \<times> 'd \<times> linedata_t list) res" where
  "iterate_header handlers data [] = Inr (RET_SUCCESS, data, [])"
| "iterate_header handlers data (line # lines) =
     and_then (iterate_line handlers data line) (\<lambda>(ret, data, line).
       if ret = RET_ERROR then Inr (RET_ERROR, data, line # lines)
       else and_then (iterate_header handlers data lines) (\<lambda>(ret, data, lines). Inr (ret, data, line # lines)))"

text \<open>A handler that only notes the text; one that insists on a text.\<close>

definition note_context :: "(byte list \<Rightarrow> 'd \<Rightarrow> 'd) \<Rightarrow> 'd header_handler" where
  "note_context f context data line = Inr (RET_SUCCESS, f context data, line)"

definition require_context :: "(byte list option) header_handler" where
  "require_context context data line =
     Inr (if strlen context > 0 then (RET_SUCCESS, Some context, line) else (RET_ERROR, data, line))"

section \<open>Handlers\<close>

definition world_frame :: "ptr \<Rightarrow> world \<Rightarrow> frame_t option" where
  "world_frame p w = ss_frames (bk_stomp w) p"

definition set_frame :: "ptr \<Rightarrow> frame_t \<Rightarrow> world \<Rightarrow> world" where
  "set_frame p f w = w\<lparr>bk_stomp := put_frame p f (bk_stomp w)\<rparr>"

definition send_error :: "env \<Rightarrow> int \<Rightarrow> byte list \<Rightarrow> world \<Rightarrow> world" where
  "send_error env sock msg w = send_out (stomp_send_error (e_os env) sock msg) w"

text \<open>
  What every handler starts with: the headers are processed; on an error the client is
  told and the handler returns \<^verbatim>\<open>NULL\<close>.
\<close>

definition with_headers :: "env \<Rightarrow> (byte list \<times> 'd header_handler) list \<Rightarrow> 'd \<Rightarrow> ptr \<Rightarrow> world
    \<Rightarrow> (frame_t \<Rightarrow> 'd \<Rightarrow> world \<Rightarrow> (ptr option \<times> world) res) \<Rightarrow> (ptr option \<times> world) res" where
  "with_headers env handlers data p w k =
     (case world_frame p w of None \<Rightarrow> Inl Use_After_Free
      | Some frame \<Rightarrow>
          and_then (iterate_header handlers data (f_attrs frame)) (\<lambda>(ret, data, lines).
          let frame = frame\<lparr>f_attrs := lines\<rparr>; w = set_frame p frame w in
          if ret = RET_ERROR then Inr (None, send_error env (f_sock frame) (''failed to validate header'' @ [NL]) w)
          else k frame data w))"

definition assert_cinfo :: "ptr \<Rightarrow> world \<Rightarrow> (ptr option \<times> world) res \<Rightarrow> (ptr option \<times> world) res" where
  "assert_cinfo p w r =
     (case world_frame p w of None \<Rightarrow> Inl Use_After_Free
      | Some f \<Rightarrow> if f_cinfo f = None then Inl Assert_Fail else r)"

definition handler_stomp_begin :: "env \<Rightarrow> ptr \<Rightarrow> world \<Rightarrow> (ptr option \<times> world) res" where
  "handler_stomp_begin env p w =
     with_headers env [(''transaction:'', require_context)] None p w (\<lambda>frame tid w.
       case tid of
         Some t \<Rightarrow> and_then (transaction_start (e_tx env) (e_junk env) t (w_tm w)) (\<lambda>(_, tm). Inr (None, w\<lparr>w_tm := tm\<rparr>))
       | None \<Rightarrow> Inr (None, send_error env (f_sock frame) ''BEGIN frame MUST be specified transaction header'' w))"

definition handler_stomp_abort :: "env \<Rightarrow> ptr \<Rightarrow> world \<Rightarrow> (ptr option \<times> world) res" where
  "handler_stomp_abort env p w =
     with_headers env [(''transaction:'', require_context)] None p w (\<lambda>frame tid w.
       case tid of
         Some t \<Rightarrow> and_then (transaction_abort t (w_tm w)) (\<lambda>(_, tm). Inr (None, w\<lparr>w_tm := tm\<rparr>))
       | None \<Rightarrow> Inr (None, send_error env (f_sock frame) ''ABORT frame MUST be specified transaction header'' w))"

text \<open>
  The callback of a frame, when it has one; reading a frame that has been freed is a fault. COMMIT first processes its headers; the commit
  itself may not return.
\<close>

definition frame_callback :: "env \<Rightarrow> world callback" where
  "frame_callback env p w =
     (case world_frame p w of None \<Rightarrow> Inl Use_After_Free
      | Some f \<Rightarrow> Inr (map_option (\<lambda>cb. e_call env cb p w) (f_callback f)))"

definition commit_world :: "env \<Rightarrow> byte list \<Rightarrow> world \<Rightarrow> (ptr option \<times> world) res option" where
  "commit_world env tid w =
     map_option (\<lambda>r. and_then r (\<lambda>(_, tm, w). Inr (None, w\<lparr>w_tm := tm\<rparr>)))
       (transaction_commit (frame_callback env) tid (w_tm w) w)"

definition handler_stomp_commit :: "env \<Rightarrow> ptr \<Rightarrow> world \<Rightarrow> (ptr option \<times> world) res option" where
  "handler_stomp_commit env p w =
     (case world_frame p w of None \<Rightarrow> Some (Inl Use_After_Free)
      | Some frame \<Rightarrow>
          (case iterate_header [(''transaction:'', require_context)] None (f_attrs frame) of
             Inl e \<Rightarrow> Some (Inl e)
           | Inr (RET_ERROR, _, _) \<Rightarrow>
               Some (Inr (None, send_error env (f_sock frame) (''failed to validate header'' @ [NL]) w))
           | Inr (RET_SUCCESS, Some t, _) \<Rightarrow> commit_world env t w
           | Inr (RET_SUCCESS, None, _) \<Rightarrow>
               Some (Inr (None, send_error env (f_sock frame) ''COMMIT frame MUST be specified transaction header'' w))))"

text \<open>ACK and NACK note the identifier and do nothing with it.\<close>

definition handler_stomp_ack :: "env \<Rightarrow> ptr \<Rightarrow> world \<Rightarrow> (ptr option \<times> world) res" where
  "handler_stomp_ack env p w =
     assert_cinfo p w (with_headers env [(''id:'', note_context (\<lambda>c _. Some c))] None p w (\<lambda>frame i w. Inr (None, w)))"

definition handler_stomp_nack :: "env \<Rightarrow> ptr \<Rightarrow> world \<Rightarrow> (ptr option \<times> world) res" where
  "handler_stomp_nack env p w =
     assert_cinfo p w (with_headers env [(''id:'', note_context (\<lambda>c _. Some c))] None p w (\<lambda>frame i w. Inr (None, w)))"

text \<open>CONNECT and STOMP; \<^verbatim>\<open>authinfo_t\<close> is the pair of user and password.\<close>

type_synonym authinfo = "byte list option \<times> byte list option"

definition connect_handlers :: "(byte list \<times> authinfo header_handler) list" where
  "connect_handlers = [(''login:'', note_context (\<lambda>c (u, pw). (Some c, pw))),
                       (''passcode:'', note_context (\<lambda>c (u, pw). (u, Some c)))]"

definition send_connected_msg :: "os \<Rightarrow> int \<Rightarrow> sends \<Rightarrow> sends" where
  "send_connected_msg os sock out =
     (let out = fold (\<lambda>m. put_msg os sock m (strlen m)) [''CONNECTED'' @ [NL], ''version:1.2'' @ [NL], [NL], [NUL]] out
      in put_msg os sock [NUL] 1 out)"

definition handler_stomp_connect :: "env \<Rightarrow> ptr \<Rightarrow> world \<Rightarrow> (ptr option \<times> world) res" where
  "handler_stomp_connect env p w =
     assert_cinfo p w (with_headers env connect_handlers (None, None) p w (\<lambda>frame auth w.
       case f_cinfo frame of None \<Rightarrow> Inl Null_Deref
       | Some c \<Rightarrow>
         (case w_conns w c of None \<Rightarrow> Inl Use_After_Free
          | Some cinfo \<Rightarrow>
              (let cinfo = cinfo\<lparr>sc_status := SET (CLR (sc_status cinfo)) STATE_CONNECTED\<rparr>;
                   w = w\<lparr>w_conns := (w_conns w)(c \<mapsto> cinfo)\<rparr>
               in Inr (None, send_out (send_connected_msg (e_os env) (f_sock frame)) w)))))"

definition handler_stomp_disconnect :: "env \<Rightarrow> ptr \<Rightarrow> world \<Rightarrow> (ptr option \<times> world) res" where
  "handler_stomp_disconnect env p w =
     with_headers env [(''receipt:'', require_context)] None p w (\<lambda>frame receipt_id w.
       case receipt_id of None \<Rightarrow> Inr (None, w)
       | Some i \<Rightarrow> and_then (stomp_send_receipt (e_os env) (f_sock frame) (Some i) (bk_out w)) (\<lambda>out.
                   Inr (None, send_out (\<lambda>_. out) w)))"

text \<open>
  SEND. \<^verbatim>\<open>sprintf(context, "%s%s", context, id)\<close> appends the connection's identifier to the
  header's text in place; the text starts nine bytes into the array of \<^verbatim>\<open>LD_MAX\<close> bytes. The C standard
  leaves a \<^verbatim>\<open>sprintf\<close> into one of its own arguments undefined; here it is the append that is meant and
  that a library copying from left to right carries out. The line's length grows by
  \<^verbatim>\<open>CONN_ID_LEN\<close>, one more than the characters appended.
\<close>

record send_attrinfo =
  sa_cinfo :: "ptr option"
  sa_qname :: "byte list option"
  sa_tid :: "byte list option"
  sa_receipt_id :: "byte list option"
  sa_reply_to :: "byte list option"

definition UNIQUE_STR_LEN :: nat where "UNIQUE_STR_LEN = 10"

definition handler_reply_to :: "(ptr \<Rightarrow> stomp_conninfo_t option) \<Rightarrow> send_attrinfo header_handler" where
  "handler_reply_to conns context data line =
     (if strlen context + UNIQUE_STR_LEN < LD_MAX then
        (case sa_cinfo data of None \<Rightarrow> Inl Null_Deref
         | Some c \<Rightarrow>
           (case conns c of None \<Rightarrow> Inl Use_After_Free
            | Some cinfo \<Rightarrow>
                (let text = cstr context @ cstr (sc_id cinfo) @ [NUL];
                     offset = length (ld_data line) - length context in
                 if length text > length context then Inl Buffer_Overflow
                 else let context = text @ drop (length text) context
                      in Inr (RET_SUCCESS, data\<lparr>sa_reply_to := Some context\<rparr>,
                              line\<lparr>ld_data := take offset (ld_data line) @ context,
                                   ld_len := ld_len line + CONN_ID_LEN\<rparr>))))
      else Inr (RET_ERROR, data, line))"

definition send_handlers :: "(ptr \<Rightarrow> stomp_conninfo_t option) \<Rightarrow> (byte list \<times> send_attrinfo header_handler) list" where
  "send_handlers conns =
     [(''destination:'', note_context (\<lambda>c data. data\<lparr>sa_qname := Some c\<rparr>)),
      (''transaction:'', note_context (\<lambda>c data. data\<lparr>sa_tid := Some c\<rparr>)),
      (''receipt:'', note_context (\<lambda>c data. data\<lparr>sa_receipt_id := Some c\<rparr>)),
      (''reply-to:'', handler_reply_to conns)]"

definition send_store :: "env \<Rightarrow> ptr \<Rightarrow> frame_t \<Rightarrow> byte list \<Rightarrow> byte list option \<Rightarrow> world \<Rightarrow> world res" where
  "send_store env p frame qname tid w =
     (case tid of
        None \<Rightarrow>
          and_then (persist_frame (e_open env) (e_qinfo env) (ss_frames (bk_stomp w)) p qname (bk_pm w)) (\<lambda>(_, pm).
          and_then (enqueue (e_queue env) (Some p) qname (bk_box w)) (\<lambda>(_, box).
          Inr (w\<lparr>bk_pm := pm, bk_box := box\<rparr>)))
      | Some t \<Rightarrow>
          (let w = set_frame p (frame\<lparr>f_tdata := Some qname\<rparr>) w in
           and_then (transaction_add t p (w_tm w)) (\<lambda>(_, tm). Inr (w\<lparr>w_tm := tm\<rparr>))))"

definition handler_stomp_send :: "env \<Rightarrow> ptr \<Rightarrow> world \<Rightarrow> (ptr option \<times> world) res" where
  "handler_stomp_send env p w =
     assert_cinfo p w (
     let attrinfo = \<lparr>sa_cinfo = (case world_frame p w of None \<Rightarrow> None | Some f \<Rightarrow> f_cinfo f), sa_qname = None,
                     sa_tid = None, sa_receipt_id = None, sa_reply_to = None\<rparr> in
     with_headers env (send_handlers (w_conns w)) attrinfo p w (\<lambda>frame attrinfo w.
       and_then (case sa_reply_to attrinfo of None \<Rightarrow> Inr w
                 | Some r \<Rightarrow> and_then (register_reply_worker (e_send env) (f_sock frame) r (bk_wm w)) (\<lambda>(_, wm).
                             Inr (w\<lparr>bk_wm := wm\<rparr>))) (\<lambda>w.
       case sa_qname attrinfo of
         None \<Rightarrow> Inr (None, send_error env (f_sock frame) (''no destination is specified'' @ [NL]) w)
       | Some qname \<Rightarrow>
           and_then (send_store env p frame qname (sa_tid attrinfo) w) (\<lambda>w.
           and_then (stomp_send_receipt (e_os env) (f_sock frame) (sa_receipt_id attrinfo) (bk_out w)) (\<lambda>out.
           Inr (Some p, send_out (\<lambda>_. out) w))))))"

text \<open>SUBSCRIBE: destinations under \<^verbatim>\<open>/topic/\<close> are served by one multicast worker each.\<close>

type_synonym subscribe_attrinfo = "byte list option \<times> byte list option"

definition subscribe_handlers :: "(byte list \<times> subscribe_attrinfo header_handler) list" where
  "subscribe_handlers = [(''destination:'', note_context (\<lambda>c (d, i). (Some c, i))),
                         (''id:'', note_context (\<lambda>c (d, i). (d, Some c)))]"

definition handler_stomp_subscribe :: "env \<Rightarrow> ptr \<Rightarrow> world \<Rightarrow> (ptr option \<times> world) res" where
  "handler_stomp_subscribe env p w =
     assert_cinfo p w (with_headers env subscribe_handlers (None, None) p w (\<lambda>frame (destination, i) w.
       case destination of
         None \<Rightarrow> Inr (None, send_error env (f_sock frame) (''no destination is specified'' @ [NL]) w)
       | Some d \<Rightarrow>
           and_then (if strlen d \<ge> 7 \<and> strncmp0 d ''/topic/'' 7
                     then register_multicast_worker (e_send env) (f_sock frame) d i (bk_wm w)
                     else register_unicast_worker (e_send env) (f_sock frame) d i (bk_wm w)) (\<lambda>(_, wm).
           Inr (None, w\<lparr>bk_wm := wm\<rparr>))))"

definition handler_stomp_unsubscribe :: "env \<Rightarrow> ptr \<Rightarrow> world \<Rightarrow> (ptr option \<times> world) res" where
  "handler_stomp_unsubscribe env p w =
     assert_cinfo p w (with_headers env [(''id:'', note_context (\<lambda>c _. Some c))] None p w (\<lambda>frame i w.
       case i of None \<Rightarrow> Inr (None, w)
       | Some _ \<Rightarrow>
           (let w = (case get_subscriber i (w_subs w) of None \<Rightarrow> w
                     | Some s \<Rightarrow> w\<lparr>w_cancelled := w_cancelled w @ [sub_thread s]\<rparr>)
            in Inr (None, w\<lparr>w_subs := snd (unregister_subscriber i (w_subs w))\<rparr>))))"

section \<open>Dispatch\<close>

type_synonym handler = "env \<Rightarrow> ptr \<Rightarrow> world \<Rightarrow> (ptr option \<times> world) res option"

definition returning :: "(env \<Rightarrow> ptr \<Rightarrow> world \<Rightarrow> (ptr option \<times> world) res) \<Rightarrow> handler" where
  "returning h env p w = Some (h env p w)"

definition stomp_handlers :: "(byte list \<times> handler) list" where
  "stomp_handlers =
     [(''SEND'', returning handler_stomp_send), (''SUBSCRIBE'', returning handler_stomp_subscribe),
      (''CONNECT'', returning handler_stomp_connect), (''STOMP'', returning handler_stomp_connect),
      (''DISCONNECT'', returning handler_stomp_disconnect), (''UNSUBSCRIBE'', returning handler_stomp_unsubscribe),
      (''BEGIN'', returning handler_stomp_begin), (''COMMIT'', handler_stomp_commit),
      (''ABORT'', returning handler_stomp_abort), (''ACK'', returning handler_stomp_ack),
      (''NACK'', returning handler_stomp_nack)]"

definition send_handle_error :: "env \<Rightarrow> frame_t \<Rightarrow> world \<Rightarrow> world" where
  "send_handle_error env frame w =
     send_error env (f_sock frame) (''failed to handle frame ('' @ cstr (f_name frame) @ '')'') w"

text \<open>A frame is freed when its handler returns \<^verbatim>\<open>NULL\<close>; a frame without a handler is not.\<close>

definition after_handler :: "ptr \<Rightarrow> (ptr option \<times> world) res option \<Rightarrow> world res option" where
  "after_handler p =
     map_option (\<lambda>r. and_then r (\<lambda>(ret, w).
       if ret = None then and_then (free_frame p (bk_stomp w)) (\<lambda>st. Inr (w\<lparr>bk_stomp := st\<rparr>)) else Inr w))"

fun handle_loop :: "(byte list \<times> handler) list \<Rightarrow> env \<Rightarrow> ptr \<Rightarrow> frame_t \<Rightarrow> world \<Rightarrow> world res option" where
  "handle_loop [] env p frame w = Some (Inr (send_handle_error env frame w))"
| "handle_loop ((name, handler) # hs) env p frame w =
     (if strncmp0 (f_name frame) name (strlen name) then after_handler p (handler env p w)
      else handle_loop hs env p frame w)"

definition handle_frame :: "env \<Rightarrow> ptr \<Rightarrow> world \<Rightarrow> world res option" where
  "handle_frame env p w =
     (case world_frame p w of None \<Rightarrow> Some (Inl Use_After_Free)
      | Some frame \<Rightarrow> handle_loop stomp_handlers env p frame w)"

text \<open>One round of the loop of \<^verbatim>\<open>stomp_management_worker\<close>, and a number of them.\<close>

definition management_round :: "env \<Rightarrow> world \<Rightarrow> world res option" where
  "management_round env w =
     (case get_frame_from_bucket (bk_stomp w) of
        (None, st) \<Rightarrow> Some (Inr (w\<lparr>bk_stomp := st\<rparr>))
      | (Some p, st) \<Rightarrow> handle_frame env p (w\<lparr>bk_stomp := st\<rparr>))"

fun management_rounds :: "env \<Rightarrow> nat \<Rightarrow> world \<Rightarrow> world res option" where
  "management_rounds env 0 w = Some (Inr w)"
| "management_rounds env (Suc n) w =
     (case management_round env w of None \<Rightarrow> None
      | Some (Inl e) \<Rightarrow> Some (Inl e)
      | Some (Inr w) \<Rightarrow> management_rounds env n w)"

definition stomp_management_worker :: "env \<Rightarrow> nat \<Rightarrow> world \<Rightarrow> world res option" where
  "stomp_management_worker env n w = management_rounds env n (snd (initialize_manager w))"

section \<open>Header lines\<close>

definition has_prefix :: "byte list \<Rightarrow> byte list \<Rightarrow> bool" where
  "has_prefix n h \<longleftrightarrow> take (length n) h = n"

text \<open>What a header handler sees of the line \<open>h\<close> behind the name \<open>n\<close>, and the last header of that name.\<close>

definition context_of :: "byte list \<Rightarrow> byte list \<Rightarrow> byte list" where
  "context_of n h = drop (length n) (ld_data (ld h))"

definition header_context :: "byte list \<Rightarrow> byte list list \<Rightarrow> byte list option" where
  "header_context n hs = map_option (context_of n) (find_last (has_prefix n) hs)"

definition header_value :: "byte list \<Rightarrow> byte list list \<Rightarrow> byte list option" where
  "header_value n hs = map_option (drop (length n)) (find_last (has_prefix n) hs)"

lemma ld_data_ld: "length h \<le> LD_MAX \<Longrightarrow> ld_data (ld h) = h @ replicate (LD_MAX - length h) NUL"
  by (simp add: mk_linedata_def memcpy_def)

lemma padded_matches:
  assumes "NUL \<notin> set n"
  shows "strncmp0 (h @ replicate k NUL) n (strlen n) \<longleftrightarrow> has_prefix n h"
proof -
  have "take (length n) (h @ replicate k NUL) = n \<longleftrightarrow> take (length n) h = n"
  proof (cases "length n \<le> length h")
    case False
    show ?thesis
    proof
      assume a: "take (length n) (h @ replicate k NUL) = n"
      have "set (take (length n - length h) (replicate k NUL)) \<subseteq> {NUL}" by (auto dest: in_set_takeD)
      moreover have "set (take (length n - length h) (replicate k NUL)) \<subseteq> set n" using a by (metis Un_upper2 set_append take_append)
      ultimately have "take (length n - length h) (replicate k NUL) = []" using assms(1) by fastforce
      then show "take (length n) h = n" using a by simp
    next
      assume "take (length n) h = n"
      then have "length n \<le> length h" by (metis length_take min.cobounded1)
      with False show "take (length n) (h @ replicate k NUL) = n" by simp
    qed
  qed simp
  moreover have "strlen n = length n" using assms by (simp add: strlen_def cstr_id)
  ultimately show ?thesis using assms by (simp add: strncmp0_prefix has_prefix_def)
qed

lemma line_matches:
  "NUL \<notin> set n \<Longrightarrow> length h \<le> LD_MAX \<Longrightarrow> strncmp0 (ld_data (ld h)) n (strlen n) \<longleftrightarrow> has_prefix n h"
  by (simp add: ld_data_ld padded_matches)

lemma context_of_value:
  assumes "has_prefix n h" and "length h \<le> LD_MAX"
  shows "context_of n h = drop (length n) h @ replicate (LD_MAX - length h) NUL"
proof -
  have "length n \<le> length h" using assms(1) by (metis has_prefix_def length_take min.cobounded1)
  then show ?thesis using assms(2) by (simp add: context_of_def ld_data_ld)
qed

lemma cstr_header_context:
  assumes "\<forall>h\<in>set hs. header_ok h"
  shows "map_option cstr (header_context n hs) = header_value n hs"
proof (cases "find_last (has_prefix n) hs")
  case (Some h)
  then have h: "has_prefix n h" "header_ok h" using assms by (auto dest: find_last_SomeD)
  then have "cstr (context_of n h) = drop (length n) h"
    using context_of_value [OF h(1)] by (auto simp: header_ok_def intro!: cstr_append_replicate dest: in_set_dropD)
  then show ?thesis using Some by (simp add: header_context_def header_value_def)
qed (simp add: header_context_def header_value_def)

text \<open>Tables of handlers that only note the text.\<close>

definition noting :: "(byte list \<times> (byte list \<Rightarrow> 'd \<Rightarrow> 'd)) list \<Rightarrow> (byte list \<times> 'd header_handler) list" where
  "noting tab = map (\<lambda>(n, f). (n, note_context f)) tab"

definition note_line :: "(byte list \<times> (byte list \<Rightarrow> 'd \<Rightarrow> 'd)) list \<Rightarrow> byte list \<Rightarrow> 'd \<Rightarrow> 'd" where
  "note_line tab h data = fold (\<lambda>(n, f) d. if has_prefix n h then f (context_of n h) d else d) tab data"

lemma iterate_line_noting:
  assumes "length h \<le> LD_MAX" and "\<forall>(n, f)\<in>set tab. NUL \<notin> set n"
  shows "iterate_line (noting tab @ rest) data (ld h) = iterate_line rest (note_line tab h data) (ld h)"
  using assms(2)
proof (induction tab arbitrary: data)
  case (Cons x tab)
  obtain n f where x: "x = (n, f)" by (cases x)
  have n: "NUL \<notin> set n" "strlen n = length n" using Cons.prems x by (simp_all add: strlen_def cstr_id)
  from Cons line_matches [OF n(1) assms(1)] show ?case
    by (simp add: x noting_def note_line_def note_context_def n(2) context_of_def)
qed (simp add: noting_def note_line_def)

lemma iterate_line_no_match:
  "length h \<le> LD_MAX \<Longrightarrow> \<forall>(n, f)\<in>set hs. NUL \<notin> set n \<and> \<not> has_prefix n h \<Longrightarrow>
     iterate_line hs data (ld h) = Inr (RET_SUCCESS, data, ld h)"
  by (induction hs) (auto simp: line_matches)

lemma iterate_header_noting:
  assumes "\<forall>h\<in>set hs. length h \<le> LD_MAX" and "\<forall>(n, f)\<in>set tab. NUL \<notin> set n"
    and "\<forall>h\<in>set hs. \<forall>(n, f)\<in>set rest. NUL \<notin> set n \<and> \<not> has_prefix n h"
  shows "iterate_header (noting tab @ rest) data (map ld hs) = Inr (RET_SUCCESS, fold (note_line tab) hs data, map ld hs)"
  using assms(1,3)
proof (induction hs arbitrary: data)
  case (Cons h hs)
  have "iterate_line (noting tab @ rest) data (ld h) = Inr (RET_SUCCESS, note_line tab h data, ld h)"
    using iterate_line_noting [OF _ assms(2)] iterate_line_no_match [of h rest] Cons.prems by simp
  with Cons show ?case by simp
qed simp

text \<open>A required header: the last one counts, and an empty one is an error.\<close>

lemma iterate_header_required:
  assumes "\<forall>h\<in>set hs. length h \<le> LD_MAX" and "NUL \<notin> set n"
    and "\<forall>h\<in>set hs. has_prefix n h \<longrightarrow> strlen (context_of n h) > 0"
  shows "iterate_header [(n, require_context)] data (map ld hs) =
    Inr (RET_SUCCESS, case header_context n hs of None \<Rightarrow> data | Some c \<Rightarrow> Some c, map ld hs)"
  using assms(1,3)
proof (induction hs arbitrary: data)
  case (Cons h hs)
  have "strlen n = length n" using assms(2) by (simp add: strlen_def cstr_id)
  then have "iterate_line [(n, require_context)] data (ld h) =
      Inr (RET_SUCCESS, if has_prefix n h then Some (context_of n h) else data, ld h)"
    using Cons.prems line_matches [OF assms(2), of h] by (simp add: require_context_def context_of_def)
  with Cons show ?case by (auto simp: header_context_def split: option.splits)
qed (simp add: header_context_def)

end
