(* ===== verification/Handlers.thy ===== *)
theory Handlers
  imports Protocol
begin

text \<open>
  What the handlers do with the frames that the receiver delivers: dispatch by command, the
  SEND handler with its headers, transactions from BEGIN to COMMIT, subscriptions. The
  frames are those of well-formed messages (\<open>delivered\<close> of theory \<open>Stomp\<close>).
\<close>

section \<open>Dispatch\<close>

lemma delivered_simps [simp]:
  "f_name (delivered os sock c k m) = msg_name m @ replicate (FNAME_LEN - length (msg_name m)) NUL"
  "f_attrs (delivered os sock c k m) = map ld (msg_headers m)"
  "f_sock (delivered os sock c k m) = sock" "f_cinfo (delivered os sock c k m) = Some c"
  "f_callback (delivered os sock c k m) = None" "f_tdata (delivered os sock c k m) = None"
  by (simp_all add: delivered_def frame_of_def alloc_frame_def)

lemma command_cases:
  assumes "msg_ok m"
  obtains h where "(msg_name m, h) \<in> set stomp_handlers"
  using assms by (auto simp: msg_ok_def finfo_arr_def stomp_handlers_def)

lemma handle_loop_dispatch:
  assumes "(n, h) \<in> set stomp_handlers" and "f_name f = n @ replicate (FNAME_LEN - length n) NUL"
  shows "handle_loop stomp_handlers env p f w = after_handler p (h env p w)"
proof -
  have step: "handle_loop ((n', h') # hs) env p f w =
      (if has_prefix n' n then after_handler p (h' env p w) else handle_loop hs env p f w)" if "NUL \<notin> set n'" for n' h' hs
    using padded_matches [OF that] assms(2) by simp
  show ?thesis using assms(1) unfolding stomp_handlers_def
    by (simp only: step list.set insert_iff empty_iff prod.inject)
      (elim disjE conjE FalseE; simp add: step has_prefix_def del: handle_loop.simps)
qed

lemma handle_frame_dispatch:
  assumes "(msg_name m, h) \<in> set stomp_handlers" and "world_frame p w = Some (delivered os sock c k m)"
  shows "handle_frame env p w = after_handler p (h env p w)"
  using assms handle_loop_dispatch [OF assms(1), of "delivered os sock c k m"] by (simp add: handle_frame_def)

lemma set_frame_same: "world_frame p w = Some f \<Longrightarrow> set_frame p f w = w"
  by (simp add: set_frame_def world_frame_def put_frame_same)

lemma with_headers_ok:
  assumes "world_frame p w = Some f" and "iterate_header hs data (f_attrs f) = Inr (RET_SUCCESS, data', f_attrs f)"
  shows "with_headers env hs data p w k = k f data' w"
  using assms set_frame_same [OF assms(1)] by (simp add: with_headers_def Let_def)

lemma world_frame_simps [simp]:
  "world_frame p (w\<lparr>bk_box := b\<rparr>) = world_frame p w" "world_frame p (w\<lparr>bk_pm := pm\<rparr>) = world_frame p w"
  "world_frame p (w\<lparr>bk_wm := wm\<rparr>) = world_frame p w" "world_frame p (w\<lparr>w_tm := tm\<rparr>) = world_frame p w"
  "world_frame p (send_out f w) = world_frame p w"
  by (simp_all add: world_frame_def)

section \<open>SEND\<close>

definition send_tab :: "(byte list \<times> (byte list \<Rightarrow> send_attrinfo \<Rightarrow> send_attrinfo)) list" where
  "send_tab = [(''destination:'', \<lambda>c data. data\<lparr>sa_qname := Some c\<rparr>),
               (''transaction:'', \<lambda>c data. data\<lparr>sa_tid := Some c\<rparr>),
               (''receipt:'', \<lambda>c data. data\<lparr>sa_receipt_id := Some c\<rparr>)]"

lemma send_handlers_noting: "send_handlers conns = noting send_tab @ [(''reply-to:'', handler_reply_to conns)]"
  by (simp add: send_handlers_def send_tab_def noting_def)

lemma send_notes:
  "sa_qname (fold (note_line send_tab) hs d) = (case header_context ''destination:'' hs of None \<Rightarrow> sa_qname d | Some c \<Rightarrow> Some c)"
  "sa_tid (fold (note_line send_tab) hs d) = (case header_context ''transaction:'' hs of None \<Rightarrow> sa_tid d | Some c \<Rightarrow> Some c)"
  "sa_receipt_id (fold (note_line send_tab) hs d) = (case header_context ''receipt:'' hs of None \<Rightarrow> sa_receipt_id d | Some c \<Rightarrow> Some c)"
  "sa_reply_to (fold (note_line send_tab) hs d) = sa_reply_to d"
  by (induction hs arbitrary: d) (auto simp: note_line_def send_tab_def header_context_def split: option.splits)

definition plain_send :: "message \<Rightarrow> byte list \<Rightarrow> bool" where
  "plain_send m d \<longleftrightarrow> msg_ok m \<and> msg_name m = ''SEND'' \<and> header_value ''destination:'' (msg_headers m) = Some d \<and>
     (\<forall>h\<in>set (msg_headers m). \<not> has_prefix ''reply-to:'' h)"

lemma handler_send_plain:
  assumes "plain_send m d" and "world_frame p w = Some (delivered os sock c k m)"
  shows "\<exists>q. cstr q = d \<and> handler_stomp_send env p w =
    and_then (send_store env p (delivered os sock c k m) q (header_context ''transaction:'' (msg_headers m)) w) (\<lambda>w.
    and_then (stomp_send_receipt (e_os env) sock (header_context ''receipt:'' (msg_headers m)) (bk_out w)) (\<lambda>out.
    Inr (Some p, send_out (\<lambda>_. out) w)))"
proof -
  let ?hs = "msg_headers m" and ?f = "delivered os sock c k m"
  have ok: "\<forall>h\<in>set ?hs. header_ok h" and len: "\<forall>h\<in>set ?hs. length h \<le> LD_MAX"
    using assms(1) by (auto simp: plain_send_def msg_ok_def header_ok_def)
  obtain q where q: "header_context ''destination:'' ?hs = Some q" "cstr q = d"
    using cstr_header_context [OF ok, of "''destination:''"] assms(1) by (auto simp: plain_send_def)
  define a where "a = \<lparr>sa_cinfo = Some c, sa_qname = None, sa_tid = None, sa_receipt_id = None, sa_reply_to = None\<rparr>"
  have "iterate_header (send_handlers (w_conns w)) a (f_attrs ?f) = Inr (RET_SUCCESS, fold (note_line send_tab) ?hs a, f_attrs ?f)"
    unfolding send_handlers_noting using len assms(1)
    by (simp only: delivered_simps) (rule iterate_header_noting, auto simp: send_tab_def plain_send_def)
  from with_headers_ok [OF assms(2) this] assms(2) show ?thesis
    using q by (intro exI [of _ q]) (simp add: handler_stomp_send_def assert_cinfo_def a_def [symmetric] send_notes, simp add: a_def split: option.split)
qed

text \<open>Queue names count up to their null byte.\<close>

lemma get_hash_cstr: "get_hash (cstr s) = get_hash s"
  by (simp add: get_hash_djb2)

lemma persist_frame_cstr: "persist_frame o_ok m_ok frames p (cstr q) pm = persist_frame o_ok m_ok frames p q pm"
proof -
  have path: "sprintf_path dir (cstr q) = sprintf_path dir q" for dir by (simp add: sprintf_path_def join_path_def)
  have "alloc_qinfo o_ok m_ok (cstr q) pm = alloc_qinfo o_ok m_ok q pm" for pm
    unfolding alloc_qinfo_def path get_hash_cstr ..
  then have "create_qinfo o_ok m_ok (cstr q) pm = create_qinfo o_ok m_ok q pm"
    by (simp add: create_qinfo_def get_hash_cstr cong: option.case_cong)
  then show ?thesis by (simp add: persist_frame_def)
qed

text \<open>The receipt for the last \<^verbatim>\<open>receipt\<close> header.\<close>

definition receipt_sent :: "int \<Rightarrow> byte list option \<Rightarrow> sends" where
  "receipt_sent sock r =
     (case r of None \<Rightarrow> []
      | Some i \<Rightarrow> if sock > 0 then [(sock, ''RECEIPT'' @ [NL]), (sock, ''receipt-id:'' @ i @ [NL]), (sock, [NUL])] else [])"

lemma send_receipt_header:
  assumes "\<forall>h\<in>set hs. header_ok h" and "\<forall>i. header_value ''receipt:'' hs = Some i \<longrightarrow> length i \<le> 1011"
  shows "stomp_send_receipt os sock (header_context ''receipt:'' hs) out = Inr (out @ receipt_sent sock (header_value ''receipt:'' hs))"
proof (cases "header_context ''receipt:'' hs")
  case None
  then show ?thesis using cstr_header_context [OF assms(1), of "''receipt:''"] by (auto simp: stomp_send_receipt_def receipt_sent_def)
next
  case (Some c)
  then have v: "header_value ''receipt:'' hs = Some (cstr c)" using cstr_header_context [OF assms(1), of "''receipt:''"] by simp
  then have "length (cstr c) \<le> 1011" using assms(2) by blast
  moreover have "strlen (''receipt-id:'' @ cstr c @ [NL]) = length (''receipt-id:'' @ cstr c @ [NL])"
    by (simp add: strlen_def cstr_id)
  ultimately show ?thesis using Some v
    by (simp add: stomp_send_receipt_def receipt_sent_def send_msg_def size_consts Let_def)
qed

lemma after_handler_kept: "after_handler p (Some (Inr (Some q, w))) = Some (Inr w)"
  by (simp add: after_handler_def)

lemma after_handler_freed:
  "world_frame p w = Some f \<Longrightarrow> f_tdata f = None \<Longrightarrow>
     after_handler p (Some (Inr (None, w))) = Some (Inr (w\<lparr>bk_stomp := (bk_stomp w)\<lparr>ss_frames := (ss_frames (bk_stomp w))(p := None)\<rparr>\<rparr>))"
  by (simp add: after_handler_def free_frame_def world_frame_def)

lemma handle_send_stored:
  assumes m: "plain_send m d" and p: "world_frame p w = Some (delivered os sock c k m)"
    and tx: "header_value ''transaction:'' (msg_headers m) = None"
    and r: "\<forall>i. header_value ''receipt:'' (msg_headers m) = Some i \<longrightarrow> length i \<le> 1011"
    and box: "qb_inv (bk_box w)" "e_queue env = all_mallocs"
    and pm: "persist_frame (e_open env) (e_qinfo env) (ss_frames (bk_stomp w)) p d (bk_pm w) = Inr (RET_SUCCESS, pm')"
  shows "\<exists>b. handle_frame env p w = Some (Inr (send_out (\<lambda>out. out @ receipt_sent sock (header_value ''receipt:'' (msg_headers m)))
      (w\<lparr>bk_box := b, bk_pm := pm'\<rparr>))) \<and> qb_inv b \<and>
    contents b = (contents (bk_box w))(get_hash d := contents (bk_box w) (get_hash d) @ [p])"
proof -
  have ok: "\<forall>h\<in>set (msg_headers m). header_ok h" using m by (simp add: plain_send_def msg_ok_def)
  have t: "header_context ''transaction:'' (msg_headers m) = None"
    using tx cstr_header_context [OF ok, of "''transaction:''"] by simp
  obtain q where q: "cstr q = d" and h: "handler_stomp_send env p w =
    and_then (send_store env p (delivered os sock c k m) q None w) (\<lambda>w.
    and_then (stomp_send_receipt (e_os env) sock (header_context ''receipt:'' (msg_headers m)) (bk_out w)) (\<lambda>out.
    Inr (Some p, send_out (\<lambda>_. out) w)))"
    using handler_send_plain [OF m p, of env] t by auto
  have hash: "get_hash q = get_hash d" using get_hash_cstr [of q] q by simp
  obtain b where b: "enqueue all_mallocs (Some p) q (bk_box w) = Inr (RET_SUCCESS, b)" "qb_inv b"
    "contents b = (contents (bk_box w))(get_hash d := contents (bk_box w) (get_hash d) @ [p])"
    using box.enq_law [OF box(1), of p q] hash by auto
  have "send_store env p (delivered os sock c k m) q None w = Inr (w\<lparr>bk_box := b, bk_pm := pm'\<rparr>)"
    using b(1) pm persist_frame_cstr [of _ _ _ _ q] q box(2) by (cases w) (simp add: send_store_def)
  then have "handler_stomp_send env p w = Inr (Some p, send_out (\<lambda>out. out @ receipt_sent sock (header_value ''receipt:'' (msg_headers m)))
      (w\<lparr>bk_box := b, bk_pm := pm'\<rparr>))"
    using h send_receipt_header [OF ok r] by (simp add: send_out_def)
  moreover have "(msg_name m, returning handler_stomp_send) \<in> set stomp_handlers"
    using m by (simp add: plain_send_def stomp_handlers_def)
  ultimately show ?thesis
    using handle_frame_dispatch [OF _ p] after_handler_kept b(2,3) by (auto simp: returning_def)
qed

section \<open>Transactions\<close>

lemma required_header:
  assumes ok: "\<forall>h\<in>set hs. header_ok h" and "NUL \<notin> set n" and v: "\<forall>h\<in>set hs. has_prefix n h \<longrightarrow> n \<noteq> h"
  shows "iterate_header [(n, require_context)] None (map ld hs) = Inr (RET_SUCCESS, header_context n hs, map ld hs)"
proof -
  have "strlen (context_of n h) > 0" if "h \<in> set hs" "has_prefix n h" for h
  proof -
    have h: "header_ok h" using ok that by blast
    then have c: "cstr (context_of n h) = drop (length n) h"
      using context_of_value [OF that(2)] by (auto simp: header_ok_def intro!: cstr_append_replicate dest: in_set_dropD)
    have "drop (length n) h \<noteq> []"
    proof
      assume "drop (length n) h = []"
      then have "n = h" using that(2) by (simp add: has_prefix_def)
      then show False using v that by blast
    qed
    then show ?thesis by (simp add: strlen_def c)
  qed
  moreover have "\<forall>h\<in>set hs. length h \<le> LD_MAX" using ok by (simp add: header_ok_def)
  ultimately show ?thesis
    using iterate_header_required [of hs n None] assms(2) by (simp split: option.splits)
qed

text \<open>A message that names a transaction with \<open>t\<close>.\<close>

definition names_tx :: "message \<Rightarrow> byte list \<Rightarrow> bool" where
  "names_tx m t \<longleftrightarrow> msg_ok m \<and> header_value ''transaction:'' (msg_headers m) = Some t \<and>
     (\<forall>h\<in>set (msg_headers m). has_prefix ''transaction:'' h \<longrightarrow> ''transaction:'' \<noteq> h)"

lemma names_tx_context:
  assumes "names_tx m t"
  obtains q where "header_context ''transaction:'' (msg_headers m) = Some q" "cstr q = t"
    "iterate_header [(''transaction:'', require_context)] None (map ld (msg_headers m)) = Inr (RET_SUCCESS, Some q, map ld (msg_headers m))"
proof -
  have ok: "\<forall>h\<in>set (msg_headers m). header_ok h" using assms by (simp add: names_tx_def msg_ok_def)
  obtain q where q: "header_context ''transaction:'' (msg_headers m) = Some q" "cstr q = t"
    using cstr_header_context [OF ok, of "''transaction:''"] assms by (auto simp: names_tx_def)
  with required_header [OF ok, of "''transaction:''"] assms that show ?thesis by (simp add: names_tx_def)
qed

lemma handle_begin:
  assumes "names_tx m t" and "msg_name m = ''BEGIN''" and p: "world_frame p w = Some (delivered os sock c k m)"
    and "transaction_start (e_tx env) (e_junk env) t (w_tm w) = Inr (r, tm')"
  shows "handle_frame env p w = Some (Inr (w\<lparr>w_tm := tm', bk_stomp := (bk_stomp w)\<lparr>ss_frames := (ss_frames (bk_stomp w))(p := None)\<rparr>\<rparr>))"
proof -
  obtain q where q: "cstr q = t" and i: "iterate_header [(''transaction:'', require_context)] None (f_attrs (delivered os sock c k m)) =
      Inr (RET_SUCCESS, Some q, f_attrs (delivered os sock c k m))"
    using names_tx_context [OF assms(1)] by auto
  have "handler_stomp_begin env p w = Inr (None, w\<lparr>w_tm := tm'\<rparr>)"
    using with_headers_ok [OF p i] assms(4) tx_ops_cstr(1) [of _ _ q] q by (simp add: handler_stomp_begin_def)
  moreover have "(msg_name m, returning handler_stomp_begin) \<in> set stomp_handlers"
    using assms(2) by (simp add: stomp_handlers_def)
  ultimately show ?thesis
    using handle_frame_dispatch [OF _ p] after_handler_freed [of p "w\<lparr>w_tm := tm'\<rparr>"] p
    by (cases w) (simp add: returning_def world_frame_def)
qed

lemma handle_send_tx:
  assumes "plain_send m d" and "names_tx m t" and p: "world_frame p w = Some (delivered os sock c k m)"
    and "header_value ''receipt:'' (msg_headers m) = None"
    and "transaction_add t p (w_tm w) = Inr (r, tm')"
  shows "\<exists>q. handle_frame env p w = Some (Inr ((set_frame p ((delivered os sock c k m)\<lparr>f_tdata := Some q\<rparr>) w)\<lparr>w_tm := tm'\<rparr>))"
proof -
  obtain tq where tq: "header_context ''transaction:'' (msg_headers m) = Some tq" "cstr tq = t"
    using names_tx_context [OF assms(2)] by auto
  have ok: "\<forall>h\<in>set (msg_headers m). header_ok h" using assms(1) by (simp add: plain_send_def msg_ok_def)
  have rc: "header_context ''receipt:'' (msg_headers m) = None"
    using assms(4) cstr_header_context [OF ok, of "''receipt:''"] by simp
  obtain q where h: "handler_stomp_send env p w =
    and_then (send_store env p (delivered os sock c k m) q (Some tq) w) (\<lambda>w.
    and_then (stomp_send_receipt (e_os env) sock None (bk_out w)) (\<lambda>out. Inr (Some p, send_out (\<lambda>_. out) w)))"
    using handler_send_plain [OF assms(1) p, of env] tq rc by auto
  have "transaction_add tq p (w_tm (set_frame p f w)) = Inr (r, tm')" for f
    using assms(5) tx_ops_cstr(2) [of tq] tq by (simp add: set_frame_def)
  with h have "handler_stomp_send env p w = Inr (Some p, (set_frame p ((delivered os sock c k m)\<lparr>f_tdata := Some q\<rparr>) w)\<lparr>w_tm := tm'\<rparr>)"
    by (simp add: send_store_def Let_def stomp_send_receipt_def send_out_def)
  moreover have "(msg_name m, returning handler_stomp_send) \<in> set stomp_handlers"
    using assms(1) by (simp add: plain_send_def stomp_handlers_def)
  ultimately show ?thesis
    using handle_frame_dispatch [OF _ p] by (auto simp: returning_def after_handler_def)
qed

lemma handle_commit:
  assumes "names_tx m t" and "msg_name m = ''COMMIT''" and p: "world_frame p w = Some (delivered os sock c k m)"
  shows "handle_frame env p w = after_handler p (commit_world env t w)"
proof -
  obtain q where q: "cstr q = t" and i: "iterate_header [(''transaction:'', require_context)] None (f_attrs (delivered os sock c k m)) =
      Inr (RET_SUCCESS, Some q, f_attrs (delivered os sock c k m))"
    using names_tx_context [OF assms(1)] by auto
  have "commit_world env q w = commit_world env t w" unfolding commit_world_def q [symmetric] tx_ops_cstr(4) ..
  then have "handler_stomp_commit env p w = commit_world env t w"
    using p i by (simp add: handler_stomp_commit_def)
  moreover have "(msg_name m, handler_stomp_commit) \<in> set stomp_handlers"
    using assms(2) by (simp add: stomp_handlers_def)
  ultimately show ?thesis using handle_frame_dispatch [OF _ p] by simp
qed

section \<open>Properties\<close>

lemma after_handler_eq:
  "after_handler p r = (case r of None \<Rightarrow> None | Some (Inl e) \<Rightarrow> Some (Inl e)
     | Some (Inr (Some q, w)) \<Rightarrow> Some (Inr w)
     | Some (Inr (None, w)) \<Rightarrow>
         (case free_frame p (bk_stomp w) of Inl e \<Rightarrow> Some (Inl e) | Inr st \<Rightarrow> Some (Inr (w\<lparr>bk_stomp := st\<rparr>))))"
  by (auto simp: after_handler_def and_then_def split: option.splits sum.splits)

text \<open>
  C30. Every command has its handler. The frame of any message that the receiver accepts is given
  to the handler function written for the message's own command (CONNECT and STOMP share one),
  never to that of another one and never to the error path. When the handler returns no frame,
  the frame is freed with \<^verbatim>\<open>free_frame\<close>; when it returns a frame, nothing is freed. A fault or an
  endless loop of the handler is passed on.
\<close>

theorem every_command_dispatched:
  assumes "msg_ok m" and "world_frame p w = Some (delivered os sock c k m)"
  shows "msg_name m \<in> {''SEND'', ''SUBSCRIBE'', ''CONNECT'', ''STOMP'', ''DISCONNECT'', ''UNSUBSCRIBE'', ''BEGIN'', ''COMMIT'',
      ''ABORT'', ''ACK'', ''NACK''} \<and>
    handle_frame env p w =
      (case (if msg_name m = ''SEND'' then Some (handler_stomp_send env p w)
             else if msg_name m = ''SUBSCRIBE'' then Some (handler_stomp_subscribe env p w)
             else if msg_name m = ''CONNECT'' then Some (handler_stomp_connect env p w)
             else if msg_name m = ''STOMP'' then Some (handler_stomp_connect env p w)
             else if msg_name m = ''DISCONNECT'' then Some (handler_stomp_disconnect env p w)
             else if msg_name m = ''UNSUBSCRIBE'' then Some (handler_stomp_unsubscribe env p w)
             else if msg_name m = ''BEGIN'' then Some (handler_stomp_begin env p w)
             else if msg_name m = ''COMMIT'' then handler_stomp_commit env p w
             else if msg_name m = ''ABORT'' then Some (handler_stomp_abort env p w)
             else if msg_name m = ''ACK'' then Some (handler_stomp_ack env p w)
             else Some (handler_stomp_nack env p w)) of
         None \<Rightarrow> None
       | Some (Inl e) \<Rightarrow> Some (Inl e)
       | Some (Inr (Some q, w')) \<Rightarrow> Some (Inr w')
       | Some (Inr (None, w')) \<Rightarrow>
           (case free_frame p (bk_stomp w') of Inl e \<Rightarrow> Some (Inl e) | Inr st \<Rightarrow> Some (Inr (w'\<lparr>bk_stomp := st\<rparr>))))"
proof -
  obtain h where h: "(msg_name m, h) \<in> set stomp_handlers" using assms(1) by (rule command_cases)
  then show ?thesis
    unfolding handle_frame_dispatch [OF h assms(2)] after_handler_eq
    by (simp only: stomp_handlers_def list.set Un_iff insert_iff empty_iff prod.inject simp_thms) (elim disjE conjE; simp add: returning_def)
qed

text \<open>A server that has just started, with a file system and the frames of some messages.\<close>

definition tm0 :: tmanager where
  "tm0 = \<lparr>tm_objs = (\<lambda>_. None), tm_list = [], tm_next = 1, tm_locked = False\<rparr>"

definition env0 :: env where
  "env0 = \<lparr>e_os = os0, e_open = (\<lambda>_. True), e_queue = all_mallocs, e_send = all_send_mallocs, e_tx = True, e_qinfo = True,
     e_junk = replicate TID_SIZE NUL, e_call = (\<lambda>_ _ w. (RET_SUCCESS, w))\<rparr>"

definition pm2 :: persistent_manager where
  "pm2 = \<lparr>pm_heap = [1 \<mapsto> qinfo1\<lparr>qi_qid := get_hash ''/q''\<rparr>], pm_list = [1], pm_next = 2, pm_datadir = ''/d'',
     pm_status = STATUS_INITIALIZED, pm_fs = fs1\<rparr>"

definition msg4 :: message where
  "msg4 = \<lparr>msg_name = ''SEND'', msg_headers = [''destination:/q'', ''transaction:t1'', ''content-length:0''], msg_body = []\<rparr>"

definition msg5 :: message where
  "msg5 = \<lparr>msg_name = ''COMMIT'', msg_headers = [''transaction:t1'', ''content-length:0''], msg_body = []\<rparr>"

definition world0 :: "(message \<times> ptr) list \<Rightarrow> world" where
  "world0 ms = \<lparr>bk_stomp = st0\<lparr>ss_frames := (\<lambda>p. map_option (delivered os0 4 9 0) (map_of (map (\<lambda>(m, p). (p, m)) ms) p)),
       ss_bucket := map snd ms\<rparr>,
     bk_box = empty_box, bk_pm = pm2, bk_wm = wm2,
     w_tm = tm0, w_conns = [9 \<mapsto> conn0], w_subs = [], w_cancelled = []\<rparr>"

theorem every_command_dispatched_witness:
  "handle_frame env0 7 (world0 [(msg5, 7)]) =
      (case handler_stomp_commit env0 7 (world0 [(msg5, 7)]) of
         None \<Rightarrow> None
       | Some (Inl e) \<Rightarrow> Some (Inl e)
       | Some (Inr (Some q, w')) \<Rightarrow> Some (Inr w')
       | Some (Inr (None, w')) \<Rightarrow>
           (case free_frame 7 (bk_stomp w') of Inl e \<Rightarrow> Some (Inl e) | Inr st \<Rightarrow> Some (Inr (w'\<lparr>bk_stomp := st\<rparr>))))"
proof -
  have ok: "msg_ok msg5"
    by (simp add: msg_ok_def msg5_def finfo_arr_def header_ok_def size_consts is_space_def) (code_simp+)
  have f: "world_frame 7 (world0 [(msg5, 7)]) = Some (delivered os0 4 9 0 msg5)" by (simp add: world_frame_def world0_def)
  have n: "msg_name msg5 = ''COMMIT''" by (simp add: msg5_def)
  show ?thesis using every_command_dispatched [OF ok f, of env0] unfolding n by simp
qed

text \<open>
  C11. SEND stores the message. A SEND frame with a destination, outside a transaction and without
  \<^verbatim>\<open>reply-to\<close>, is put at the end of its destination's queue and handed to the persistent worker,
  the receipt is sent when one is asked for, the frame stays alive, and nothing else
  changes: no other queue, no transaction, no worker.
\<close>

theorem send_is_stored:
  assumes "plain_send m d" and "world_frame p w = Some (delivered os sock c k m)"
    and "header_value ''transaction:'' (msg_headers m) = None"
    and "\<forall>i. header_value ''receipt:'' (msg_headers m) = Some i \<longrightarrow> length i \<le> 1011"
    and "qb_inv (bk_box w)" and "e_queue env = all_mallocs"
    and "persist_frame (e_open env) (e_qinfo env) (ss_frames (bk_stomp w)) p d (bk_pm w) = Inr (RET_SUCCESS, pm')"
  shows "\<exists>b. handle_frame env p w = Some (Inr (send_out (\<lambda>out. out @ receipt_sent sock (header_value ''receipt:'' (msg_headers m)))
      (w\<lparr>bk_box := b, bk_pm := pm'\<rparr>))) \<and> qb_inv b \<and>
    contents b = (contents (bk_box w))(get_hash d := contents (bk_box w) (get_hash d) @ [p])"
  using assms by (rule handle_send_stored)

lemma msg1_plain: "plain_send msg1 ''/q''" "header_value ''transaction:'' (msg_headers msg1) = None"
  "header_value ''receipt:'' (msg_headers msg1) = None"
  using msgs_ok(1) by (simp_all add: plain_send_def msg1_def header_value_def has_prefix_def)

lemma pm2_persist:
  "world_frame 7 w = Some f \<Longrightarrow> persist_frame (e_open env) (e_qinfo env) (ss_frames (bk_stomp w)) 7 ''/q'' pm2 =
     Inr (RET_SUCCESS, upd_qinfo 1 (\<lambda>q. (add_frame_into_qinfo 7 q)\<lparr>qi_index_head := qi_index_head q + f_size f\<rparr>) pm2)"
  by (simp add: persist_frame_def create_qinfo_def get_qinfo_def pm2_def world_frame_def)

theorem send_is_stored_witness:
  "\<exists>b w'. handle_frame env0 7 (world0 [(msg1, 7)]) = Some (Inr w') \<and> bk_box w' = b \<and> contents b (get_hash ''/q'') = [7]"
proof -
  have w: "world_frame 7 (world0 [(msg1, 7)]) = Some (delivered os0 4 9 0 msg1)" "bk_pm (world0 [(msg1, 7)]) = pm2"
    "bk_box (world0 [(msg1, 7)]) = empty_box" "e_queue env0 = all_mallocs"
    by (simp_all add: world_frame_def world0_def env0_def)
  from send_is_stored [OF msg1_plain(1) w(1) msg1_plain(2), of env0] pm2_persist [OF w(1), of env0]
  show ?thesis using w msg1_plain(3) by (auto simp: qb_inv_empty contents_empty)
qed

text \<open>
  C12. A transaction with a message in it never commits. When a client sends BEGIN, a SEND in that
  transaction and COMMIT, and the three frames are handled one after the other, the
  management worker never returns from the third: no command of any client is handled
  after it. The SEND handler stores the queue's name but no callback, and the commit loop waits for
  a callback.
\<close>

theorem transaction_commit_hangs_server:
  assumes "names_tx m1 t" and "msg_name m1 = ''BEGIN''" and "plain_send m2 d" and "names_tx m2 t"
    and "header_value ''receipt:'' (msg_headers m2) = None" and "names_tx m3 t" and "msg_name m3 = ''COMMIT''"
    and "ss_bucket (bk_stomp w) = p1 # p2 # p3 # ps" and "distinct [p1, p2, p3]"
    and "world_frame p1 w = Some (delivered os1 s1 c1 k1 m1)" and "world_frame p2 w = Some (delivered os2 s2 c2 k2 m2)"
    and "world_frame p3 w = Some (delivered os3 s3 c3 k3 m3)"
    and "tm_inv L (w_tm w)" and "tid_ok L t" and "tx_frames (w_tm w) t = None"
    and "e_tx env" and "length (e_junk env) = TID_SIZE" and "n \<ge> 3"
  shows "management_rounds env n w = None"
proof -
  obtain tm1 where tm1: "transaction_start True (e_junk env) t (w_tm w) = Inr (RET_SUCCESS, tm1)" "tm_inv L tm1" "tx_frames tm1 t = Some []"
    using transaction_start_ok [OF assms(13,14,15,17)] by blast
  obtain tm2 where tm2: "transaction_add t p2 tm1 = Inr (RET_SUCCESS, tm2)" "tm_inv L tm2" "tx_frames tm2 t = Some [p2]"
    using transaction_add_ok [OF tm1(2) assms(14) tm1(3)] by blast
  define w0 where "w0 = w\<lparr>bk_stomp := (bk_stomp w)\<lparr>ss_bucket := p2 # p3 # ps\<rparr>\<rparr>"
  define w1 where "w1 = w0\<lparr>w_tm := tm1, bk_stomp := (bk_stomp w0)\<lparr>ss_frames := (ss_frames (bk_stomp w0))(p1 := None)\<rparr>\<rparr>"
  have r1: "management_round env w = Some (Inr w1)"
    using handle_begin [OF assms(1,2), of p1 w0 os1 s1 c1 k1 env RET_SUCCESS tm1] assms(8,10,16) tm1(1)
    by (simp add: management_round_def get_frame_from_bucket_def w0_def w1_def world_frame_def)
  define w2 where "w2 = w1\<lparr>bk_stomp := (bk_stomp w1)\<lparr>ss_bucket := p3 # ps\<rparr>\<rparr>"
  obtain q where "handle_frame env p2 w2 = Some (Inr ((set_frame p2 ((delivered os2 s2 c2 k2 m2)\<lparr>f_tdata := Some q\<rparr>) w2)\<lparr>w_tm := tm2\<rparr>))"
    using handle_send_tx [OF assms(3,4), of p2 w2 os2 s2 c2 k2 RET_SUCCESS tm2 env] assms(5,9,11) tm2(1)
    by (auto simp: w2_def w1_def w0_def world_frame_def)
  moreover define w3 where "w3 = (set_frame p2 ((delivered os2 s2 c2 k2 m2)\<lparr>f_tdata := Some q\<rparr>) w2)\<lparr>w_tm := tm2\<rparr>"
  ultimately have r2: "management_round env w1 = Some (Inr w3)"
    by (simp add: management_round_def get_frame_from_bucket_def w2_def w1_def w0_def)
  define w4 where "w4 = w3\<lparr>bk_stomp := (bk_stomp w3)\<lparr>ss_bucket := ps\<rparr>\<rparr>"
  have "frame_callback env p2 w4 = Inr None"
    by (simp add: frame_callback_def world_frame_def w4_def w3_def set_frame_def)
  then have "commit_world env t w4 = None"
    using transaction_commit_stuck [OF tm2(2) assms(14) tm2(3)] by (simp add: commit_world_def w4_def w3_def)
  then have "handle_frame env p3 w4 = None"
    using handle_commit [OF assms(6,7), of p3 w4 os3 s3 c3 k3 env] assms(9,12)
    by (simp add: after_handler_def world_frame_def w4_def w3_def set_frame_def w2_def w1_def w0_def)
  then have r3: "management_round env w3 = None"
    by (simp add: management_round_def get_frame_from_bucket_def w4_def w3_def set_frame_def w2_def w1_def w0_def)
  obtain n' where "n = Suc (Suc (Suc n'))" using assms(18) by (metis Suc_le_D numeral_3_eq_3 Suc_le_mono)
  with r1 r2 r3 show ?thesis by simp
qed

theorem transaction_commit_hangs_server_witness:
  "management_rounds env0 5 (world0 [(msg2, 11), (msg4, 12), (msg5, 13)]) = None"
proof -
  have "msg_ok msg2" "msg_ok msg4" "msg_ok msg5" 
    by (simp_all add: msg_ok_def msg2_def msg4_def msg5_def finfo_arr_def header_ok_def size_consts is_space_def) (code_simp+)
  then have n: "names_tx msg2 ''t1''" "names_tx msg4 ''t1''" "names_tx msg5 ''t1''" "plain_send msg4 ''/q''"
    "header_value ''receipt:'' (msg_headers msg4) = None"
    by (simp_all add: names_tx_def plain_send_def msg2_def msg4_def msg5_def header_value_def has_prefix_def)
  let ?w = "world0 [(msg2, 11), (msg4, 12), (msg5, 13)]"
  have w: "world_frame 11 ?w = Some (delivered os0 4 9 0 msg2)" "world_frame 12 ?w = Some (delivered os0 4 9 0 msg4)"
    "world_frame 13 ?w = Some (delivered os0 4 9 0 msg5)" "ss_bucket (bk_stomp ?w) = 11 # 12 # 13 # []" "w_tm ?w = tm0"
    by (simp_all add: world_frame_def world0_def)
  have t: "tm_inv 2 tm0" "tid_ok 2 ''t1''" "tx_frames tm0 ''t1'' = None"
    by (simp_all add: tm0_def tm_inv_def tid_ok_def TID_SIZE_def tx_frames_def)
  have nm: "msg_name msg2 = ''BEGIN''" "msg_name msg5 = ''COMMIT''" by (simp_all add: msg2_def msg5_def)
  show ?thesis
    by (rule transaction_commit_hangs_server [OF n(1) nm(1) n(4) n(2) n(5) n(3) nm(2) w(4) _ w(1-3), where L = 2])
      (simp_all add: w(5) t env0_def)
qed

end
