(* ===== verification/Runs.thy ===== *)
theory Runs
  imports Handlers
begin

text \<open>
  Runs of the management worker. A relation between worlds that survives the single updates the
  handlers make (replies and frames, transactions, connections, registrations of sending
  workers, storing a frame, removing a subscriber) holds between the first and the last world
  of a run of any length. The relation is the parameter of a locale, which the
  theories \<open>Subscriptions\<close> and \<open>Server\<close> interpret.
\<close>

section \<open>Registrations\<close>

inductive registrations :: "worker_manager_t \<Rightarrow> worker_manager_t \<Rightarrow> bool" where
  none: "registrations wm wm"
| reply: "registrations wm x \<Longrightarrow> register_reply_worker m sock d x = Inr (r, y) \<Longrightarrow> registrations wm y"
| unicast: "registrations wm x \<Longrightarrow> register_unicast_worker m sock d i x = Inr (r, y) \<Longrightarrow> registrations wm y"
| multicast: "registrations wm x \<Longrightarrow> register_multicast_worker m sock d i x = Inr (r, y) \<Longrightarrow> registrations wm y"

lemma registrations_trans: "registrations y z \<Longrightarrow> registrations x y \<Longrightarrow> registrations x z"
  by (induction rule: registrations.induct) (blast intro: registrations.intros)+

lemma registered_once:
  "register_reply_worker m sock d wm = Inr (r, wm') \<Longrightarrow> registrations wm wm'"
  "register_unicast_worker m sock d i wm = Inr (r, wm') \<Longrightarrow> registrations wm wm'"
  "register_multicast_worker m sock d i wm = Inr (r, wm') \<Longrightarrow> registrations wm wm'"
  by (blast intro: registrations.intros)+

section \<open>Relations between worlds\<close>

lemma transaction_commit_state:
  assumes "transaction_commit callback t m s = Some (Inr (r, m', s'))"
  shows "s' = s \<or> (\<exists>fs fs' stop. commit_loop callback fs s = Some (Inr (fs', s', stop)))"
proof (cases "get_transaction t m")
  case (Inr obj)
  show ?thesis
  proof (cases obj)
    case (Some p)
    let ?fs = "case tm_objs m p of None \<Rightarrow> [] | Some t \<Rightarrow> t_frames t"
    obtain fs' s1 stop where l: "commit_loop callback ?fs s = Some (Inr (fs', s1, stop))"
      using assms Inr Some by (auto simp: transaction_commit_def Let_def and_then_eq_Inr)
    then have "s1 = s'" using assms Inr Some by (auto simp: transaction_commit_def Let_def and_then_eq_Inr)
    with l show ?thesis by blast
  qed (use assms Inr in \<open>simp add: transaction_commit_def\<close>)
qed (use assms in \<open>simp add: transaction_commit_def\<close>)

locale world_relation =
  fixes env :: env and R :: "world \<Rightarrow> world \<Rightarrow> bool"
  assumes R_refl: "R w w"
    and R_trans: "R w1 w2 \<Longrightarrow> R w2 w3 \<Longrightarrow> R w1 w3"
    and R_stomp: "R w (w\<lparr>bk_stomp := st\<rparr>)"
    and R_tm: "R w (w\<lparr>w_tm := tm\<rparr>)"
    and R_conns: "R w (w\<lparr>w_conns := cs\<rparr>)"
    and R_workers: "registrations (bk_wm w) wm \<Longrightarrow> R w (w\<lparr>bk_wm := wm\<rparr>)"
    and R_store: "persist_frame (e_open env) (e_qinfo env) (ss_frames (bk_stomp w)) p q (bk_pm w) = Inr (r, pm) \<Longrightarrow>
      enqueue (e_queue env) (Some p) q (bk_box w) = Inr (r', b) \<Longrightarrow> R w (w\<lparr>bk_pm := pm, bk_box := b\<rparr>)"
    and R_cancel: "get_subscriber i (w_subs w) = Some s \<Longrightarrow>
      R w (w\<lparr>w_cancelled := w_cancelled w @ [sub_thread s], w_subs := snd (unregister_subscriber i (w_subs w))\<rparr>)"
begin

lemma R_updates:
  "R w w1 \<Longrightarrow> R w (w1\<lparr>bk_stomp := st\<rparr>)" "R w w1 \<Longrightarrow> R w (w1\<lparr>w_tm := tm\<rparr>)" "R w w1 \<Longrightarrow> R w (w1\<lparr>w_conns := cs\<rparr>)"
  "R w w1 \<Longrightarrow> registrations (bk_wm w1) wm \<Longrightarrow> R w (w1\<lparr>bk_wm := wm\<rparr>)"
  "R w w1 \<Longrightarrow> R w (send_out f w1)" "R w w1 \<Longrightarrow> R w (send_error env' sock msg w1)" "R w w1 \<Longrightarrow> R w (set_frame p fr w1)"
  unfolding send_error_def send_out_def set_frame_def by (blast intro: R_trans R_stomp R_tm R_conns R_workers)+

definition keeps :: "world \<Rightarrow> (ptr option \<times> world) res \<Rightarrow> bool" where
  "keeps w r \<longleftrightarrow> (\<forall>q w'. r = Inr (q, w') \<longrightarrow> R w w')"

lemma keeps_Inr [simp]: "keeps w (Inr (q, w')) \<longleftrightarrow> R w w'"
  by (auto simp: keeps_def)

lemma keeps_Inl [simp]: "keeps w (Inl e)"
  by (simp add: keeps_def)

lemma keeps_and_then: "(\<And>x. r = Inr x \<Longrightarrow> keeps w (k x)) \<Longrightarrow> keeps w (and_then r k)"
  by (cases r) auto

lemma keeps_with_headers:
  assumes "\<And>f d w1. R w w1 \<Longrightarrow> keeps w (k f d w1)"
  shows "keeps w (with_headers env' hs data p w k)"
proof (cases "world_frame p w")
  case (Some f)
  then show ?thesis using assms
    by (auto simp: with_headers_def Let_def intro!: keeps_and_then R_updates R_refl assms split: prod.splits)
qed (simp add: with_headers_def)

lemma keeps_assert_cinfo: "keeps w r \<Longrightarrow> keeps w (assert_cinfo p w r)"
  by (simp add: assert_cinfo_def split: option.split)

lemmas keeps_intros = keeps_with_headers keeps_assert_cinfo keeps_and_then

lemma handlers_keep:
  "keeps w (handler_stomp_begin env p w)" "keeps w (handler_stomp_abort env p w)" "keeps w (handler_stomp_ack env p w)"
  "keeps w (handler_stomp_nack env p w)" "keeps w (handler_stomp_connect env p w)" "keeps w (handler_stomp_disconnect env p w)"
  unfolding handler_stomp_begin_def handler_stomp_abort_def handler_stomp_ack_def handler_stomp_nack_def
    handler_stomp_connect_def handler_stomp_disconnect_def
  by (intro keeps_intros; auto intro!: keeps_and_then R_updates simp: Let_def split: option.splits)+

lemma handler_subscribe_keeps: "keeps w (handler_stomp_subscribe env p w)"
  unfolding handler_stomp_subscribe_def
  by (intro keeps_intros)
    (auto intro!: keeps_and_then R_updates split: option.splits if_splits; erule registered_once)

lemma R_unsubscribe:
  "R w ((case get_subscriber i (w_subs w) of None \<Rightarrow> w | Some s \<Rightarrow> w\<lparr>w_cancelled := w_cancelled w @ [sub_thread s]\<rparr>)
     \<lparr>w_subs := snd (unregister_subscriber i (w_subs w))\<rparr>)"
proof (cases "get_subscriber i (w_subs w)")
  case None
  then have "snd (unregister_subscriber i (w_subs w)) = w_subs w"
    by (auto simp: get_subscriber_def unregister_subscriber_def split: option.splits list.splits)
  then show ?thesis using None R_refl [of w] by simp
qed (use R_cancel in simp)

lemma handler_unsubscribe_keeps: "keeps w (handler_stomp_unsubscribe env p w)"
proof -
  have "keeps w (case i of None \<Rightarrow> Inr (None, w1)
       | Some _ \<Rightarrow> Inr (None, (case get_subscriber i (w_subs w1) of None \<Rightarrow> w1
           | Some s \<Rightarrow> w1\<lparr>w_cancelled := w_cancelled w1 @ [sub_thread s]\<rparr>)\<lparr>w_subs := snd (unregister_subscriber i (w_subs w1))\<rparr>))"
    if "R w w1" for w1 i
    using that R_trans [OF that R_unsubscribe [of w1 i]] by (cases i) simp_all
  moreover have subs: "w_subs (case x of None \<Rightarrow> w1 | Some s \<Rightarrow> w1\<lparr>w_cancelled := c s\<rparr>) = w_subs w1" for x w1 c
    by (simp split: option.split)
  ultimately show ?thesis unfolding handler_stomp_unsubscribe_def Let_def subs
    by (intro keeps_assert_cinfo keeps_with_headers) simp
qed

lemma send_store_keeps: "send_store env p f q t w = Inr w' \<Longrightarrow> R w w'"
  by (auto simp: send_store_def and_then_eq_Inr Let_def intro!: R_updates R_refl R_store split: option.splits)

lemma handler_send_keeps: "keeps w (handler_stomp_send env p w)"
proof -
  have reg: "R w w2" if "R w w1" "(case r of None \<Rightarrow> Inr w1
      | Some r \<Rightarrow> and_then (register_reply_worker ms s r (bk_wm w1)) (\<lambda>(_, wm). Inr (w1\<lparr>bk_wm := wm\<rparr>))) = Inr w2" for w1 w2 r ms s
    using that by (auto simp: and_then_eq_Inr split: option.splits intro!: R_updates dest: registered_once)
  have store: "keeps w (and_then (send_store env p f q t w2) (\<lambda>w.
      and_then (stomp_send_receipt o1 s1 i1 (bk_out w)) (\<lambda>out. Inr (Some p, send_out (\<lambda>_. out) w))))"
    if "R w w2" for f q t w2 o1 s1 i1
    by (intro keeps_and_then) (auto intro: R_updates R_trans [OF that] send_store_keeps)
  show ?thesis unfolding handler_stomp_send_def Let_def
  proof (intro keeps_assert_cinfo keeps_with_headers keeps_and_then)
    fix f :: frame_t and a w1 w2
    assume "R w w1" and "(case sa_reply_to a of None \<Rightarrow> Inr w1
      | Some r \<Rightarrow> and_then (register_reply_worker (e_send env) (f_sock f) r (bk_wm w1)) (\<lambda>(_, wm). Inr (w1\<lparr>bk_wm := wm\<rparr>))) = Inr w2"
    then have "R w w2" by (rule reg)
    then show "keeps w (case sa_qname a of
         None \<Rightarrow> Inr (None, send_error env (f_sock f) (''no destination is specified'' @ [NL]) w2)
       | Some qname \<Rightarrow>
           and_then (send_store env p f qname (sa_tid a) w2) (\<lambda>w.
           and_then (stomp_send_receipt (e_os env) (f_sock f) (sa_receipt_id a) (bk_out w)) (\<lambda>out.
           Inr (Some p, send_out (\<lambda>_. out) w))))"
      using store R_updates by (simp split: option.split)
  qed
qed

text \<open>A commit stays in the relation when the callbacks do.\<close>

lemma commit_loop_keeps:
  assumes "commit_loop callback fs w = Some (Inr (fs', w', stop))" and "\<And>p w r w'. callback p w = Inr (Some (r, w')) \<Longrightarrow> R w w'"
  shows "R w w'"
proof -
  let ?P = "\<lambda>r :: (ptr list \<times> world \<times> bool) res. \<forall>fs w1 stop. r = Inr (fs, w1, stop) \<longrightarrow> R w w1"
  have "?P (Inr (fs', w', stop))"
  proof (rule while_option_rule [of ?P, OF _ assms(1) [unfolded commit_loop_def]])
    fix s :: "(ptr list \<times> world \<times> bool) res"
    assume "?P s"
    then show "?P (and_then s (commit_step callback))"
      using assms(2) R_trans by (fastforce simp: commit_step_def and_then_eq_Inr split: prod.splits option.splits)
  qed (simp add: R_refl)
  then show ?thesis by simp
qed

lemma commit_world_keeps:
  assumes "\<And>cb p w. R w (snd (e_call env cb p w))" and "commit_world env t w = Some r"
  shows "keeps w r"
proof -
  have cb: "R w w'" if "frame_callback env p w = Inr (Some (r, w'))" for p w r w'
    using that assms(1) by (auto simp: frame_callback_def split: option.splits) (metis snd_conv)
  have "R w w1" if "transaction_commit (frame_callback env) t (w_tm w) w = Some (Inr (r1, tm1, w1))" for r1 tm1 w1
    using transaction_commit_state [OF that] commit_loop_keeps [OF _ cb] R_refl by auto
  with assms(2) show ?thesis
    by (auto simp: commit_world_def intro!: keeps_and_then R_updates)
qed

lemma handler_commit_keeps:
  assumes "\<And>cb p w. R w (snd (e_call env cb p w))" and "handler_stomp_commit env p w = Some r"
  shows "keeps w r"
proof (cases "world_frame p w")
  case (Some f)
  show ?thesis
  proof (cases "iterate_header [(''transaction:'', require_context)] None (f_attrs f)")
    case (Inr x)
    obtain ret tid lines where x: "x = (ret, tid, lines)" by (cases x)
    show ?thesis
      using assms(2) Some Inr x commit_world_keeps [OF assms(1)] R_updates(6) [OF R_refl]
      by (cases ret; cases tid) (auto simp: handler_stomp_commit_def)
  qed (use assms(2) Some in \<open>auto simp: handler_stomp_commit_def\<close>)
qed (use assms(2) in \<open>auto simp: handler_stomp_commit_def\<close>)

lemma handle_loop_keeps:
  assumes "\<forall>(n, h)\<in>set hs. \<forall>r. h env p w = Some r \<longrightarrow> keeps w r" and "handle_loop hs env p f w = Some (Inr w')"
  shows "R w w'"
  using assms
proof (induction hs)
  case (Cons x hs)
  obtain n h where x: "x = (n, h)" by (cases x)
  have "R w w'" if "after_handler p (h env p w) = Some (Inr w')"
    using that Cons.prems(1) x
    by (cases "h env p w") (auto simp: after_handler_def keeps_def and_then_eq_Inr intro: R_updates split: if_splits)
  with Cons x show ?case by (auto split: if_splits)
qed (auto simp: send_handle_error_def intro: R_updates R_refl)

lemma handle_frame_keeps:
  assumes "\<And>cb p w. R w (snd (e_call env cb p w))" and "handle_frame env p w = Some (Inr w')"
  shows "R w w'"
proof -
  have "\<forall>(n, h)\<in>set stomp_handlers. \<forall>r. h env p w = Some r \<longrightarrow> keeps w r"
    using handler_commit_keeps [OF assms(1)]
    by (auto simp: stomp_handlers_def returning_def handlers_keep handler_subscribe_keeps handler_unsubscribe_keeps handler_send_keeps)
  with assms(2) show ?thesis
    by (auto simp: handle_frame_def split: option.splits intro: handle_loop_keeps)
qed

lemma management_round_keeps:
  assumes "\<And>cb p w. R w (snd (e_call env cb p w))" and "management_round env w = Some (Inr w')"
  shows "R w w'"
proof (cases "get_frame_from_bucket (bk_stomp w)")
  case (Pair q st)
  then show ?thesis
    using assms(2) handle_frame_keeps [OF assms(1), of _ "w\<lparr>bk_stomp := st\<rparr>" w'] R_trans [OF R_stomp [of w st]] R_stomp [of w st]
    by (cases q) (auto simp: management_round_def)
qed

lemma management_rounds_keep:
  assumes "\<And>cb p w. R w (snd (e_call env cb p w))"
  shows "management_rounds env n w = Some (Inr w') \<Longrightarrow> R w w'"
proof (induction n arbitrary: w)
  case (Suc n)
  then obtain w1 where r: "management_round env w = Some (Inr w1)" "management_rounds env n w1 = Some (Inr w')"
    by (auto split: option.splits sum.splits)
  from R_trans [OF management_round_keeps [OF assms r(1)] Suc.IH [OF r(2)]] show ?case .
qed (simp add: R_refl)

end

end
