(* ===== verification/Subscriptions.thy ===== *)
theory Subscriptions
  imports Runs
begin

text \<open>
  Subscriptions over whole runs of the management worker, and the \<^verbatim>\<open>reply-to\<close> header. The relation
  \<open>kept\<close> is what every handler leaves of the subscriptions.
\<close>

section \<open>What every handler keeps\<close>

definition kept :: "world \<Rightarrow> world \<Rightarrow> bool" where
  "kept w w' \<longleftrightarrow> (w_subs w = [] \<longrightarrow> w_subs w' = [] \<and> w_cancelled w' = w_cancelled w) \<and>
     (\<exists>ts. wm_threads (bk_wm w') = wm_threads (bk_wm w) @ ts)"

lemma registrations_grow: "registrations wm wm' \<Longrightarrow> \<exists>ts. wm_threads wm' = wm_threads wm @ ts"
proof (induction rule: registrations.induct)
  case (reply wm x m sock d r y)
  then show ?case
    by (auto simp: register_reply_worker_def initialize_dest_group_def register_client_def create_thread_def and_then_eq_Inr Let_def
        split: option.splits if_splits)
next
  case (unicast wm x m sock d i r y)
  then show ?case
    by (auto simp: register_unicast_worker_def initialize_dest_group_def register_client_def create_thread_def and_then_eq_Inr Let_def
        split: option.splits if_splits)
next
  case (multicast wm x m sock d i r y)
  then show ?case
    by (auto simp: register_multicast_worker_def initialize_dest_group_def register_client_def create_thread_def and_then_eq_Inr Let_def
        split: option.splits if_splits)
qed simp

interpretation subs: world_relation env kept for env
  by unfold_locales (auto simp: kept_def get_subscriber_def dest: registrations_grow split: option.splits list.splits)

section \<open>Properties\<close>

text \<open>
  C31. A subscription is never cancelled. From the start of the management worker on, whatever frames
  it handles, UNSUBSCRIBE and DISCONNECT included, no sending thread is ever cancelled: the list
  of subscribers that UNSUBSCRIBE looks into stays empty, because nothing registers in it, and
  the threads created so far remain. The one hypothesis is that callbacks of frames, which the
  server does not have, keep the subscriptions too.
\<close>

theorem subscriptions_never_cancelled:
  assumes "\<forall>cb p w. kept w (snd (e_call env cb p w))" and "stomp_management_worker env n w = Some (Inr w')"
  shows "w_subs w' = [] \<and> w_cancelled w' = w_cancelled w \<and> (\<exists>ts. wm_threads (bk_wm w') = wm_threads (bk_wm w) @ ts)"
proof -
  have "kept (w\<lparr>w_subs := []\<rparr>) w'"
    using subs.management_rounds_keep [of env n "w\<lparr>w_subs := []\<rparr>" w'] assms
    by (simp add: stomp_management_worker_def initialize_manager_def)
  then show ?thesis by (simp add: kept_def)
qed

definition msg6 :: message where
  "msg6 = \<lparr>msg_name = ''UNSUBSCRIBE'', msg_headers = [''id:1'', ''content-length:0''], msg_body = []\<rparr>"

lemma unsubscribe_round:
  "\<exists>w'. stomp_management_worker env0 1 (world0 [(msg6, 7)]) = Some (Inr w')"
proof -
  let ?w = "(world0 [(msg6, 7)])\<lparr>w_subs := []\<rparr>"
  let ?f = "delivered os0 4 9 0 msg6"
  have i: "iterate_header [(''id:'', note_context (\<lambda>c _. Some c))] None (f_attrs ?f) =
      Inr (RET_SUCCESS, fold (note_line [(''id:'', \<lambda>c _. Some c)]) (msg_headers msg6) None, f_attrs ?f)"
    using iterate_header_noting [of "msg_headers msg6" "[(''id:'', \<lambda>c _. Some c)]" "[]" "None :: byte list option"]
    by (simp add: noting_def msg6_def size_consts)
  define w1 where "w1 = ?w\<lparr>bk_stomp := (bk_stomp ?w)\<lparr>ss_bucket := []\<rparr>\<rparr>"
  have f: "world_frame 7 w1 = Some ?f" by (simp add: world_frame_def world0_def w1_def)
  have "\<exists>w2. handler_stomp_unsubscribe env0 7 w1 = Inr (None, w2) \<and> world_frame 7 w2 = Some ?f"
    using with_headers_ok [OF f i] f
    by (auto simp: handler_stomp_unsubscribe_def assert_cinfo_def get_subscriber_def unregister_subscriber_def w1_def world0_def
        world_frame_def split: option.split)
  then obtain w2 where h: "handler_stomp_unsubscribe env0 7 w1 = Inr (None, w2)" "world_frame 7 w2 = Some ?f" by blast
  have "(msg_name msg6, returning handler_stomp_unsubscribe) \<in> set stomp_handlers" by (simp add: msg6_def stomp_handlers_def)
  from handle_frame_dispatch [OF this f, of env0] h after_handler_freed [OF h(2)]
  show ?thesis
    by (simp add: stomp_management_worker_def initialize_manager_def management_round_def get_frame_from_bucket_def
        returning_def w1_def world0_def eval_nat_numeral)
qed

theorem subscriptions_never_cancelled_witness:
  "\<exists>w'. stomp_management_worker env0 1 (world0 [(msg6, 7)]) = Some (Inr w') \<and> w_cancelled w' = []
     \<and> set (wm_threads (bk_wm w')) \<supseteq> {Unicast_Worker 2, Unicast_Worker 3}"
proof -
  obtain w' where w': "stomp_management_worker env0 1 (world0 [(msg6, 7)]) = Some (Inr w')" using unsubscribe_round by blast
  have "\<forall>cb p w. kept w (snd (e_call env0 cb p w))" by (simp add: env0_def subs.R_refl)
  from subscriptions_never_cancelled [OF this w'] w' show ?thesis
    by (auto simp: world0_def wm2_clients)
qed

text \<open>
  C33. The \<^verbatim>\<open>reply-to\<close> header of SEND. With a connection identifier of nine characters, a text of up
  to 1005 bytes gets the identifier appended and becomes the name of the reply queue, but the
  line's length counts ten bytes more, so that a null byte is sent to subscribers with the
  header; a text of 1006 to 1013 bytes passes the length check and overflows the line's
  array; a longer one is refused.
\<close>

theorem reply_to_bounds:
  assumes "conns c = Some cinfo" and "length (cstr (sc_id cinfo)) = 9" and "sa_cinfo data = Some c"
    and "NUL \<notin> set v" and "length (''reply-to:'' @ v) \<le> LD_MAX"
  shows "(length v \<le> 1005 \<longrightarrow> (\<exists>r line. iterate_line (send_handlers conns) data (ld (''reply-to:'' @ v)) =
        Inr (RET_SUCCESS, data\<lparr>sa_reply_to := Some r\<rparr>, line) \<and> cstr r = v @ cstr (sc_id cinfo) \<and>
        ld_bytes line = ''reply-to:'' @ v @ cstr (sc_id cinfo) @ [NUL])) \<and>
    (1005 < length v \<and> length v \<le> 1013 \<longrightarrow>
      iterate_line (send_handlers conns) data (ld (''reply-to:'' @ v)) = Inl Buffer_Overflow) \<and>
    (1013 < length v \<longrightarrow>
      iterate_line (send_handlers conns) data (ld (''reply-to:'' @ v)) = Inr (RET_ERROR, data, ld (''reply-to:'' @ v)))"
proof -
  let ?h = "''reply-to:'' @ v" and ?i = "cstr (sc_id cinfo)"
  define pad where "pad = replicate (LD_MAX - length ?h) NUL"
  have d: "ld_data (ld ?h) = ?h @ pad" "ld_len (ld ?h) = length ?h"
    unfolding pad_def by (rule ld_data_ld [OF assms(5)], simp add: mk_linedata_def)
  have v: "cstr (v @ pad) = v" "strlen (v @ pad) = length v" "length (v @ pad) = 1015"
    using assms(4,5) cstr_append_replicate [of v] by (simp_all add: pad_def strlen_def size_consts)
  have "note_line send_tab ?h data = data" by (simp add: note_line_def send_tab_def has_prefix_def)
  moreover have "strlen ''reply-to:'' = 9" by (simp add: strlen_def)
  ultimately have it: "iterate_line (send_handlers conns) data (ld ?h) =
      and_then (handler_reply_to conns (v @ pad) data (ld ?h)) (\<lambda>(ret, data, line).
        if ret = RET_ERROR then Inr (RET_ERROR, data, line) else Inr (RET_SUCCESS, data, line))"
    unfolding send_handlers_noting
    using iterate_line_noting [of ?h send_tab "[(''reply-to:'', handler_reply_to conns)]" data] assms(5)
      line_matches [of "''reply-to:''" ?h] d(1)
    by (auto simp: send_tab_def has_prefix_def cong: if_cong)
  show ?thesis
  proof (intro conjI impI)
    assume len: "length v \<le> 1005"
    let ?r = "(v @ ?i @ [NUL]) @ drop (length (v @ ?i @ [NUL])) (v @ pad)"
    have hr: "handler_reply_to conns (v @ pad) data (ld ?h) = Inr (RET_SUCCESS, data\<lparr>sa_reply_to := Some ?r\<rparr>,
        (ld ?h)\<lparr>ld_data := ''reply-to:'' @ ?r, ld_len := length ?h + CONN_ID_LEN\<rparr>)"
      using assms(1-3) v len d by (simp add: handler_reply_to_def UNIQUE_STR_LEN_def size_consts Let_def)
    have "cstr ?r = v @ ?i" using assms(4) cstr_append_NUL [of "v @ ?i"] by simp
    moreover have "ld_bytes ((ld ?h)\<lparr>ld_data := ''reply-to:'' @ ?r, ld_len := length ?h + CONN_ID_LEN\<rparr>) =
        ''reply-to:'' @ v @ ?i @ [NUL]"
      using take_append [of "length (?h @ ?i @ [NUL])" "?h @ ?i @ [NUL]" "drop (length (v @ ?i @ [NUL])) (v @ pad)"] assms(2)
      by (simp only: ld_bytes_def linedata_t.simps CONN_ID_LEN_def) (simp add: eval_nat_numeral)
    ultimately show "\<exists>r line. iterate_line (send_handlers conns) data (ld ?h) =
        Inr (RET_SUCCESS, data\<lparr>sa_reply_to := Some r\<rparr>, line) \<and> cstr r = v @ ?i \<and> ld_bytes line = ''reply-to:'' @ v @ ?i @ [NUL]"
      using it hr by auto
  next
    assume "1005 < length v \<and> length v \<le> 1013"
    then show "iterate_line (send_handlers conns) data (ld ?h) = Inl Buffer_Overflow"
      using it assms(1-3) v by (simp add: handler_reply_to_def UNIQUE_STR_LEN_def size_consts Let_def)
  next
    assume "1013 < length v"
    then show "iterate_line (send_handlers conns) data (ld ?h) = Inr (RET_ERROR, data, ld ?h)"
      using it v by (simp add: handler_reply_to_def UNIQUE_STR_LEN_def size_consts)
  qed
qed

theorem reply_to_bounds_witness:
  "iterate_line (send_handlers [9 \<mapsto> conn0\<lparr>sc_id := ''abcdefghi'' @ [NUL]\<rparr>])
     \<lparr>sa_cinfo = Some 9, sa_qname = None, sa_tid = None, sa_receipt_id = None, sa_reply_to = None\<rparr>
     (ld (''reply-to:'' @ replicate 1010 (CHR ''x''))) = Inl Buffer_Overflow"
  using reply_to_bounds [of "[9 \<mapsto> conn0\<lparr>sc_id := ''abcdefghi'' @ [NUL]\<rparr>]" 9 "conn0\<lparr>sc_id := ''abcdefghi'' @ [NUL]\<rparr>"
      "\<lparr>sa_cinfo = Some 9, sa_qname = None, sa_tid = None, sa_receipt_id = None, sa_reply_to = None\<rparr>" "replicate 1010 (CHR ''x'')"]
  by (simp add: size_consts)

end
