(* ===== verification/Signals.thy ===== *)
theory Signals
  imports Prelude
begin

text \<open>
  Signal handlers (\<^verbatim>\<open>lib/signal.c\<close>): the list \<^verbatim>\<open>h_signal\<close> of registered cleanup functions and what
  an interrupt does with it. The functions are calls \<open>call f arg\<close> on the rest of the
  program's state, which may fault. The list is used without a lock by all threads; an
  operation is one atomic step here.
\<close>

section \<open>State and operations\<close>

record ('f, 'a) sighandle_t =
  sg_func :: 'f
  sg_argument :: 'a

record ('f, 'a) signals =
  sg_heap :: "ptr \<Rightarrow> ('f, 'a) sighandle_t option"
  sg_list :: "ptr list"
  sg_next :: ptr

text \<open>\<^verbatim>\<open>LIST_HEAD(h_signal)\<close>.\<close>

definition no_signals :: "('f, 'a) signals" where
  "no_signals = \<lparr>sg_heap = (\<lambda>_. None), sg_list = [], sg_next = 1\<rparr>"

text \<open>\<^verbatim>\<open>list_add\<close> puts the new handler first.\<close>

definition set_signal_handler :: "bool \<Rightarrow> 'f \<Rightarrow> 'a \<Rightarrow> ('f, 'a) signals \<Rightarrow> ptr option \<times> ('f, 'a) signals" where
  "set_signal_handler malloc_ok func arg sg =
     (if \<not> malloc_ok then (None, sg)
      else let h = sg_next sg in
        (Some h, sg\<lparr>sg_heap := (sg_heap sg)(h \<mapsto> \<lparr>sg_func = func, sg_argument = arg\<rparr>), sg_list := h # sg_list sg,
                    sg_next := h + 1\<rparr>))"

definition del_signal_handler :: "ptr option \<Rightarrow> ('f, 'a) signals \<Rightarrow> (ret \<times> ('f, 'a) signals) res" where
  "del_signal_handler handler sg =
     (case handler of None \<Rightarrow> Inr (RET_ERROR, sg)
      | Some h \<Rightarrow>
          if sg_heap sg h = None then Inl Use_After_Free
          else Inr (RET_SUCCESS, sg\<lparr>sg_heap := (sg_heap sg)(h := None), sg_list := remove1 h (sg_list sg)\<rparr>))"

definition cleanup_handler :: "('f, 'a) signals \<Rightarrow> ('f, 'a) signals res" where
  "cleanup_handler sg =
     each_res (\<lambda>h sg. if sg_heap sg h = None then Inl Use_After_Free
       else Inr (sg\<lparr>sg_heap := (sg_heap sg)(h := None), sg_list := remove1 h (sg_list sg)\<rparr>)) (sg_list sg) sg"

text \<open>\<^verbatim>\<open>int_handle\<close> up to its \<^verbatim>\<open>exit(0)\<close>.\<close>

definition int_handle :: "('f \<Rightarrow> 'a \<Rightarrow> 's \<Rightarrow> 's res) \<Rightarrow> ('f, 'a) signals \<Rightarrow> 's \<Rightarrow> (('f, 'a) signals \<times> 's) res" where
  "int_handle call sg s =
     and_then (each_res (\<lambda>h s. case sg_heap sg h of None \<Rightarrow> Inl Use_After_Free
       | Some sh \<Rightarrow> call (sg_func sh) (sg_argument sh) s) (sg_list sg) s) (\<lambda>s.
     and_then (cleanup_handler sg) (\<lambda>sg. Inr (sg, s)))"

section \<open>Sessions\<close>

definition sg_inv :: "('f, 'a) signals \<Rightarrow> bool" where
  "sg_inv sg \<longleftrightarrow> distinct (sg_list sg) \<and> (\<forall>h. h \<in> set (sg_list sg) \<longleftrightarrow> sg_heap sg h \<noteq> None) \<and>
     (\<forall>h. sg_heap sg h \<noteq> None \<longrightarrow> h < sg_next sg)"

text \<open>The registered functions with their arguments, the next to be called first.\<close>

definition registered :: "('f, 'a) signals \<Rightarrow> ('f \<times> 'a) list" where
  "registered sg = map (\<lambda>h. case sg_heap sg h of None \<Rightarrow> undefined | Some sh \<Rightarrow> (sg_func sh, sg_argument sh)) (sg_list sg)"

lemma sg_inv_none: "sg_inv no_signals"
  by (simp add: sg_inv_def no_signals_def)

lemma set_signal_handler_ok:
  assumes "sg_inv sg"
  shows "\<exists>h sg'. set_signal_handler True f a sg = (Some h, sg') \<and> sg_inv sg' \<and> registered sg' = (f, a) # registered sg"
  using assms
  by (fastforce simp: set_signal_handler_def sg_inv_def registered_def Let_def less_Suc_eq)

lemma del_signal_handler_ok:
  assumes "sg_inv sg" and "sg_list sg = hs1 @ h # hs2"
  shows "\<exists>sg'. del_signal_handler (Some h) sg = Inr (RET_SUCCESS, sg') \<and> sg_inv sg' \<and> sg_list sg' = hs1 @ hs2 \<and>
    registered sg' = take (length hs1) (registered sg) @ drop (Suc (length hs1)) (registered sg)"
proof -
  have h: "h \<notin> set hs1" "h \<notin> set hs2" "sg_heap sg h \<noteq> None" using assms by (auto simp: sg_inv_def)
  let ?sg = "sg\<lparr>sg_heap := (sg_heap sg)(h := None), sg_list := remove1 h (sg_list sg)\<rparr>"
  have "del_signal_handler (Some h) sg = Inr (RET_SUCCESS, ?sg)" using h by (simp add: del_signal_handler_def)
  moreover have "sg_inv ?sg" using assms(1) by (auto simp: sg_inv_def)
  moreover have "sg_list ?sg = hs1 @ hs2" using h assms(2) by (simp add: remove1_append)
  moreover have "registered ?sg = take (length hs1) (registered sg) @ drop (Suc (length hs1)) (registered sg)"
    using h assms(2) by (auto simp: registered_def remove1_append)
  ultimately show ?thesis by blast
qed

lemma cleanup_loop:
  "sg_inv sg \<Longrightarrow> sg_list sg = hs \<Longrightarrow>
     each_res (\<lambda>h sg. if sg_heap sg h = None then Inl Use_After_Free
       else Inr (sg\<lparr>sg_heap := (sg_heap sg)(h := None), sg_list := remove1 h (sg_list sg)\<rparr>)) hs sg =
     Inr (sg\<lparr>sg_heap := (\<lambda>_. None), sg_list := []\<rparr>)"
proof (induction hs arbitrary: sg)
  case Nil
  then have "sg_heap sg = (\<lambda>_. None)" by (auto simp: sg_inv_def fun_eq_iff)
  then show ?case using Nil by (cases sg) auto
next
  case (Cons h hs)
  let ?sg = "sg\<lparr>sg_heap := (sg_heap sg)(h := None), sg_list := hs\<rparr>"
  have "sg_inv ?sg" and "sg_heap sg h \<noteq> None" using Cons.prems by (auto simp: sg_inv_def)
  with Cons.IH [of ?sg] Cons.prems show ?case by simp
qed

lemma cleanup_handler_ok: "sg_inv sg \<Longrightarrow> cleanup_handler sg = Inr (sg\<lparr>sg_heap := (\<lambda>_. None), sg_list := []\<rparr>)"
  unfolding cleanup_handler_def by (rule cleanup_loop) simp_all

lemma int_handle_ok:
  assumes "sg_inv sg"
  shows "int_handle call sg s =
    and_then (each_res (\<lambda>(f, a). call f a) (registered sg) s) (\<lambda>s. Inr (sg\<lparr>sg_heap := (\<lambda>_. None), sg_list := []\<rparr>, s))"
proof -
  have "each_res (\<lambda>h s. case sg_heap sg h of None \<Rightarrow> Inl Use_After_Free
       | Some sh \<Rightarrow> call (sg_func sh) (sg_argument sh) s) hs s = each_res (\<lambda>(f, a). call f a)
       (map (\<lambda>h. case sg_heap sg h of None \<Rightarrow> undefined | Some sh \<Rightarrow> (sg_func sh, sg_argument sh)) hs) s"
    if "\<forall>h\<in>set hs. sg_heap sg h \<noteq> None" for hs
    using that
  proof (induction hs arbitrary: s)
    case (Cons h hs)
    then obtain sh where "sg_heap sg h = Some sh" by auto
    with Cons show ?case by (cases "call (sg_func sh) (sg_argument sh) s") auto
  qed simp
  from this [of "sg_list sg"] show ?thesis
    using assms cleanup_handler_ok [OF assms] by (simp add: int_handle_def registered_def sg_inv_def)
qed

text \<open>The registrations of a program that runs: handlers are added, and added ones removed by position.\<close>

datatype ('f, 'a) signal_op = Register 'f 'a | Deregister nat

fun run_signal_ops :: "('f, 'a) signal_op list \<Rightarrow> ('f, 'a) signals \<Rightarrow> ('f, 'a) signals res" where
  "run_signal_ops [] sg = Inr sg"
| "run_signal_ops (Register f a # ops) sg = run_signal_ops ops (snd (set_signal_handler True f a sg))"
| "run_signal_ops (Deregister i # ops) sg =
     and_then (del_signal_handler (if i < length (sg_list sg) then Some (sg_list sg ! i) else None) sg) (\<lambda>(_, sg). run_signal_ops ops sg)"

text \<open>The specification: a stack from which entries may be taken anywhere.\<close>

fun signal_spec :: "('f, 'a) signal_op list \<Rightarrow> ('f \<times> 'a) list \<Rightarrow> ('f \<times> 'a) list" where
  "signal_spec [] hs = hs"
| "signal_spec (Register f a # ops) hs = signal_spec ops ((f, a) # hs)"
| "signal_spec (Deregister i # ops) hs = signal_spec ops (take i hs @ drop (Suc i) hs)"

lemma length_registered [simp]: "length (registered sg) = length (sg_list sg)"
  by (simp add: registered_def)

lemma run_signal_ops_spec:
  "sg_inv sg \<Longrightarrow> \<exists>sg'. run_signal_ops ops sg = Inr sg' \<and> sg_inv sg' \<and> registered sg' = signal_spec ops (registered sg)"
proof (induction ops arbitrary: sg)
  case (Cons op ops)
  show ?case
  proof (cases op)
    case (Register f a)
    obtain h sg1 where "set_signal_handler True f a sg = (Some h, sg1)" "sg_inv sg1" "registered sg1 = (f, a) # registered sg"
      using set_signal_handler_ok [OF Cons.prems] by blast
    with Cons.IH [of sg1] Register show ?thesis by simp
  next
    case (Deregister i)
    show ?thesis
    proof (cases "i < length (sg_list sg)")
      case True
      have "sg_list sg = take i (sg_list sg) @ sg_list sg ! i # drop (Suc i) (sg_list sg)"
        using True by (rule id_take_nth_drop)
      from del_signal_handler_ok [OF Cons.prems this] obtain sg1 where
        "del_signal_handler (Some (sg_list sg ! i)) sg = Inr (RET_SUCCESS, sg1)" "sg_inv sg1"
        "registered sg1 = take i (registered sg) @ drop (Suc i) (registered sg)" using True by auto
      with Cons.IH [of sg1] Deregister True show ?thesis by simp
    next
      case False
      with Cons Deregister show ?thesis by (simp add: del_signal_handler_def)
    qed
  qed
qed simp

section \<open>Properties\<close>

text \<open>
  C37. What an interrupt runs. After any sequence of registrations and deregistrations, the
  interrupt handler calls exactly the functions that are still registered, each once with its
  argument, the one registered last first; when none of them faults, every handler object is
  freed and the list is empty.
\<close>

theorem interrupt_runs_registered:
  assumes "sg_inv sg"
  shows "\<exists>sg'. run_signal_ops ops sg = Inr sg' \<and>
    int_handle call sg' s = and_then (each_res (\<lambda>(f, a). call f a) (signal_spec ops (registered sg)) s)
      (\<lambda>s. Inr (sg'\<lparr>sg_heap := (\<lambda>_. None), sg_list := []\<rparr>, s))"
  using run_signal_ops_spec [OF assms, of ops] int_handle_ok by fastforce

theorem interrupt_runs_registered_witness:
  "\<exists>sg' sg''. run_signal_ops [Register ''a'' 1, Register ''b'' 2, Register ''c'' (3::nat), Deregister 1] no_signals = Inr sg' \<and>
     int_handle (\<lambda>f a s. Inr (s @ [(f, a)])) sg' [] = Inr (sg'', [(''c'', 3), (''a'', 1)])"
  using interrupt_runs_registered [OF sg_inv_none, of "[Register ''a'' 1, Register ''b'' 2, Register ''c'' (3::nat), Deregister 1]"
      "\<lambda>f a s. Inr (s @ [(f, a)])" "[]"]
  by (auto simp: registered_def no_signals_def)

end
