(* ===== verification/Network.thy ===== *)
theory Network
  imports Subscriptions Signals
begin

text \<open>
  Sockets and connections (\<^verbatim>\<open>lib/connection.c\<close>), the cleanup functions of the program that an
  interrupt runs (\<^verbatim>\<open>cleanup_connection\<close>, \<^verbatim>\<open>cleanup_worker\<close> of \<^verbatim>\<open>lib/stomp.c\<close>, and those of the
  theories \<open>Stomp\<close> and \<open>Persistent\<close>), and their registration. The system calls' results are
  arguments. The addresses of local variables that are registered as arguments of cleanup
  functions are kept as such, with the variables that are alive.
\<close>

section \<open>State\<close>

datatype conn_handler = Stomp_Conn_Worker | Newtctl_Worker

text \<open>\<^verbatim>\<open>struct conninfo\<close>; its list \<^verbatim>\<open>h_buf\<close> is never used.\<close>

record conninfo =
  cn_sock :: int
  cn_protocol_data :: "ptr option"
  cn_handler :: "conn_handler option"

text \<open>
  The cleanup functions that are registered, and their arguments: null, the address of an
  \<^verbatim>\<open>int\<close> variable on some thread's stack, a connection, or the address of a pointer variable.
\<close>

datatype sig_func = Cleanup | Cleanup_Worker | Cleanup_Connection | Cleanup_Persistent_Worker

datatype sig_arg = Null_Arg | Int_Var nat | Conninfo_Arg ptr | Pointer_Var

text \<open>\<open>nt_stack\<close> holds the integer variables on the stacks; a variable is gone when its function has returned.\<close>

record net =
  nt_conns :: "ptr \<Rightarrow> conninfo option"
  nt_next :: ptr
  nt_protocol :: "ptr \<Rightarrow> bool"
  nt_closed :: "int list"
  nt_threads :: "ptr list"
  nt_stack :: "nat \<Rightarrow> int option"
  nt_vars :: nat
  nt_signals :: "(sig_func, sig_arg) signals"

record netos =
  no_socket :: int
  no_inet_addr :: "byte list \<Rightarrow> 32 word"
  no_bind :: "int \<Rightarrow> 32 word \<Rightarrow> 16 word \<Rightarrow> int"
  no_listen :: "int \<Rightarrow> nat \<Rightarrow> int"

definition QUEUENUM :: nat where "QUEUENUM = 1024"
definition INADDR_ANY :: "32 word" where "INADDR_ANY = 0"

section \<open>Connections\<close>

definition alloc_conninfo :: "bool \<Rightarrow> conninfo option" where
  "alloc_conninfo ok = (if ok then Some \<lparr>cn_sock = 0, cn_protocol_data = None, cn_handler = None\<rparr> else None)"

definition close_fd :: "int \<Rightarrow> net \<Rightarrow> net" where
  "close_fd sd n = n\<lparr>nt_closed := nt_closed n @ [sd]\<rparr>"

text \<open>\<^verbatim>\<open>cleanup_connection\<close> reads an integer at its argument.\<close>

definition cleanup_connection :: "sig_arg \<Rightarrow> net \<Rightarrow> (ret \<times> net) res" where
  "cleanup_connection data n =
     (case data of
        Null_Arg \<Rightarrow> Inr (RET_ERROR, n)
      | Int_Var k \<Rightarrow> (case nt_stack n k of None \<Rightarrow> Inl Use_After_Free | Some sd \<Rightarrow> Inr (RET_SUCCESS, close_fd sd n))
      | _ \<Rightarrow> Inl Buffer_Overflow)"

text \<open>
  \<^verbatim>\<open>init_connection\<close>: the socket is left open when \<^verbatim>\<open>bind\<close> or \<^verbatim>\<open>listen\<close> fails, and the
  registered address is the one of the local variable \<^verbatim>\<open>sd\<close>, which ends with the function.
\<close>

definition init_connection :: "netos \<Rightarrow> bool \<Rightarrow> byte list option \<Rightarrow> int \<Rightarrow> net \<Rightarrow> int \<times> net" where
  "init_connection os malloc_ok host port n =
     (let sd = no_socket os in
      if sd < 0 then (-1, n)
      else let addr = (case host of None \<Rightarrow> INADDR_ANY | Some h \<Rightarrow> no_inet_addr os h) in
      if no_bind os sd addr (word_of_int port) < 0 then (-1, n)
      else if no_listen os sd QUEUENUM < 0 then (-1, n)
      else let k = nt_vars n; n = n\<lparr>nt_stack := (nt_stack n)(k \<mapsto> sd), nt_vars := k + 1\<rparr>;
               n = n\<lparr>nt_signals := snd (set_signal_handler malloc_ok Cleanup_Connection (Int_Var k) (nt_signals n))\<rparr>
           in (sd, n\<lparr>nt_stack := (nt_stack n)(k := None)\<rparr>))"

text \<open>\<^verbatim>\<open>connection_co_worker\<close>; \<open>run h c\<close> is the connection's handler.\<close>

definition connection_co_worker :: "(conn_handler \<Rightarrow> ptr \<Rightarrow> net \<Rightarrow> net res) \<Rightarrow> ptr \<Rightarrow> net \<Rightarrow> net res" where
  "connection_co_worker run c n =
     (case nt_conns n c of None \<Rightarrow> Inl Use_After_Free
      | Some ci \<Rightarrow>
          and_then (case cn_handler ci of None \<Rightarrow> Inr n | Some h \<Rightarrow> run h c n) (\<lambda>n.
          case nt_conns n c of None \<Rightarrow> Inl Use_After_Free
          | Some ci \<Rightarrow> (let n = close_fd (cn_sock ci) n in Inr (n\<lparr>nt_conns := (nt_conns n)(c := None)\<rparr>))))"

text \<open>One result of \<^verbatim>\<open>accept\<close>, whether the allocation behind it succeeds and whether \<^verbatim>\<open>pthread_create\<close> fails.\<close>

datatype accepted = Accepted (acc_sd: int) (acc_malloc: bool) (acc_create_fails: bool)

fun accept_loop :: "conn_handler \<Rightarrow> accepted list \<Rightarrow> net \<Rightarrow> net" where
  "accept_loop handler [] n = n"
| "accept_loop handler (Accepted sd malloc_ok create_fails # as) n =
     (if sd < 0 then accept_loop handler as n
      else case alloc_conninfo malloc_ok of
        None \<Rightarrow> accept_loop handler as n
      | Some cinfo \<Rightarrow>
          (let c = nt_next n; cinfo = cinfo\<lparr>cn_sock := sd, cn_handler := Some handler\<rparr>;
               n = n\<lparr>nt_conns := (nt_conns n)(c \<mapsto> cinfo), nt_next := c + 1\<rparr>
           in accept_loop handler as (if create_fails then n else n\<lparr>nt_threads := nt_threads n @ [c]\<rparr>)))"

text \<open>The worker returns when it cannot listen; otherwise it has taken the given results and waits for more.\<close>

definition do_connection_worker :: "netos \<Rightarrow> bool \<Rightarrow> byte list option \<Rightarrow> int \<Rightarrow> conn_handler \<Rightarrow> accepted list \<Rightarrow> net \<Rightarrow> bool \<times> net" where
  "do_connection_worker os malloc_ok host port handler as n =
     (case init_connection os malloc_ok host port n of
        (sd, n) \<Rightarrow> if sd < 0 then (True, n) else (False, accept_loop handler as n))"

section \<open>The STOMP worker and its cleanup\<close>

text \<open>
  The frame of \<^verbatim>\<open>stomp_conn_worker\<close> around its receive loop: the protocol data is allocated and
  \<^verbatim>\<open>&cinfo\<close>, the address of a pointer variable, is registered; at the end the handler is removed.
\<close>

definition stomp_conn_start :: "bool \<Rightarrow> bool \<Rightarrow> ptr \<Rightarrow> net \<Rightarrow> (ptr option \<times> net) res" where
  "stomp_conn_start malloc_ok sig_ok c n =
     (case nt_conns n c of None \<Rightarrow> Inl Use_After_Free
      | Some ci \<Rightarrow>
          (let d = nt_next n;
               n = (if malloc_ok then n\<lparr>nt_protocol := (nt_protocol n)(d := True), nt_next := d + 1\<rparr> else n);
               n = n\<lparr>nt_conns := (nt_conns n)(c \<mapsto> ci\<lparr>cn_protocol_data := (if malloc_ok then Some d else None)\<rparr>)\<rparr>;
               (h, sg) = set_signal_handler sig_ok Cleanup_Worker Pointer_Var (nt_signals n)
           in Inr (h, n\<lparr>nt_signals := sg\<rparr>)))"

definition stomp_conn_stop :: "ptr option \<Rightarrow> net \<Rightarrow> net res" where
  "stomp_conn_stop h n = and_then (del_signal_handler h (nt_signals n)) (\<lambda>(_, sg). Inr (n\<lparr>nt_signals := sg\<rparr>))"

text \<open>
  \<^verbatim>\<open>cleanup_worker\<close> takes its argument for a \<^verbatim>\<open>struct conninfo\<close>; a pointer or integer variable is
  smaller than that, so reading \<^verbatim>\<open>protocol_data\<close> leaves it.
\<close>

definition cleanup_worker :: "sig_arg \<Rightarrow> net \<Rightarrow> (ret \<times> net) res" where
  "cleanup_worker data n =
     (case data of
        Null_Arg \<Rightarrow> Inr (RET_ERROR, n)
      | Conninfo_Arg c \<Rightarrow>
          (case nt_conns n c of None \<Rightarrow> Inl Use_After_Free
           | Some ci \<Rightarrow>
               (let n = close_fd (cn_sock ci) n in
                and_then (case cn_protocol_data ci of None \<Rightarrow> Inr n
                          | Some d \<Rightarrow> if nt_protocol n d then Inr (n\<lparr>nt_protocol := (nt_protocol n)(d := False)\<rparr>) else Inl Bad_Free)
                  (\<lambda>n. Inr (RET_SUCCESS, n\<lparr>nt_conns := (nt_conns n)(c := None)\<rparr>))))
      | _ \<Rightarrow> Inl Buffer_Overflow)"

section \<open>Interrupts\<close>

record process =
  pr_net :: net
  pr_world :: world

definition call_cleanup :: "sig_func \<Rightarrow> sig_arg \<Rightarrow> process \<Rightarrow> process res" where
  "call_cleanup f a pr =
     (case f of
        Cleanup \<Rightarrow> and_then (cleanup (bk_stomp (pr_world pr))) (\<lambda>(_, st). Inr (pr\<lparr>pr_world := (pr_world pr)\<lparr>bk_stomp := st\<rparr>\<rparr>))
      | Cleanup_Persistent_Worker \<Rightarrow>
          and_then (cleanup_persistent_worker (bk_pm (pr_world pr))) (\<lambda>(_, pm). Inr (pr\<lparr>pr_world := (pr_world pr)\<lparr>bk_pm := pm\<rparr>\<rparr>))
      | Cleanup_Connection \<Rightarrow> and_then (cleanup_connection a (pr_net pr)) (\<lambda>(_, n). Inr (pr\<lparr>pr_net := n\<rparr>))
      | Cleanup_Worker \<Rightarrow> and_then (cleanup_worker a (pr_net pr)) (\<lambda>(_, n). Inr (pr\<lparr>pr_net := n\<rparr>)))"

definition interrupt :: "process \<Rightarrow> process res" where
  "interrupt pr = and_then (int_handle call_cleanup (nt_signals (pr_net pr)) pr) (\<lambda>(sg, pr).
     Inr (pr\<lparr>pr_net := (pr_net pr)\<lparr>nt_signals := sg\<rparr>\<rparr>))"

lemma init_connection_listening:
  assumes "init_connection os True host port n = (sd, n')" and "0 \<le> sd" and "sg_inv (nt_signals n)"
  shows "sg_inv (nt_signals n') \<and> registered (nt_signals n') = (Cleanup_Connection, Int_Var (nt_vars n)) # registered (nt_signals n) \<and>
    nt_stack n' (nt_vars n) = None \<and> nt_threads n' = nt_threads n \<and> nt_conns n' = nt_conns n \<and> nt_next n' = nt_next n"
  using assms set_signal_handler_ok [OF assms(3), of Cleanup_Connection "Int_Var (nt_vars n)"]
  by (auto simp: init_connection_def Let_def split: if_splits)

lemma stomp_conn_start_registered:
  assumes "stomp_conn_start malloc_ok True c n = Inr (h, n')" and "sg_inv (nt_signals n)"
  shows "sg_inv (nt_signals n') \<and> registered (nt_signals n') = (Cleanup_Worker, Pointer_Var) # registered (nt_signals n)"
  using assms set_signal_handler_ok [OF assms(2), of Cleanup_Worker Pointer_Var]
  by (auto simp: stomp_conn_start_def Let_def split: option.splits if_splits prod.splits)

text \<open>What \<^verbatim>\<open>accept_loop\<close> makes of its results.\<close>

definition served_conns :: "conn_handler \<Rightarrow> accepted list \<Rightarrow> conninfo list" where
  "served_conns handler as = map (\<lambda>a. \<lparr>cn_sock = acc_sd a, cn_protocol_data = None, cn_handler = Some handler\<rparr>)
     (filter (\<lambda>a. acc_sd a \<ge> 0 \<and> acc_malloc a \<and> \<not> acc_create_fails a) as)"

lemma accept_loop_serves:
  assumes "\<forall>c. nt_conns n c \<noteq> None \<longrightarrow> c < nt_next n"
  shows "\<exists>cs. nt_threads (accept_loop handler as n) = nt_threads n @ cs \<and> distinct cs \<and> (\<forall>c\<in>set cs. nt_next n \<le> c) \<and>
    map (nt_conns (accept_loop handler as n)) cs = map Some (served_conns handler as) \<and>
    (\<forall>c < nt_next n. nt_conns (accept_loop handler as n) c = nt_conns n c)"
  using assms
proof (induction as arbitrary: n)
  case Nil
  then show ?case by (simp add: served_conns_def)
next
  case (Cons a as)
  obtain sd m cf where a: "a = Accepted sd m cf" by (cases a)
  show ?case
  proof (cases "sd < 0 \<or> \<not> m")
    case True
    then have "accept_loop handler (a # as) n = accept_loop handler as n"
      "served_conns handler (a # as) = served_conns handler as"
      by (auto simp: a alloc_conninfo_def served_conns_def)
    then show ?thesis using Cons.IH [OF Cons.prems] by simp
  next
    case False
    let ?ci = "\<lparr>cn_sock = sd, cn_protocol_data = None, cn_handler = Some handler\<rparr>"
    define n1 where "n1 = n\<lparr>nt_conns := (nt_conns n)(nt_next n \<mapsto> ?ci), nt_next := nt_next n + 1,
      nt_threads := nt_threads n @ (if cf then [] else [nt_next n])\<rparr>"
    have step: "accept_loop handler (a # as) n = accept_loop handler as n1"
      using False by (cases n) (simp add: a alloc_conninfo_def n1_def)
    have new: "served_conns handler (a # as) = (if cf then [] else [?ci]) @ served_conns handler as"
      using False by (simp add: a served_conns_def)
    have "\<forall>c. nt_conns n1 c \<noteq> None \<longrightarrow> c < nt_next n1" using Cons.prems by (auto simp: n1_def less_Suc_eq)
    from Cons.IH [OF this] obtain cs where cs: "nt_threads (accept_loop handler as n1) = nt_threads n1 @ cs" "distinct cs"
      "\<forall>c\<in>set cs. nt_next n1 \<le> c" "map (nt_conns (accept_loop handler as n1)) cs = map Some (served_conns handler as)"
      "\<forall>c < nt_next n1. nt_conns (accept_loop handler as n1) c = nt_conns n1 c" by blast
    have "nt_conns (accept_loop handler as n1) (nt_next n) = Some ?ci" using cs(5) by (simp add: n1_def)
    with cs show ?thesis
      by (intro exI [of _ "(if cf then [] else [nt_next n]) @ cs"]) (auto simp: step new n1_def)
  qed
qed

section \<open>Properties\<close>

text \<open>
  C38. Which connections are served. Once the worker listens, it makes exactly one thread for every
  accepted connection whose bookkeeping can be allocated and whose thread can be created, in
  the order of the accepts, each with its own socket and the handler of the port; failures
  of \<^verbatim>\<open>accept\<close>, \<^verbatim>\<open>malloc\<close> or \<^verbatim>\<open>pthread_create\<close> in between do not stop it.
\<close>

theorem accepted_connections_served:
  assumes "init_connection os True host port n = (sd, n1)" and "0 \<le> sd" and "sg_inv (nt_signals n)"
    and "\<forall>c. nt_conns n c \<noteq> None \<longrightarrow> c < nt_next n"
  shows "\<exists>n2 cs. do_connection_worker os True host port handler as n = (False, n2) \<and>
    nt_threads n2 = nt_threads n @ cs \<and> distinct cs \<and> map (nt_conns n2) cs = map Some (served_conns handler as) \<and>
    (\<forall>c < nt_next n. nt_conns n2 c = nt_conns n c)"
proof -
  have n1: "nt_threads n1 = nt_threads n" "nt_conns n1 = nt_conns n" "nt_next n1 = nt_next n"
    using init_connection_listening [OF assms(1-3)] by simp_all
  then have "\<forall>c. nt_conns n1 c \<noteq> None \<longrightarrow> c < nt_next n1" using assms(4) by simp
  from accept_loop_serves [OF this, of handler as] n1 show ?thesis
    using assms(1,2) by (auto simp: do_connection_worker_def)
qed

text \<open>A network that can be listened on, and an empty process.\<close>

definition netos0 :: netos where
  "netos0 = \<lparr>no_socket = 3, no_inet_addr = (\<lambda>_. 0x7F000001), no_bind = (\<lambda>_ _ _. 0), no_listen = (\<lambda>_ _. 0)\<rparr>"

definition net0 :: net where
  "net0 = \<lparr>nt_conns = (\<lambda>_. None), nt_next = 1, nt_protocol = (\<lambda>_. False), nt_closed = [], nt_threads = [],
     nt_stack = (\<lambda>_. None), nt_vars = 0, nt_signals = no_signals\<rparr>"

lemma listening0: "\<exists>n'. init_connection netos0 True None 61613 net0 = (3, n')"
  by (simp add: init_connection_def netos0_def Let_def)

theorem accepted_connections_served_witness:
  "\<exists>n2 c1 c2. do_connection_worker netos0 True None 61613 Stomp_Conn_Worker
      [Accepted 4 True False, Accepted (-1) True False, Accepted 5 True True, Accepted 6 True False] net0 = (False, n2) \<and>
    nt_threads n2 = [c1, c2] \<and> map (nt_conns n2) [c1, c2] =
      [Some \<lparr>cn_sock = 4, cn_protocol_data = None, cn_handler = Some Stomp_Conn_Worker\<rparr>,
       Some \<lparr>cn_sock = 6, cn_protocol_data = None, cn_handler = Some Stomp_Conn_Worker\<rparr>]"
proof -
  obtain n' where n': "init_connection netos0 True None 61613 net0 = (3, n')" using listening0 by blast
  let ?as = "[Accepted 4 True False, Accepted (-1) True False, Accepted 5 True True, Accepted 6 True False]"
  have "sg_inv (nt_signals net0)" by (simp add: net0_def sg_inv_none)
  from accepted_connections_served [OF n' _ this, of Stomp_Conn_Worker ?as] obtain n2 cs where
    "do_connection_worker netos0 True None 61613 Stomp_Conn_Worker ?as net0 = (False, n2)" "nt_threads n2 = cs"
    "map (nt_conns n2) cs = map Some (served_conns Stomp_Conn_Worker ?as)" by (auto simp: net0_def)
  then show ?thesis
    by (auto simp: served_conns_def map_eq_Cons_conv)
qed

text \<open>
  C39. An interrupt does not clean up a serving program. After a connection worker has started to
  listen, or while a client is connected, the cleanup function registered last gets the address of a
  variable that is gone, or takes a pointer variable for a connection: the interrupt ends in
  undefined behaviour before any function registered earlier, such as the one that frees the
  queues, is called.
\<close>

theorem interrupt_faults_when_serving:
  assumes "sg_inv (nt_signals n)"
  shows "(\<forall>host port sd n'. init_connection os True host port n = (sd, n') \<and> 0 \<le> sd \<longrightarrow>
      interrupt \<lparr>pr_net = n', pr_world = w\<rparr> = Inl Use_After_Free) \<and>
    (\<forall>malloc_ok c h n'. stomp_conn_start malloc_ok True c n = Inr (h, n') \<longrightarrow>
      interrupt \<lparr>pr_net = n', pr_world = w\<rparr> = Inl Buffer_Overflow)"
proof (intro conjI allI impI)
  fix host port sd n'
  assume "init_connection os True host port n = (sd, n') \<and> 0 \<le> sd"
  with init_connection_listening [of os host port n sd n'] assms
  have r: "sg_inv (nt_signals n')" "registered (nt_signals n') = (Cleanup_Connection, Int_Var (nt_vars n)) # registered (nt_signals n)"
    "nt_stack n' (nt_vars n) = None" by blast+
  then show "interrupt \<lparr>pr_net = n', pr_world = w\<rparr> = Inl Use_After_Free"
    by (simp add: interrupt_def int_handle_ok call_cleanup_def cleanup_connection_def)
next
  fix malloc_ok c h n'
  assume "stomp_conn_start malloc_ok True c n = Inr (h, n')"
  from stomp_conn_start_registered [OF this assms]
  show "interrupt \<lparr>pr_net = n', pr_world = w\<rparr> = Inl Buffer_Overflow"
    by (simp add: interrupt_def int_handle_ok call_cleanup_def cleanup_worker_def)
qed

theorem interrupt_faults_when_serving_witness:
  "\<exists>n'. init_connection netos0 True None 61613 net0 = (3, n') \<and>
     interrupt \<lparr>pr_net = n', pr_world = world0 []\<rparr> = Inl Use_After_Free"
proof -
  obtain n' where n': "init_connection netos0 True None 61613 net0 = (3, n')" using listening0 by blast
  have "sg_inv (nt_signals net0)" by (simp add: net0_def sg_inv_none)
  from interrupt_faults_when_serving [OF this, of netos0 "world0 []"] n' show ?thesis by fastforce
qed

end
