(* ===== verification/Control.thy ===== *)
theory Control
  imports Stomp
begin

text \<open>
  The control port (\<^verbatim>\<open>lib/newtctl.c\<close>, \<^verbatim>\<open>lib/newtctl_commands.c\<close>): requests are MessagePack arrays of a
  command, a status and a text, each answered by the same array with the status filled in.
  The MessagePack library is the parameter \<open>mp\<close>: what it decodes (\<open>None\<close> when \<^verbatim>\<open>msgpack_unpack\<close>
  fails and leaves the object unwritten), how an object looks when its union is read as an
  array, as an integer and as raw bytes, and what it encodes. Reading a union as something it
  does not hold may be a fault; nothing is assumed about it.
\<close>

section \<open>Definitions\<close>

definition DATALEN :: nat where "DATALEN = 4096"
definition NEWTCTL_MEMBERS :: nat where "NEWTCTL_MEMBERS = 3"
definition NEWTCTL_LIST_QUEUES :: int where "NEWTCTL_LIST_QUEUES = 1"

record newtctl_t =
  ct_command :: int
  ct_status :: int
  ct_context :: "byte list"

record 'o msgpack =
  mp_unpack :: "byte list \<Rightarrow> 'o option"
  mp_array :: "'o \<Rightarrow> 'o list option res"
  mp_i64 :: "'o \<Rightarrow> 64 word"
  mp_raw :: "'o \<Rightarrow> byte list res"
  mp_pack :: "int \<Rightarrow> int \<Rightarrow> byte list \<Rightarrow> byte list"

text \<open>The return codes as the integers that are sent: \<^verbatim>\<open>RET_SUCCESS\<close> is 1, \<^verbatim>\<open>RET_ERROR\<close> is 0.\<close>

definition ret_code :: "ret \<Rightarrow> int" where
  "ret_code r = (case r of RET_SUCCESS \<Rightarrow> 1 | RET_ERROR \<Rightarrow> 0)"

definition newtctl_list_queues :: "newtctl_t \<Rightarrow> ret" where
  "newtctl_list_queues c = RET_SUCCESS"

definition ctl_handlers :: "(int \<times> (newtctl_t \<Rightarrow> ret)) list" where
  "ctl_handlers = [(NEWTCTL_LIST_QUEUES, newtctl_list_queues)]"

definition pack :: "'o msgpack \<Rightarrow> bool \<Rightarrow> newtctl_t \<Rightarrow> byte list option" where
  "pack mp malloc_ok data =
     (let sbuf = mp_pack mp (ct_command data) (ct_status data) (ct_context data) in
      if malloc_ok then Some sbuf else None)"

definition UNPACK_INT :: "'o msgpack \<Rightarrow> 'o \<Rightarrow> int" where
  "UNPACK_INT mp obj = sint (ucast (mp_i64 mp obj) :: 32 word)"

definition UNPACK_STR :: "'o msgpack \<Rightarrow> 'o \<Rightarrow> byte list \<Rightarrow> byte list res" where
  "UNPACK_STR mp obj dst = and_then (mp_raw mp obj) (\<lambda>raw.
     if length raw > length dst then Inl Buffer_Overflow else Inr (memcpy dst raw (length raw)))"

text \<open>
  \<open>stack\<close> is what the uninitialised variable \<^verbatim>\<open>root\<close> holds: the result of \<^verbatim>\<open>msgpack_unpack\<close> is not
  tested, and when it fails this object is examined. The text is taken from the second object
  of the array, the one with the status.
\<close>

definition unpack :: "'o msgpack \<Rightarrow> 'o \<Rightarrow> byte list \<Rightarrow> newtctl_t \<Rightarrow> (ret \<times> newtctl_t) res" where
  "unpack mp stack buf data =
     (let root = (case mp_unpack mp buf of None \<Rightarrow> stack | Some obj \<Rightarrow> obj) in
      and_then (mp_array mp root) (\<lambda>array.
      case array of
        None \<Rightarrow> Inr (RET_ERROR, data)
      | Some objs \<Rightarrow>
          if length objs = NEWTCTL_MEMBERS then
            (let data = data\<lparr>ct_command := UNPACK_INT mp (objs ! 0), ct_status := UNPACK_INT mp (objs ! 1)\<rparr> in
             and_then (UNPACK_STR mp (objs ! 1) (ct_context data)) (\<lambda>context.
             Inr (RET_SUCCESS, data\<lparr>ct_context := context\<rparr>)))
          else Inr (RET_ERROR, data)))"

text \<open>The first handler of the command, if there is one, sets the status.\<close>

fun ctl_dispatch :: "(int \<times> (newtctl_t \<Rightarrow> ret)) list \<Rightarrow> newtctl_t \<Rightarrow> newtctl_t" where
  "ctl_dispatch [] c = c"
| "ctl_dispatch ((command, handler) # hs) c =
     (if command > 0 then
        (if command = ct_command c then c\<lparr>ct_status := ret_code (handler c)\<rparr> else ctl_dispatch hs c)
      else c)"

text \<open>
  The loop over the results of \<^verbatim>\<open>recv\<close> (return value and bytes, and with each the content of the
  stack and whether the reply can be allocated); the buffer is cleared before each. The flag
  of the result says that the loop has ended.
\<close>

fun ctl_loop :: "os \<Rightarrow> 'o msgpack \<Rightarrow> int \<Rightarrow> (int \<times> byte list \<times> 'o \<times> bool) list \<Rightarrow> newtctl_t \<Rightarrow> sends \<Rightarrow> (bool \<times> sends) res" where
  "ctl_loop os mp sock [] c out = Inr (False, out)"
| "ctl_loop os mp sock ((len, bytes, stack, malloc_ok) # rs) c out =
     (if len \<le> 0 then Inr (True, out)
      else and_then (unpack mp stack (take (nat len) bytes) c) (\<lambda>(ret, c).
        if ret = RET_ERROR then ctl_loop os mp sock rs c out
        else let c = ctl_dispatch ctl_handlers c in
          case pack mp malloc_ok c of
            None \<Rightarrow> ctl_loop os mp sock rs c out
          | Some d \<Rightarrow> ctl_loop os mp sock rs c (put_msg os sock d (length d) out)))"

definition newtctl_worker :: "os \<Rightarrow> 'o msgpack \<Rightarrow> bool \<Rightarrow> bool \<Rightarrow> newtctl_t \<Rightarrow> int \<Rightarrow> (int \<times> byte list \<times> 'o \<times> bool) list \<Rightarrow> sends
    \<Rightarrow> (bool \<times> sends) res" where
  "newtctl_worker os mp cobj_ok buf_ok junk sock recvs out =
     (if buf_ok \<and> cobj_ok then ctl_loop os mp sock recvs junk out else Inr (True, out))"

section \<open>Properties\<close>

text \<open>A library that decodes the same, except that the third object of an array is another one.\<close>

definition other_text :: "('o \<Rightarrow> 'o) \<Rightarrow> 'o msgpack \<Rightarrow> 'o msgpack" where
  "other_text t mp = mp\<lparr>mp_array := (\<lambda>obj. and_then (mp_array mp obj) (\<lambda>array.
     Inr (map_option (\<lambda>objs. objs[2 := t obj]) array)))\<rparr>"

lemma unpack_other_text: "unpack (other_text t mp) stack buf c = unpack mp stack buf c"
proof -
  define root where "root = (case mp_unpack mp buf of None \<Rightarrow> stack | Some obj \<Rightarrow> obj)"
  show ?thesis
  proof (cases "mp_array mp root")
    case (Inr array)
    then show ?thesis
      by (cases array) (simp_all add: unpack_def other_text_def root_def [symmetric] UNPACK_INT_def UNPACK_STR_def)
  qed (simp add: unpack_def other_text_def root_def [symmetric])
qed

lemma ctl_loop_other_text: "ctl_loop os (other_text t mp) sock rs c out = ctl_loop os mp sock rs c out"
proof (induction rs arbitrary: c out)
  case (Cons r rs)
  have "pack (other_text t mp) ok c = pack mp ok c" for ok c by (simp add: pack_def other_text_def)
  then show ?case
    using Cons.IH by (cases r) (simp add: unpack_other_text Let_def cong: option.case_cong if_cong)
qed simp

text \<open>
  C40. The text of a control request is ignored. A request is an array of a command, a status and
  a text, but the worker takes the text from the second object: on any sequence of received
  bytes, and whatever the library makes of them, replacing the third object of every request by
  any other one changes neither the replies nor how the run ends, faults included. Nothing
  is assumed about the library.
\<close>

theorem control_text_ignored:
  "newtctl_worker os (mp\<lparr>mp_array := (\<lambda>obj. and_then (mp_array mp obj) (\<lambda>array.
       Inr (map_option (\<lambda>objs. objs[2 := t obj]) array)))\<rparr>) cobj_ok buf_ok junk sock recvs out =
   newtctl_worker os mp cobj_ok buf_ok junk sock recvs out"
  using ctl_loop_other_text [of os t mp] by (simp add: newtctl_worker_def other_text_def)

text \<open>
  What is sent for a request that decodes to an array of three objects, when the second can be
  read as at most 4096 raw bytes: the command again, the status 1 for \<^verbatim>\<open>NEWTCTL_LIST_QUEUES\<close> and the
  request's status otherwise, and the buffer with these bytes written over its beginning.
\<close>

theorem control_request_answered:
  assumes "mp_unpack mp bytes = Some obj" and "mp_array mp obj = Inr (Some [a, b, t])" and "mp_raw mp b = Inr raw"
    and "length raw \<le> DATALEN" and "length (ct_context c) = DATALEN" and "0 < len" and "nat len = length bytes"
  defines "ctx \<equiv> memcpy (ct_context c) raw (length raw)"
  shows "\<exists>c'. ctl_loop os mp sock ((len, bytes, stack, True) # rs) c out =
      ctl_loop os mp sock rs c' (out @ [(sock, mp_pack mp (UNPACK_INT mp a)
        (if UNPACK_INT mp a = NEWTCTL_LIST_QUEUES then 1 else UNPACK_INT mp b) ctx)]) \<and>
    ct_context c' = ctx \<and> length (ct_context c') = DATALEN"
proof -
  define c1 where "c1 = c\<lparr>ct_command := UNPACK_INT mp a, ct_status := UNPACK_INT mp b, ct_context := ctx\<rparr>"
  define c2 where "c2 = c1\<lparr>ct_status := (if UNPACK_INT mp a = NEWTCTL_LIST_QUEUES then 1 else UNPACK_INT mp b)\<rparr>"
  have "unpack mp stack bytes c = Inr (RET_SUCCESS, c1)"
    using assms(1-5) by (simp add: unpack_def UNPACK_STR_def NEWTCTL_MEMBERS_def c1_def ctx_def eval_nat_numeral)
  moreover have "ctl_dispatch ctl_handlers c1 = c2"
    by (auto simp: ctl_handlers_def c1_def c2_def NEWTCTL_LIST_QUEUES_def newtctl_list_queues_def ret_code_def)
  moreover have "length ctx = DATALEN" using assms(4,5) by (simp add: ctx_def length_memcpy)
  moreover have "ct_command c2 = UNPACK_INT mp a" "ct_context c2 = ctx"
    "ct_status c2 = (if UNPACK_INT mp a = NEWTCTL_LIST_QUEUES then 1 else UNPACK_INT mp b)"
    by (simp_all add: c2_def c1_def)
  ultimately show ?thesis
    using assms(6,7) by (intro exI [of _ c2]) (simp add: pack_def Let_def send_msg_def)
qed

end
