(* ===== verification/Startup.thy ===== *)
theory Startup
  imports Network Control
begin

text \<open>
  The program around the workers: the logger (\<^verbatim>\<open>lib/logger.c\<close>), the configuration
  (\<^verbatim>\<open>lib/config.c\<close>), the command line (\<^verbatim>\<open>lib/optparse.c\<close>), start-up (\<^verbatim>\<open>lib/daemon.c\<close>) and the main
  function (\<^verbatim>\<open>newtd.c\<close>). The libraries libconfuse and argp are parameters: what \<^verbatim>\<open>cfg_parse\<close>
  returns and stores, and the options that argp finds on the command line.
\<close>

section \<open>Logger\<close>

definition LOG_DEBUG :: int where "LOG_DEBUG = 1"
definition LOG_INFO :: int where "LOG_INFO = 2"
definition LOG_WARN :: int where "LOG_WARN = 3"
definition LOG_ERROR :: int where "LOG_ERROR = 4"
definition DEFAULT_LOG_LEVEL :: int where "DEFAULT_LOG_LEVEL = LOG_INFO"

lemmas log_levels = LOG_DEBUG_def LOG_INFO_def LOG_WARN_def LOG_ERROR_def

definition strcmp0 :: "byte list \<Rightarrow> byte list \<Rightarrow> bool" where
  "strcmp0 a b \<longleftrightarrow> cstr a = cstr b"

definition show_loglevel :: "int \<Rightarrow> byte list" where
  "show_loglevel level =
     (if level = LOG_DEBUG then ''[DEBUG] '' else if level = LOG_INFO then ''[ INFO] ''
      else if level = LOG_WARN then ''[ WARN] '' else if level = LOG_ERROR then ''[ERROR] '' else [])"

text \<open>\<^verbatim>\<open>set_logger\<close>: the result and the new \<^verbatim>\<open>curr_level\<close>.\<close>

definition set_logger :: "byte list option \<Rightarrow> int \<Rightarrow> ret \<times> int" where
  "set_logger level curr_level =
     (case level of None \<Rightarrow> (RET_ERROR, curr_level)
      | Some l \<Rightarrow>
          if strcmp0 l ''DEBUG'' then (RET_SUCCESS, LOG_DEBUG)
          else if strcmp0 l ''INFO'' then (RET_SUCCESS, LOG_INFO)
          else if strcmp0 l ''WARN'' then (RET_SUCCESS, LOG_WARN)
          else if strcmp0 l ''ERROR'' then (RET_SUCCESS, LOG_ERROR)
          else (RET_ERROR, curr_level))"

text \<open>What is printed; \<open>time\<close> is the formatted time and \<open>msg\<close> the formatted message.\<close>

definition do_logger :: "byte list \<Rightarrow> int \<Rightarrow> byte list \<Rightarrow> int \<Rightarrow> byte list" where
  "do_logger time level msg curr_level =
     (if level \<ge> curr_level then show_loglevel level @ time @ '' > '' @ msg @ [NL] else [])"

definition log_debug :: "byte list \<Rightarrow> byte list \<Rightarrow> int \<Rightarrow> byte list" where "log_debug time msg = do_logger time LOG_DEBUG msg"
definition log_info :: "byte list \<Rightarrow> byte list \<Rightarrow> int \<Rightarrow> byte list" where "log_info time msg = do_logger time LOG_INFO msg"
definition log_warn :: "byte list \<Rightarrow> byte list \<Rightarrow> int \<Rightarrow> byte list" where "log_warn time msg = do_logger time LOG_WARN msg"
definition log_err :: "byte list \<Rightarrow> byte list \<Rightarrow> int \<Rightarrow> byte list" where "log_err time msg = do_logger time LOG_ERROR msg"

section \<open>Configuration and command line\<close>

record newt_config =
  nc_server :: "byte list option"
  nc_port :: int
  nc_ctrl_port :: int
  nc_logfile :: "byte list option"
  nc_debug :: bool
  nc_loglevel :: "byte list option"
  nc_datadir :: "byte list option"

datatype cfg_value = Cfg_Str "byte list option" | Cfg_Int int | Cfg_Bool bool

definition config_opts :: "(byte list \<times> cfg_value) list" where
  "config_opts =
     [(''server'', Cfg_Str (Some ''localhost'')), (''port'', Cfg_Int 61613), (''ctrl_port'', Cfg_Int 61614),
      (''loglevel'', Cfg_Str None), (''logfile'', Cfg_Str (Some ''/tmp/newtd.log'')), (''debug'', Cfg_Bool False),
      (''datadir'', Cfg_Str (Some ''/tmp/newtmq''))]"

text \<open>
  The results of \<^verbatim>\<open>cfg_parse\<close>, and the library: from the table of options with their defaults and
  the path to the result and the values of the options.
\<close>

datatype cfg_result = CFG_SUCCESS | CFG_FILE_ERROR | CFG_PARSE_ERROR

type_synonym cfg_lib = "(byte list \<times> cfg_value) list \<Rightarrow> byte list \<Rightarrow> cfg_result \<times> (byte list \<Rightarrow> cfg_value option)"

definition cfg_getstr :: "(byte list \<Rightarrow> cfg_value option) \<Rightarrow> byte list \<Rightarrow> byte list option" where
  "cfg_getstr cfg name = (case cfg name of Some (Cfg_Str s) \<Rightarrow> s | _ \<Rightarrow> None)"

definition cfg_getint :: "(byte list \<Rightarrow> cfg_value option) \<Rightarrow> byte list \<Rightarrow> int" where
  "cfg_getint cfg name = (case cfg name of Some (Cfg_Int i) \<Rightarrow> i | _ \<Rightarrow> 0)"

definition cfg_getbool :: "(byte list \<Rightarrow> cfg_value option) \<Rightarrow> byte list \<Rightarrow> bool" where
  "cfg_getbool cfg name = (case cfg name of Some (Cfg_Bool b) \<Rightarrow> b | _ \<Rightarrow> False)"

definition load_config :: "cfg_lib \<Rightarrow> byte list \<Rightarrow> newt_config option \<Rightarrow> ret \<times> newt_config option" where
  "load_config lib confpath config =
     (case config of None \<Rightarrow> (RET_ERROR, None)
      | Some c \<Rightarrow>
          (case lib config_opts confpath of (ret, cfg) \<Rightarrow>
             if ret = CFG_PARSE_ERROR then (RET_ERROR, Some c)
             else (RET_SUCCESS, Some \<lparr>nc_server = cfg_getstr cfg ''server'', nc_port = cfg_getint cfg ''port'',
                     nc_ctrl_port = cfg_getint cfg ''ctrl_port'', nc_logfile = cfg_getstr cfg ''logfile'',
                     nc_debug = cfg_getbool cfg ''debug'', nc_loglevel = cfg_getstr cfg ''loglevel'',
                     nc_datadir = cfg_getstr cfg ''datadir''\<rparr>)))"

text \<open>\<^verbatim>\<open>_parse_opt\<close> for one option, and \<^verbatim>\<open>parse_opt\<close> over the options argp finds.\<close>

record cmd_args =
  ca_config_path :: "byte list option"

definition parse_opt_key :: "byte \<Rightarrow> byte list option \<Rightarrow> cmd_args \<Rightarrow> cmd_args" where
  "parse_opt_key key arg args = (if key = CHR ''c'' then args\<lparr>ca_config_path := arg\<rparr> else args)"

definition parse_opt :: "(byte \<times> byte list option) list \<Rightarrow> cmd_args \<Rightarrow> cmd_args" where
  "parse_opt opts args = fold (\<lambda>(key, arg). parse_opt_key key arg) opts args"

section \<open>The daemon\<close>

datatype worker_name = CONNECTION_WORKER | CTRL_CONNECTION_WORKER | STOMP_MANAGEMENT_WORKER | PERSISTENT_WORKER

text \<open>
  What start-up finds: the entries of the data directory, which files open, the uninitialised
  read buffer and the memory behind it, and whether the registrations of cleanup functions
  find memory.
\<close>

record start_env =
  se_os :: os
  se_open :: "path \<Rightarrow> bool"
  se_entries :: "byte list list"
  se_buf :: "byte list"
  se_stack :: "byte list"
  se_sig :: bool

definition register_cleanup :: "bool \<Rightarrow> sig_func \<Rightarrow> process \<Rightarrow> process" where
  "register_cleanup ok f pr =
     pr\<lparr>pr_net := (pr_net pr)\<lparr>nt_signals := snd (set_signal_handler ok f Null_Arg (nt_signals (pr_net pr)))\<rparr>\<rparr>"

definition upd_world :: "(world \<Rightarrow> world) \<Rightarrow> process \<Rightarrow> process" where
  "upd_world f pr = pr\<lparr>pr_world := f (pr_world pr)\<rparr>"

text \<open>
  \<^verbatim>\<open>daemon_initialize\<close>: the results of \<^verbatim>\<open>stomp_init\<close>, \<^verbatim>\<open>transaction_init\<close> and
  \<^verbatim>\<open>initialize_sending_worker\<close> are always \<^verbatim>\<open>RET_SUCCESS\<close>, and the one of \<^verbatim>\<open>unpersist\<close> is ignored.
\<close>

definition daemon_initialize :: "start_env \<Rightarrow> newt_config \<Rightarrow> process \<Rightarrow> (ret \<times> process) res option" where
  "daemon_initialize se config pr =
     (let pr = upd_world (\<lambda>w. w\<lparr>bk_stomp := snd (stomp_init (bk_stomp w))\<rparr>) pr;
          pr = register_cleanup (se_sig se) Cleanup pr;
          pr = upd_world (\<lambda>w. w\<lparr>w_tm := snd (transaction_init (w_tm w))\<rparr>) pr;
          pr = upd_world (\<lambda>w. w\<lparr>bk_wm := snd (initialize_sending_worker (bk_wm w))\<rparr>) pr;
          (ret, pm) = initialize_persistent_worker (nc_datadir config) (bk_pm (pr_world pr));
          pr = upd_world (\<lambda>w. w\<lparr>bk_pm := pm\<rparr>) pr in
      if ret = RET_ERROR then Some (Inr (RET_ERROR, pr))
      else let pr = register_cleanup (se_sig se) Cleanup_Persistent_Worker pr; w = pr_world pr in
        map_option (\<lambda>r. and_then r (\<lambda>(_, u).
          Inr (RET_SUCCESS, upd_world (\<lambda>w. w\<lparr>bk_pm := us_pm u, bk_stomp := us_stomp u, bk_box := us_box u\<rparr>) pr)))
        (unpersist (se_os se) (se_open se) (se_buf se) (se_stack se) (se_entries se)
          \<lparr>us_pm = bk_pm w, us_stomp = bk_stomp w, us_box = bk_box w, us_static = parse_static0\<rparr>))"

text \<open>\<^verbatim>\<open>daemon_start\<close> until its first \<^verbatim>\<open>pthread_join\<close>: the log level and the threads created.\<close>

definition daemon_start :: "newt_config \<Rightarrow> int \<Rightarrow> int \<times> worker_name list" where
  "daemon_start config curr_level =
     (let curr_level = (case nc_loglevel config of None \<Rightarrow> curr_level | Some l \<Rightarrow> snd (set_logger (Some l) curr_level))
      in (curr_level, [CONNECTION_WORKER, CTRL_CONNECTION_WORKER, STOMP_MANAGEMENT_WORKER, PERSISTENT_WORKER]))"

definition connection_worker :: "netos \<Rightarrow> bool \<Rightarrow> newt_config \<Rightarrow> accepted list \<Rightarrow> net \<Rightarrow> bool \<times> net" where
  "connection_worker os malloc_ok conf as n =
     do_connection_worker os malloc_ok (nc_server conf) (nc_port conf) Stomp_Conn_Worker as n"

definition ctrl_connection_worker :: "netos \<Rightarrow> bool \<Rightarrow> newt_config \<Rightarrow> accepted list \<Rightarrow> net \<Rightarrow> bool \<times> net" where
  "ctrl_connection_worker os malloc_ok conf as n =
     do_connection_worker os malloc_ok (nc_server conf) (nc_ctrl_port conf) Newtctl_Worker as n"

text \<open>
  \<^verbatim>\<open>main\<close>: it exits, hangs or faults while starting, or runs with the threads of \<^verbatim>\<open>daemon_start\<close>.
  \<open>junk\<close> is the content of the uninitialised variables \<^verbatim>\<open>args\<close> and \<^verbatim>\<open>config\<close>.
\<close>

datatype main_result =
    Main_Exit nat
  | Main_Hangs
  | Main_Fault fault
  | Main_Running newt_config int "worker_name list" process

definition main :: "start_env \<Rightarrow> cfg_lib \<Rightarrow> (byte \<times> byte list option) list \<Rightarrow> cmd_args \<Rightarrow> newt_config \<Rightarrow> process \<Rightarrow> main_result" where
  "main se lib opts args junk pr =
     (case ca_config_path (parse_opt opts args) of
        None \<Rightarrow> Main_Exit 1
      | Some path \<Rightarrow>
          (case load_config lib path (Some junk) of
             (RET_SUCCESS, Some config) \<Rightarrow>
               (case daemon_initialize se config pr of
                  None \<Rightarrow> Main_Hangs
                | Some (Inl e) \<Rightarrow> Main_Fault e
                | Some (Inr (RET_ERROR, _)) \<Rightarrow> Main_Exit 1
                | Some (Inr (RET_SUCCESS, pr)) \<Rightarrow>
                    (case daemon_start config DEFAULT_LOG_LEVEL of (level, threads) \<Rightarrow> Main_Running config level threads pr))
           | _ \<Rightarrow> Main_Exit 1))"

section \<open>Lemmas\<close>

text \<open>
  A logger set to a level prints exactly the messages of that level and above; an unknown
  name leaves the level as it was.
\<close>

lemma logger_filters:
  assumes "set_logger (Some l) cur = (RET_SUCCESS, lev)"
  shows "cstr l \<in> {''DEBUG'', ''INFO'', ''WARN'', ''ERROR''}" "do_logger t n msg lev \<noteq> [] \<longleftrightarrow> n \<ge> lev"
  using assms by (auto simp: set_logger_def strcmp0_def do_logger_def split: if_splits)

lemma set_logger_unknown: "cstr l \<notin> {''DEBUG'', ''INFO'', ''WARN'', ''ERROR''} \<Longrightarrow> set_logger (Some l) cur = (RET_ERROR, cur)"
  by (simp add: set_logger_def strcmp0_def)

text \<open>A configuration file that cannot be opened counts as one without settings.\<close>

lemma load_config_missing_file:
  assumes "lib config_opts path = (CFG_FILE_ERROR, map_of config_opts)"
  shows "load_config lib path (Some c) = (RET_SUCCESS, Some \<lparr>nc_server = Some ''localhost'', nc_port = 61613, nc_ctrl_port = 61614,
    nc_logfile = Some ''/tmp/newtd.log'', nc_debug = False, nc_loglevel = None, nc_datadir = Some ''/tmp/newtmq''\<rparr>)"
  using assms by (simp add: load_config_def config_opts_def cfg_getstr_def cfg_getint_def cfg_getbool_def)

text \<open>Only the last \<^verbatim>\<open>-c\<close> counts, and without one the program depends on its uninitialised variable.\<close>

lemma parse_opt_path:
  "ca_config_path (parse_opt opts args) =
     (case filter (\<lambda>(k, _). k = CHR ''c'') (rev opts) of [] \<Rightarrow> ca_config_path args | (_, a) # _ \<Rightarrow> a)"
proof (induction opts rule: rev_induct)
  case (snoc x xs)
  then show ?case by (cases x) (auto simp: parse_opt_def parse_opt_key_def)
qed (simp add: parse_opt_def)

lemma main_without_path: "\<forall>(k, a)\<in>set opts. k \<noteq> CHR ''c'' \<Longrightarrow> ca_config_path args = None \<Longrightarrow> main se lib opts args junk pr = Main_Exit 1"
proof -
  assume "\<forall>(k, a)\<in>set opts. k \<noteq> CHR ''c''" and a: "ca_config_path args = None"
  then have "filter (\<lambda>(k, _). k = CHR ''c'') (rev opts) = []" by (auto simp: filter_empty_conv)
  with a show ?thesis by (simp add: main_def parse_opt_path)
qed

end
