(* ===== verification/Restart.thy ===== *)
theory Restart
  imports Startup
begin

text \<open>
  What a restart of the broker gives back: \<^verbatim>\<open>daemon_initialize\<close> of \<^verbatim>\<open>lib/daemon.c\<close> with \<^verbatim>\<open>unpersist\<close> of
  \<^verbatim>\<open>lib/persistent_worker.c\<close> over a data directory of saved queues.
\<close>

section \<open>Saved queues\<close>

text \<open>
  A directory entry \<open>name\<close> of \<open>dir\<close> that holds a queue: its data file is the wire form of the
  messages \<open>sent\<close>, which have been sent, followed by the messages \<open>ms\<close>, and its index
  file is the length of the first part.
\<close>

definition saved_queue :: "fs \<Rightarrow> path \<Rightarrow> byte list \<times> message list \<times> message list \<Rightarrow> bool" where
  "saved_queue fs dir = (\<lambda>(name, sent, ms).
     deref name \<noteq> CHR ''.'' \<and>
     (\<forall>m\<in>set ms. msg_ok m) \<and> length (concat (map encode ms)) \<le> BUFFER_LEN \<and>
     int (length (concat (map encode sent))) < 2 ^ 63 \<and>
     (let d = join_path dir name in
      length (join_path d FNAME_SENT_INDEX) < MAX_PATH_LENGTH \<and> fs_dirs fs d \<and> fs_files fs d = None \<and>
      \<not> fs_dirs fs (join_path d FNAME_DATA) \<and>
      fs_files fs (join_path d FNAME_DATA) = Some (concat (map encode (sent @ ms))) \<and>
      fs_files fs (join_path d FNAME_SENT_INDEX) = Some (encode_long (int (length (concat (map encode sent)))))))"

text \<open>The messages of a queue, through the pointers it holds.\<close>

definition queue_messages :: "stomp_state \<Rightarrow> ptr queuebox \<Rightarrow> 64 word \<Rightarrow> message option list" where
  "queue_messages st box h = map (\<lambda>p. map_option message_of (ss_frames st p)) (contents box h)"

definition pointers_fresh :: "stomp_state \<Rightarrow> ptr queuebox \<Rightarrow> bool" where
  "pointers_fresh st box \<longleftrightarrow> (\<forall>h. \<forall>p\<in>set (contents box h). p < ss_next st)"

text \<open>The step from \<open>u\<close> to \<open>u'\<close> adds the messages \<open>ms\<close> to the queue \<open>name\<close> and changes no other queue.\<close>

definition box_ok :: "unpersist_state \<Rightarrow> bool" where
  "box_ok u \<longleftrightarrow> qb_inv (us_box u) \<and> pointers_fresh (us_stomp u) (us_box u)"

definition restores :: "byte list \<Rightarrow> message list \<Rightarrow> unpersist_state \<Rightarrow> unpersist_state \<Rightarrow> bool" where
  "restores name ms u u' \<longleftrightarrow> box_ok u' \<and> us_static u' = us_static u \<and> ss_bucket (us_stomp u') = ss_bucket (us_stomp u) \<and>
     (\<forall>h. queue_messages (us_stomp u') (us_box u') h =
       queue_messages (us_stomp u) (us_box u) h @ (if h = get_hash name then map Some ms else []))"

lemma restore_frame_ok:
  assumes "box_ok u"
  shows "\<exists>u'. restore_frame name f u = Inr u' \<and> restores name [message_of f] u u' \<and> us_pm u' = us_pm u"
proof -
  let ?p = "ss_next (us_stomp u)" and ?h = "get_hash name"
  have inv: "qb_inv (us_box u)" "pointers_fresh (us_stomp u) (us_box u)" using assms by (simp_all add: box_ok_def)
  obtain b where b: "enqueue all_mallocs (Some ?p) name (us_box u) = Inr (RET_SUCCESS, b)" "qb_inv b"
    "contents b = (contents (us_box u))(?h := contents (us_box u) ?h @ [?p])"
    using enqueue_ok [OF inv(1)] by blast
  have "\<forall>h. \<forall>p\<in>set (contents (us_box u) h). p \<noteq> ?p" using inv(2) by (auto simp: pointers_fresh_def)
  then show ?thesis using b inv(2)
    by (auto simp: restore_frame_def Let_def put_frame_def queue_messages_def pointers_fresh_def restores_def box_ok_def less_Suc_eq)
qed

lemma restores_trans: "restores name ms1 u u1 \<Longrightarrow> restores name ms2 u1 u2 \<Longrightarrow> restores name (ms1 @ ms2) u u2"
  by (auto simp: restores_def)

lemma restore_frames:
  assumes "box_ok u"
  shows "\<exists>u'. each_res (restore_frame name) fl u = Inr u' \<and> restores name (map message_of fl) u u' \<and> us_pm u' = us_pm u"
  using assms
proof (induction fl arbitrary: u)
  case Nil
  then show ?case by (simp add: restores_def)
next
  case (Cons f fl)
  obtain u1 where u1: "restore_frame name f u = Inr u1" "restores name [message_of f] u u1" "us_pm u1 = us_pm u"
    using restore_frame_ok [OF Cons.prems] by blast
  have "box_ok u1" using u1(2) by (simp add: restores_def)
  from Cons.IH [OF this] obtain u2 where "each_res (restore_frame name) fl u1 = Inr u2"
    "restores name (map message_of fl) u1 u2" "us_pm u2 = us_pm u1" by blast
  with u1 restores_trans [OF u1(2)] show ?case by auto
qed

section \<open>One queue\<close>

text \<open>The manager while it reads the data directory: no dangling entry, and which queues it knows.\<close>

definition pm_ok :: "persistent_manager \<Rightarrow> bool" where
  "pm_ok pm \<longleftrightarrow> (\<forall>p\<in>set (pm_list pm). pm_heap pm p \<noteq> None \<and> p < pm_next pm)"

definition known :: "persistent_manager \<Rightarrow> 64 word option set" where
  "known pm = (\<lambda>p. map_option qi_qid (pm_heap pm p)) ` set (pm_list pm)"

lemma get_qinfo_unknown: "pm_ok pm \<Longrightarrow> Some i \<notin> known pm \<Longrightarrow> get_qinfo i pm = Inr None"
  by (auto simp: get_qinfo_def pm_ok_def known_def list_ex_iff find_last_None_iff image_iff)

lemma saved_paths:
  assumes q: "saved_queue fs dir (name, sent, ms)"
  shows "sprintf_path dir name = Inr (join_path dir name)"
    "sprintf_path (join_path dir name) FNAME_DATA = Inr (join_path (join_path dir name) FNAME_DATA)"
    "sprintf_path (join_path dir name) FNAME_SENT_INDEX = Inr (join_path (join_path dir name) FNAME_SENT_INDEX)"
    "unpersist_queue_info (join_path dir name) fs = Inr (int (length (concat (map encode sent))))"
    "\<not> fs_dirs fs (join_path (join_path dir name) FNAME_DATA)"
    "fs_files fs (join_path (join_path dir name) FNAME_DATA) = Some (concat (map encode sent) @ concat (map encode ms))"
proof -
  let ?d = "join_path dir name" and ?n = "int (length (concat (map encode sent)))"
  show paths: "sprintf_path dir name = Inr ?d" "sprintf_path ?d FNAME_DATA = Inr (join_path ?d FNAME_DATA)"
    "sprintf_path ?d FNAME_SENT_INDEX = Inr (join_path ?d FNAME_SENT_INDEX)"
    using q by (auto simp: saved_queue_def Let_def intro!: sprintf_path_ok)
      (auto simp: join_path_def [of ?d] FNAME_DATA_def FNAME_SENT_INDEX_def)
  show "unpersist_queue_info ?d fs = Inr ?n"
    using q decode_encode_long [of ?n "[]"] by (simp add: unpersist_queue_info_def paths saved_queue_def Let_def)
  show "\<not> fs_dirs fs (join_path ?d FNAME_DATA)"
    "fs_files fs (join_path ?d FNAME_DATA) = Some (concat (map encode sent) @ concat (map encode ms))"
    using q by (simp_all add: saved_queue_def Let_def)
qed

text \<open>Opening a saved queue writes its files with what they hold.\<close>

lemma create_saved:
  assumes q: "saved_queue (pm_fs pm) (pm_datadir pm) (name, sent, ms)" and pm: "pm_ok pm" "Some (get_hash name) \<notin> known pm"
    and op: "\<And>p. open_ok p"
  shows "\<exists>pm'. create_qinfo open_ok True name pm = Inr (pm_next pm, pm') \<and> pm_ok pm' \<and>
    known pm' = insert (Some (get_hash name)) (known pm) \<and> pm_datadir pm' = pm_datadir pm \<and> pm_status pm' = pm_status pm \<and> pm_fs pm' = pm_fs pm"
proof -
  let ?d = "join_path (pm_datadir pm) name" and ?n = "int (length (concat (map encode sent)))" and ?fs = "pm_fs pm"
  note paths = saved_paths(1-3) [OF q] and info = saved_paths(4) [OF q]
  have files: "fs_dirs ?fs ?d" "fs_files ?fs ?d = None" "fs_files ?fs (join_path ?d FNAME_DATA) = Some (concat (map encode (sent @ ms)))"
    "fs_files ?fs (join_path ?d FNAME_SENT_INDEX) = Some (encode_long ?n)"
    using q by (simp_all add: saved_queue_def Let_def)
  define qi where "qi = \<lparr>qi_qid = get_hash name, qi_dir = ?d, qi_unpersistent = [], qi_index_head = 8, qi_index_sent = ?n, qi_index_persistent = 8\<rparr>"
  have data: "set_file (join_path ?d FNAME_DATA) (content ?fs (join_path ?d FNAME_DATA)) ?fs = ?fs"
    using files(3) by (cases ?fs) (auto simp: set_file_def content_def fun_eq_iff)
  have len: "length (encode_long ?n) = 8" by (simp add: encode_long_def)
  have "persist_queue_info qi (set_file (join_path ?d FNAME_SENT_INDEX) [] ?fs) = ?fs"
    using files(4) by (cases ?fs) (auto simp: persist_queue_info_def qi_def Let_def set_file_def content_def fun_eq_iff)
  then have "alloc_qinfo open_ok True name pm = Inr (Some qi, pm)"
    using files(1,2,4) op info
    by (simp add: alloc_qinfo_def paths Let_def data len qi_def data_not_sent [symmetric])
  then have "create_qinfo open_ok True name pm = Inr (pm_next pm, pm\<lparr>pm_heap := (pm_heap pm)(pm_next pm \<mapsto> qi),
      pm_list := pm_list pm @ [pm_next pm], pm_next := pm_next pm + 1\<rparr>)"
    using get_qinfo_unknown [OF pm] by (simp add: create_qinfo_def)
  moreover have "(\<lambda>p. map_option qi_qid (((pm_heap pm)(pm_next pm \<mapsto> qi)) p)) ` set (pm_list pm) = known pm"
    unfolding known_def using pm(1) by (intro image_cong) (auto simp: pm_ok_def)
  ultimately show ?thesis using pm(1) by (auto simp: pm_ok_def known_def qi_def)
qed

lemma upd_qinfo_simps [simp]:
  "pm_list (upd_qinfo p f pm) = pm_list pm" "pm_next (upd_qinfo p f pm) = pm_next pm" "pm_fs (upd_qinfo p f pm) = pm_fs pm"
  "pm_datadir (upd_qinfo p f pm) = pm_datadir pm" "pm_status (upd_qinfo p f pm) = pm_status pm"
  "pm_heap (upd_qinfo p f pm) = (pm_heap pm)(p := map_option f (pm_heap pm p))"
  by (simp_all add: upd_qinfo_def)

lemma upd_qinfo_ok: "(\<And>q. qi_qid (f q) = qi_qid q) \<Longrightarrow> pm_ok (upd_qinfo p f pm) = pm_ok pm \<and> known (upd_qinfo p f pm) = known pm"
  by (auto simp: pm_ok_def known_def option.map_comp comp_def intro!: image_cong)

text \<open>The state between two entries, and what one saved queue does to it.\<close>

definition scan_ok :: "path \<Rightarrow> fs \<Rightarrow> unpersist_state \<Rightarrow> bool" where
  "scan_ok dir fs u \<longleftrightarrow> box_ok u \<and> us_static u = parse_static0 \<and> pm_ok (us_pm u) \<and> pm_datadir (us_pm u) = dir \<and> pm_fs (us_pm u) = fs"

lemma unpersist_entry_saved:
  assumes u: "scan_ok dir fs u" and q: "saved_queue fs dir (name, sent, ms)" and new: "Some (get_hash name) \<notin> known (us_pm u)"
    and op: "\<And>p. open_ok p"
  shows "\<exists>u'. unpersist_entry os open_ok buf stack name u = Some (Inr u') \<and> scan_ok dir fs u' \<and> restores name ms u u' \<and>
    known (us_pm u') = insert (Some (get_hash name)) (known (us_pm u))"
proof -
  let ?d = "join_path dir name" and ?n = "int (length (concat (map encode sent)))"
  have pm: "pm_ok (us_pm u)" "pm_datadir (us_pm u) = dir" "pm_fs (us_pm u) = fs" using u by (simp_all add: scan_ok_def)
  obtain pm1 where pm1: "create_qinfo open_ok True name (us_pm u) = Inr (pm_next (us_pm u), pm1)" "pm_ok pm1"
    "known pm1 = insert (Some (get_hash name)) (known (us_pm u))" "pm_datadir pm1 = dir" "pm_fs pm1 = fs"
    using create_saved [of "us_pm u" name sent ms open_ok] q pm new op by auto
  have paths: "sprintf_path dir name = Inr ?d" "sprintf_path ?d FNAME_DATA = Inr (join_path ?d FNAME_DATA)"
    and info: "unpersist_queue_info ?d fs = Inr ?n"
    and files: "\<not> fs_dirs fs (join_path ?d FNAME_DATA)" "fs_files fs (join_path ?d FNAME_DATA) = Some (concat (map encode sent) @ concat (map encode ms))"
    using saved_paths [OF q] by simp_all
  have ms: "\<forall>m\<in>set ms. msg_ok m" "length (concat (map encode ms)) \<le> BUFFER_LEN" and dot: "deref name \<noteq> CHR ''.''"
    using q by (simp_all add: saved_queue_def)
  obtain frs k where ctx: "unpersist_queue_context (os_rand os) (ss_rand (us_stomp u)) parse_static0 buf stack ?d fs =
      Some (Inr (RET_SUCCESS, frs, parse_static0, k))" "map message_of frs = ms"
    using unpersist_messages [OF ms info paths(2) files(2)] by blast
  define pm2 where "pm2 = upd_qinfo (pm_next (us_pm u)) (\<lambda>q. q\<lparr>qi_index_head := int (length (content fs (join_path ?d FNAME_DATA))),
      qi_index_persistent := int (length (content fs (join_path ?d FNAME_DATA)))\<rparr>)
      (upd_qinfo (pm_next (us_pm u)) (\<lambda>q. q\<lparr>qi_index_sent := ?n\<rparr>) pm1)"
  have pm2: "pm_ok pm2" "known pm2 = insert (Some (get_hash name)) (known (us_pm u))" "pm_datadir pm2 = dir" "pm_fs pm2 = fs"
    using pm1 by (simp_all add: pm2_def upd_qinfo_ok)
  define u1 where "u1 = u\<lparr>us_pm := pm2, us_static := parse_static0, us_stomp := (us_stomp u)\<lparr>ss_rand := k\<rparr>\<rparr>"
  have u1: "box_ok u1" "restores name [] u u1"
    using u by (simp_all add: u1_def scan_ok_def box_ok_def pointers_fresh_def restores_def queue_messages_def)
  have run: "unpersist_entry os open_ok buf stack name u = Some (each_res (restore_frame name) frs u1)"
    using u dot files(1) by (simp add: unpersist_entry_def pm pm1(1,5) paths info Let_def ctx(1) scan_ok_def u1_def pm2_def)
  obtain u2 where "each_res (restore_frame name) frs u1 = Inr u2" "restores name ms u1 u2" "us_pm u2 = us_pm u1"
    using restore_frames [OF u1(1), of name frs] ctx(2) by auto
  note u2 = this
  then have "restores name ms u u2" using restores_trans [OF u1(2), of ms u2] by simp
  moreover have "us_pm u1 = pm2" "us_static u = parse_static0" using u by (simp_all add: u1_def scan_ok_def)
  ultimately show ?thesis using run u2 pm2 by (intro exI [of _ u2]) (simp add: scan_ok_def restores_def)
qed

section \<open>The data directory\<close>

text \<open>What the saved queues hold for a hash.\<close>

definition saved_at :: "(byte list \<times> message list \<times> message list) list \<Rightarrow> 64 word \<Rightarrow> message list" where
  "saved_at es h = concat (map (\<lambda>(name, sent, ms). if get_hash name = h then ms else []) es)"

lemma saved_at_distinct:
  assumes "distinct (map (get_hash \<circ> fst) es)"
  shows "(name, sent, ms) \<in> set es \<Longrightarrow> saved_at es (get_hash name) = ms"
    "h \<notin> (get_hash \<circ> fst) ` set es \<Longrightarrow> saved_at es h = []"
proof -
  show none: "saved_at es h = []" if "h \<notin> (get_hash \<circ> fst) ` set es" for h es
    using that by (auto simp: saved_at_def image_iff split: prod.splits)
  show "(name, sent, ms) \<in> set es \<Longrightarrow> saved_at es (get_hash name) = ms"
    using assms
  proof (induction es)
    case (Cons e es)
    have "saved_at (e # es) (get_hash name) = (if get_hash (fst e) = get_hash name then snd (snd e) else []) @ saved_at es (get_hash name)"
      by (simp add: saved_at_def split_beta)
    moreover have "get_hash (fst e) \<noteq> get_hash name" if "(name, sent, ms) \<in> set es"
      using that Cons.prems(2) by (auto simp: image_iff)
    ultimately show ?case using Cons none [of "get_hash name" es] by auto
  qed simp
qed

lemma unpersist_loop_saved:
  assumes "scan_ok dir fs u" and "\<forall>e\<in>set es. saved_queue fs dir e" and "filter (\<lambda>n. deref n \<noteq> CHR ''.'') entries = map fst es"
    and "distinct (map (get_hash \<circ> fst) es)" and "\<forall>e\<in>set es. Some (get_hash (fst e)) \<notin> known (us_pm u)" and op: "\<And>p. open_ok p"
  shows "\<exists>u'. unpersist_loop os open_ok buf stack entries u = Some (Inr u') \<and> scan_ok dir fs u' \<and>
    ss_bucket (us_stomp u') = ss_bucket (us_stomp u) \<and>
    (\<forall>h. queue_messages (us_stomp u') (us_box u') h = queue_messages (us_stomp u) (us_box u) h @ map Some (saved_at es h))"
  using assms(1-5)
proof (induction entries arbitrary: u es)
  case Nil
  then show ?case by (simp add: saved_at_def)
next
  case (Cons n entries)
  show ?case
  proof (cases "deref n = CHR ''.''")
    case True
    then have "filter (\<lambda>n. deref n \<noteq> CHR ''.'') entries = map fst es" using Cons.prems(3) by simp
    from Cons.IH [OF Cons.prems(1,2) this Cons.prems(4,5)] True show ?thesis by (simp add: unpersist_entry_def)
  next
    case False
    then obtain e es' where es: "es = e # es'" "fst e = n" "filter (\<lambda>n. deref n \<noteq> CHR ''.'') entries = map fst es'"
      using Cons.prems(3) by (cases es) auto
    obtain sent ms where e: "e = (n, sent, ms)" using es(2) by (cases e) auto
    obtain u1 where u1: "unpersist_entry os open_ok buf stack n u = Some (Inr u1)" "scan_ok dir fs u1" "restores n ms u u1"
      "known (us_pm u1) = insert (Some (get_hash n)) (known (us_pm u))"
      using unpersist_entry_saved [OF Cons.prems(1), of n sent ms open_ok os buf stack] Cons.prems(2,5) op by (auto simp: es(1) e)
    have "\<forall>e\<in>set es'. Some (get_hash (fst e)) \<notin> known (us_pm u1)"
      using Cons.prems(4,5) by (force simp: es(1) e u1(4))
    then obtain u2 where u2: "unpersist_loop os open_ok buf stack entries u1 = Some (Inr u2)" "scan_ok dir fs u2"
      "ss_bucket (us_stomp u2) = ss_bucket (us_stomp u1)"
      "\<forall>h. queue_messages (us_stomp u2) (us_box u2) h = queue_messages (us_stomp u1) (us_box u1) h @ map Some (saved_at es' h)"
      using Cons.IH [OF u1(2) _ es(3)] Cons.prems(2,4) by (auto simp: es(1))
    moreover have "saved_at es h = (if h = get_hash n then ms else []) @ saved_at es' h" for h
      by (simp add: es(1) e saved_at_def)
    ultimately show ?thesis using u1(1,3) by (auto simp: restores_def)
  qed
qed

section \<open>Properties\<close>

text \<open>
  C5. A restart brings back the queues. When the data directory holds saved queues with different
  hashes, each with unsent messages of at most one read block, \<^verbatim>\<open>daemon_initialize\<close> returns
  success, the queue named after each directory entry holds exactly the queue's unsent messages
  in order, and every other queue is empty. A destination whose name contains a slash, such
  as \<^verbatim>\<open>/queue/test\<close>, is no directory entry, so its messages are among those that do not come back.
\<close>

theorem restart_restores_queues:
  fixes pr :: process
  defines "fs \<equiv> pm_fs (bk_pm (pr_world pr))"
  assumes "nc_datadir config = Some dir" and "fs_dirs fs dir" and "fs_files fs dir = None"
    and "\<forall>e\<in>set es. saved_queue fs dir e" and "filter (\<lambda>n. deref n \<noteq> CHR ''.'') (se_entries se) = map fst es"
    and "distinct (map (get_hash \<circ> fst) es)" and "\<And>p. se_open se p"
    and "qb_inv (bk_box (pr_world pr))" and "\<And>h. contents (bk_box (pr_world pr)) h = []"
  shows "\<exists>pr'. daemon_initialize se config pr = Some (Inr (RET_SUCCESS, pr')) \<and> qb_inv (bk_box (pr_world pr')) \<and>
    ss_bucket (bk_stomp (pr_world pr')) = [] \<and>
    (\<forall>(name, sent, ms)\<in>set es. queue_messages (bk_stomp (pr_world pr')) (bk_box (pr_world pr')) (get_hash name) = map Some ms) \<and>
    (\<forall>h. h \<notin> (get_hash \<circ> fst) ` set es \<longrightarrow> contents (bk_box (pr_world pr')) h = [])"
proof -
  let ?w = "pr_world pr"
  define pm where "pm = (bk_pm ?w)\<lparr>pm_list := [], pm_datadir := dir, pm_status := STATUS_INITIALIZED\<rparr>"
  define u where "u = \<lparr>us_pm = pm, us_stomp = (bk_stomp ?w)\<lparr>ss_bucket := []\<rparr>, us_box = bk_box ?w, us_static = parse_static0\<rparr>"
  have init: "initialize_persistent_worker (Some dir) (bk_pm ?w) = (RET_SUCCESS, pm)"
    using assms(3,4) by (simp add: initialize_persistent_worker_def Let_def pm_def fs_def)
  have st: "GET (pm_status pm) STATUS_INITIALIZED" by (simp add: pm_def GET_def STATUS_INITIALIZED_def)
  have "scan_ok dir fs u"
    using assms(9,10) by (simp add: scan_ok_def box_ok_def pointers_fresh_def u_def pm_ok_def pm_def fs_def)
  moreover have "\<forall>e\<in>set es. Some (get_hash (fst e)) \<notin> known (us_pm u)" by (simp add: known_def u_def pm_def)
  ultimately obtain u' where u': "unpersist_loop (se_os se) (se_open se) (se_buf se) (se_stack se) (se_entries se) u = Some (Inr u')"
    "scan_ok dir fs u'" "ss_bucket (us_stomp u') = []"
    "\<forall>h. queue_messages (us_stomp u') (us_box u') h = queue_messages (us_stomp u) (us_box u) h @ map Some (saved_at es h)"
    using unpersist_loop_saved [OF _ assms(5-7), of u "se_open se" "se_os se" "se_buf se" "se_stack se"] assms(8)
    by (auto simp: u_def)
  have q: "queue_messages (us_stomp u') (us_box u') h = map Some (saved_at es h)" for h
    using u'(4) assms(10) by (simp add: queue_messages_def u_def)
  have other: "contents (us_box u') h = []" if "h \<notin> (get_hash \<circ> fst) ` set es" for h
    using q [of h] saved_at_distinct(2) [OF assms(7) that] by (simp add: queue_messages_def)
  from u'(1) have "\<exists>pr'. daemon_initialize se config pr = Some (Inr (RET_SUCCESS, pr')) \<and>
      bk_stomp (pr_world pr') = us_stomp u' \<and> bk_box (pr_world pr') = us_box u'"
    by (auto simp: daemon_initialize_def Let_def assms(2) upd_world_def register_cleanup_def unpersist_def
        stomp_init_def init st u_def)
  then show ?thesis using u'(2,3) q saved_at_distinct(1) [OF assms(7)] other
    by (auto simp: scan_ok_def box_ok_def)
qed

text \<open>A data directory with one queue of a sent and two unsent messages.\<close>

definition fs2 :: fs where
  "fs2 = \<lparr>fs_files = [join_path ''/d/q'' FNAME_DATA \<mapsto> concat (map encode ([msg1] @ [msg2, msg1])),
      join_path ''/d/q'' FNAME_SENT_INDEX \<mapsto> encode_long (int (length (concat (map encode [msg1]))))],
    fs_dirs = (\<lambda>p. p \<in> {''/d'', ''/d/q''})\<rparr>"

definition config0 :: newt_config where
  "config0 = \<lparr>nc_server = Some ''127.0.0.1'', nc_port = 61613, nc_ctrl_port = 61614, nc_logfile = None, nc_debug = False,
     nc_loglevel = None, nc_datadir = Some ''/d''\<rparr>"

definition start_env0 :: "byte list list \<Rightarrow> start_env" where
  "start_env0 entries = \<lparr>se_os = os0, se_open = (\<lambda>_. True), se_entries = entries, se_buf = [], se_stack = [], se_sig = True\<rparr>"

definition process0 :: "fs \<Rightarrow> process" where
  "process0 fs = \<lparr>pr_net = net0, pr_world = (world0 [])\<lparr>bk_pm := pm2\<lparr>pm_fs := fs\<rparr>\<rparr>\<rparr>"

lemma saved_queue2: "saved_queue fs2 ''/d'' (''q'', [msg1], [msg2, msg1])"
  using msgs_ok
  by (simp add: saved_queue_def fs2_def join_path_def FNAME_DATA_def FNAME_SENT_INDEX_def MAX_PATH_LENGTH_def Let_def)
    (simp add: msg1_def msg2_def encode_def encode_headers_def BUFFER_LEN_def)

lemma fs2_dir: "fs_dirs fs2 ''/d''" "fs_files fs2 ''/d'' = None"
  by (simp_all add: fs2_def join_path_def FNAME_DATA_def FNAME_SENT_INDEX_def)

theorem restart_restores_queues_witness:
  "\<exists>pr'. daemon_initialize (start_env0 [''.'', ''..'', ''q'']) config0 (process0 fs2) = Some (Inr (RET_SUCCESS, pr')) \<and>
    queue_messages (bk_stomp (pr_world pr')) (bk_box (pr_world pr')) (get_hash ''q'') = [Some msg2, Some msg1] \<and>
    contents (bk_box (pr_world pr')) (get_hash ''/queue/test'') = []"
proof -
  let ?pr = "process0 fs2" and ?es = "[(''q'', [msg1], [msg2, msg1])]" and ?se = "start_env0 [''.'', ''..'', ''q'']"
  have w: "pm_fs (bk_pm (pr_world ?pr)) = fs2" "bk_box (pr_world ?pr) = empty_box"
    by (simp_all add: process0_def world0_def)
  have h: "get_hash ''/queue/test'' \<noteq> get_hash ''q''" by (simp add: get_hash_def)
  have "\<exists>pr'. daemon_initialize ?se config0 ?pr = Some (Inr (RET_SUCCESS, pr')) \<and> qb_inv (bk_box (pr_world pr')) \<and>
      ss_bucket (bk_stomp (pr_world pr')) = [] \<and>
      (\<forall>(name, sent, ms)\<in>set ?es. queue_messages (bk_stomp (pr_world pr')) (bk_box (pr_world pr')) (get_hash name) = map Some ms) \<and>
      (\<forall>h. h \<notin> (get_hash \<circ> fst) ` set ?es \<longrightarrow> contents (bk_box (pr_world pr')) h = [])"
    by (rule restart_restores_queues [of _ "''/d''"])
      (use saved_queue2 fs2_dir in \<open>simp_all add: w qb_inv_empty contents_empty config0_def start_env0_def\<close>)
  then show ?thesis using h by auto
qed

end
