(* ===== verification/Delivery.thy ===== *)
theory Delivery
  imports Restart
begin

text \<open>
  The path of a message through the broker: the receive loop (\<^verbatim>\<open>recv_data\<close>), the management worker
  with the SEND handler, the queue, and the sending workers.
\<close>

section \<open>Persistence of a known queue\<close>

text \<open>The manager has an entry for the destination, and no dangling ones.\<close>

definition knows_queue :: "byte list \<Rightarrow> persistent_manager \<Rightarrow> bool" where
  "knows_queue d pm \<longleftrightarrow> (\<exists>q. get_qinfo (get_hash d) pm = Inr (Some q))"

lemma get_qinfo_upd: "(\<And>q. qi_qid (f q) = qi_qid q) \<Longrightarrow> get_qinfo i (upd_qinfo p f pm) = get_qinfo i pm"
  by (auto simp: get_qinfo_def option.map_comp comp_def list_ex_iff intro!: find_last_cong)

lemma knows_queue_live: "knows_queue d pm \<Longrightarrow> pm_live pm"
  by (auto simp: knows_queue_def get_qinfo_def pm_live_def list_ex_iff list_all_iff split: if_splits)

lemma persist_known:
  assumes "knows_queue d pm" and "frames p = Some f"
  shows "\<exists>pm'. persist_frame open_ok malloc_ok frames p d pm = Inr (RET_SUCCESS, pm') \<and> knows_queue d pm'"
proof -
  obtain q where "get_qinfo (get_hash d) pm = Inr (Some q)" using assms(1) by (auto simp: knows_queue_def)
  then show ?thesis using assms(2)
    by (auto simp: persist_frame_def create_qinfo_def knows_queue_def get_qinfo_upd add_frame_into_qinfo_def)
qed

section \<open>Handling the bucket\<close>

text \<open>A SEND to \<open>d\<close> that is stored at once; its receipt is what the sender gets back.\<close>

definition stored_send :: "byte list \<Rightarrow> message \<Rightarrow> bool" where
  "stored_send d m \<longleftrightarrow> plain_send m d \<and> header_value ''transaction:'' (msg_headers m) = None \<and>
     (case header_value ''receipt:'' (msg_headers m) of None \<Rightarrow> True | Some i \<Rightarrow> length i \<le> 1011)"

definition receipts :: "int \<Rightarrow> message list \<Rightarrow> sends" where
  "receipts sock ms = concat (map (\<lambda>m. receipt_sent sock (header_value ''receipt:'' (msg_headers m))) ms)"

lemma management_stores:
  assumes "list_all2 (\<lambda>p m. \<exists>k. frames p = Some (delivered os sock c k m)) ps ms" and "\<forall>m\<in>set ms. stored_send d m"
    and "ss_frames (bk_stomp w) = frames" and "ss_bucket (bk_stomp w) = ps @ rest" and "qb_inv (bk_box w)"
    and "knows_queue d (bk_pm w)" and env: "e_queue env = all_mallocs"
  shows "\<exists>w'. management_rounds env (length ms) w = Some (Inr w') \<and> ss_frames (bk_stomp w') = frames \<and>
    ss_bucket (bk_stomp w') = rest \<and> bk_wm w' = bk_wm w \<and> qb_inv (bk_box w') \<and> knows_queue d (bk_pm w') \<and>
    contents (bk_box w') = (contents (bk_box w))(get_hash d := contents (bk_box w) (get_hash d) @ ps) \<and>
    bk_out w' = bk_out w @ receipts sock ms"
  using assms(1-6)
proof (induction ps ms arbitrary: w rule: list_all2_induct)
  case Nil
  then show ?case by (simp add: receipts_def)
next
  case (Cons p ps m ms)
  from Cons.hyps(1) obtain k where f: "frames p = Some (delivered os sock c k m)" by blast
  define w0 where "w0 = w\<lparr>bk_stomp := (bk_stomp w)\<lparr>ss_bucket := ps @ rest\<rparr>\<rparr>"
  have bucket: "get_frame_from_bucket (bk_stomp w) = (Some p, bk_stomp w0)"
    using Cons.prems(3) by (simp add: get_frame_from_bucket_def w0_def)
  have m: "plain_send m d" "header_value ''transaction:'' (msg_headers m) = None"
    "\<forall>i. header_value ''receipt:'' (msg_headers m) = Some i \<longrightarrow> length i \<le> 1011"
    using Cons.prems(1) by (auto simp: stored_send_def)
  have p: "world_frame p w0 = Some (delivered os sock c k m)" using Cons.prems(2) f by (simp add: world_frame_def w0_def)
  obtain pm' where pm: "persist_frame (e_open env) (e_qinfo env) (ss_frames (bk_stomp w0)) p d (bk_pm w0) = Inr (RET_SUCCESS, pm')"
    "knows_queue d pm'"
    using persist_known [OF Cons.prems(5), of frames p _ "e_open env" "e_qinfo env"] f Cons.prems(2) by (auto simp: w0_def)
  have b0: "qb_inv (bk_box w0)" using Cons.prems(4) by (simp add: w0_def)
  define w1 where "w1 b = send_out (\<lambda>out. out @ receipt_sent sock (header_value ''receipt:'' (msg_headers m)))
      (w0\<lparr>bk_box := b, bk_pm := pm'\<rparr>)" for b
  obtain b where b: "handle_frame env p w0 = Some (Inr (w1 b))" "qb_inv b"
    "contents b = (contents (bk_box w0))(get_hash d := contents (bk_box w0) (get_hash d) @ [p])"
    using handle_send_stored [OF m(1) p m(2,3) b0 env pm(1)] unfolding w1_def by blast
  have step: "management_round env w = Some (Inr (w1 b))"
    using b(1) bucket by (simp add: management_round_def w0_def)
  have "\<exists>w'. management_rounds env (length ms) (w1 b) = Some (Inr w') \<and> ss_frames (bk_stomp w') = frames \<and>
      ss_bucket (bk_stomp w') = rest \<and> bk_wm w' = bk_wm (w1 b) \<and> qb_inv (bk_box w') \<and> knows_queue d (bk_pm w') \<and>
      contents (bk_box w') = (contents (bk_box (w1 b)))(get_hash d := contents (bk_box (w1 b)) (get_hash d) @ ps) \<and>
      bk_out w' = bk_out (w1 b) @ receipts sock ms"
    using Cons.prems(1,2) b(2) pm(2) by (intro Cons.IH) (simp_all add: w1_def w0_def send_out_def)
  then show ?case using step b(3) by (auto simp: w1_def w0_def send_out_def receipts_def)
qed

section \<open>Properties\<close>

lemma served_by: "length cs \<le> length q \<Longrightarrow> served q (map Serve cs) = zip cs q"
  by (induction cs arbitrary: q) (auto split: list.splits)

lemma servers_of: "servers (map Serve cs) = cs" "arrivals (map Serve cs) = []"
  by (induction cs) simp_all

text \<open>
  C1. A message reaches its subscriber. Any number of SEND messages to one destination arrive in
  one piece on a connection; the management worker runs as many rounds, and clients
  subscribed to the destination make as many passes, each with the surroundings it sees. Then every step returns, the sender gets
  the receipts asked for, each message is sent to exactly one client, the \<open>i\<close>-th message to
  the \<open>i\<close>-th client that asks, and the queue is empty again.
\<close>

theorem send_reaches_subscriber:
  fixes w :: world
  defines "n \<equiv> ss_next (bk_stomp w)"
  assumes "conn_idle cinfo" and "\<forall>m\<in>set ms. stored_send d m" and "cstr d' = d"
    and "ss_bucket (bk_stomp w) = []" and "qb_inv (bk_box w)" and "contents (bk_box w) (get_hash d) = []"
    and "knows_queue d (bk_pm w)" and "e_queue env = all_mallocs"
    and "\<forall>(os', s)\<in>set cs. client_of os' (bk_wm w) d' s" and "length cs = length ms"
  shows "\<exists>st w1 w2. recv_data os (concat (map encode ms) @ t) (int (length (concat (map encode ms)))) sock c cinfo (bk_stomp w) =
      Some (Inr (RET_SUCCESS, cinfo, st)) \<and>
    management_rounds env (length ms) (w\<lparr>bk_stomp := st\<rparr>) = Some (Inr w1) \<and>
    run_serving (arrive_at d') (\<lambda>(os', s). unicast_worker os' s) (map Serve cs) w1 = Inr w2 \<and>
    map (\<lambda>p. map_option message_of (ss_frames st p)) [n..<n + length ms] = map Some ms \<and>
    bk_out w2 = fold (\<lambda>((os', s), p). emit_to os' (bk_wm w) (ss_frames st) True s p) (zip cs [n..<n + length ms])
      (bk_out w @ receipts sock ms) \<and>
    pending_of d w2 = []"
proof -
  define st where "st = fold (deliver os sock c) ms (bk_stomp w)"
  let ?ps = "[n..<n + length ms]"
  have ok: "\<forall>m\<in>set ms. msg_ok m" using assms(3) by (simp add: stored_send_def plain_send_def)
  have recv: "recv_data os (concat (map encode ms) @ t) (int (length (concat (map encode ms)))) sock c cinfo (bk_stomp w) =
      Some (Inr (RET_SUCCESS, cinfo, st))"
    unfolding st_def by (rule recv_data_all [OF assms(2) ok])
  have new: "ss_frames st (n + i) = Some (delivered os sock c (ss_rand (bk_stomp w) + i * (FRAME_ID_LEN - 1)) (ms ! i))"
    if "i < length ms" for i using that by (simp add: st_def n_def deliver_new)
  have frames: "list_all2 (\<lambda>p m. \<exists>k. ss_frames st p = Some (delivered os sock c k m)) ?ps ms"
    using new by (auto simp: list_all2_conv_all_nth)
  have msgs: "map (\<lambda>p. map_option message_of (ss_frames st p)) ?ps = map Some ms"
    using new ok by (intro nth_equalityI) (simp_all add: message_of_delivered)
  have st: "ss_bucket st = ?ps @ []" "ss_out st = bk_out w" using assms(5) by (simp_all add: st_def n_def deliver_all)
  obtain w1 where w1: "management_rounds env (length ms) (w\<lparr>bk_stomp := st\<rparr>) = Some (Inr w1)" "ss_frames (bk_stomp w1) = ss_frames st"
    "bk_wm w1 = bk_wm w" "qb_inv (bk_box w1)" "knows_queue d (bk_pm w1)"
    "contents (bk_box w1) (get_hash d) = ?ps" "bk_out w1 = bk_out w @ receipts sock ms"
    using management_stores [OF frames assms(3), of "w\<lparr>bk_stomp := st\<rparr>" "[]" env] assms(6-9) st by auto
  have hash: "get_hash d' = get_hash d" using get_hash_cstr [of d'] assms(4) by simp
  have inv: "serve_inv (bk_wm w) (ss_frames st) d' w1"
    using w1 knows_queue_live [OF w1(5)] new hash
    by (auto simp: serve_inv_def) (metis le_Suc_ex nat_add_left_cancel_less option.distinct(1))
  obtain w2 where "run_serving (arrive_at d') (\<lambda>(os', s). unicast_worker os' s) (map Serve cs) w1 = Inr w2"
    "bk_out w2 = fold (\<lambda>((os', s), p). emit_to os' (bk_wm w) (ss_frames st) True s p) (served (pending_of d' w1) (map Serve cs)) (bk_out w1)"
    "map snd (served (pending_of d' w1) (map Serve cs)) @ pending_of d' w2 = pending_of d' w1"
    using unicast.run_serves [OF inv, of "map Serve cs"] assms(10) by (auto simp: servers_of case_prod_unfold)
  then show ?thesis using recv w1 msgs assms(11) hash by (auto simp: pending_of_def served_by)
qed

lemma world0_ready:
  "qb_inv (bk_box (world0 []))" "contents (bk_box (world0 [])) h = []" "knows_queue ''/q'' (bk_pm (world0 []))"
  "ss_bucket (bk_stomp (world0 [])) = []" "bk_out (world0 []) = []" "bk_wm (world0 []) = wm2" "ss_next (bk_stomp (world0 [])) = 1"
  by (simp_all add: world0_def st0_def qb_inv_empty contents_empty knows_queue_def get_qinfo_def pm2_def)

lemma clients2: "\<forall>(os, s)\<in>set [(os0, 3), (os_failed, 2), (os0, 3)]. client_of os wm2 (''/q'' @ [NUL]) s"
  by (simp add: client_of_def wm2_clients os0_def os_failed_def is_socket_valid_def subscription_header_def del: One_nat_def)

theorem send_reaches_subscriber_witness:
  "\<exists>st w1 w2. recv_data os0 (concat (map encode [msg1, msg1, msg1])) (int (length (concat (map encode [msg1, msg1, msg1])))) 4 9 conn0
      (bk_stomp (world0 [])) = Some (Inr (RET_SUCCESS, conn0, st)) \<and>
    management_rounds env0 3 ((world0 [])\<lparr>bk_stomp := st\<rparr>) = Some (Inr w1) \<and>
    run_serving (arrive_at (''/q'' @ [NUL])) (\<lambda>(os, s). unicast_worker os s) (map Serve [(os0, 3), (os_failed, 2), (os0, 3)]) w1 = Inr w2 \<and>
    bk_out w2 = fold (\<lambda>((os, s), p). emit_to os wm2 (ss_frames st) True s p) (zip [(os0, 3), (os_failed, 2), (os0, 3)] [1, 2, 3]) [] \<and>
    pending_of ''/q'' w2 = []"
proof -
  have m: "\<forall>m\<in>set [msg1, msg1, msg1]. stored_send ''/q'' m" using msg1_plain by (simp add: stored_send_def)
  have c: "conn_idle conn0" by (simp add: conn_idle_def conn0_def)
  have e: "e_queue env0 = all_mallocs" by (simp add: env0_def)
  have r: "receipts 4 [msg1, msg1, msg1] = []" using msg1_plain(3) by (simp add: receipts_def receipt_sent_def)
  show ?thesis
    using send_reaches_subscriber [OF c m, of "''/q'' @ [NUL]" "world0 []" env0 "[(os0, 3), (os_failed, 2), (os0, 3)]" os0 "[]" 4 9]
      clients2 e
    by (simp add: world0_ready r del: upt_Suc One_nat_def) (auto simp: upt_rec eval_nat_numeral)
qed

end
