(* ===== verification/Server.thy ===== *)
theory Server
  imports Delivery
begin

text \<open>
  The server as a state machine. Its threads (the connections' receive loops, the management
  worker, the sending workers and the persistent worker) take steps on the shared world in any
  order; a step is one round of a thread's loop. The theory shows the invariant of the
  reachable worlds and what it means for the sending workers.
\<close>

section \<open>The sending workers' data\<close>

definition thread_ok :: "worker_manager_t \<Rightarrow> thread \<Rightarrow> bool" where
  "thread_ok wm t = (case t of Reply_Worker c \<Rightarrow> wm_clients wm c \<noteq> None | Unicast_Worker c \<Rightarrow> wm_clients wm c \<noteq> None
     | Multicast_Worker g \<Rightarrow> wm_groups wm g \<noteq> None)"

definition wm_inv :: "worker_manager_t \<Rightarrow> bool" where
  "wm_inv wm \<longleftrightarrow>
     (\<forall>g dg. wm_groups wm g = Some dg \<longrightarrow> g < wm_next wm \<and> distinct (dg_clients dg) \<and>
        (\<forall>c\<in>set (dg_clients dg). \<exists>ci. wm_clients wm c = Some ci \<and> ci_dgroup ci = g)) \<and>
     (\<forall>c ci. wm_clients wm c = Some ci \<longrightarrow> c < wm_next wm \<and> ci_id ci = None \<and> wm_groups wm (ci_dgroup ci) \<noteq> None) \<and>
     distinct (wm_threads wm) \<and> (\<forall>t\<in>set (wm_threads wm). thread_ok wm t)"

lemma wm_invD:
  assumes "wm_inv wm"
  shows "wm_groups wm g = Some dg \<Longrightarrow> g < wm_next wm" "wm_clients wm c = Some ci \<Longrightarrow> c < wm_next wm"
    "wm_groups wm g = Some dg \<Longrightarrow> distinct (dg_clients dg)"
    "wm_groups wm g = Some dg \<Longrightarrow> c \<in> set (dg_clients dg) \<Longrightarrow> \<exists>ci. wm_clients wm c = Some ci \<and> ci_dgroup ci = g"
    "wm_clients wm c = Some ci \<Longrightarrow> ci_id ci = None" "wm_clients wm c = Some ci \<Longrightarrow> wm_groups wm (ci_dgroup ci) \<noteq> None"
    "t \<in> set (wm_threads wm) \<Longrightarrow> thread_ok wm t" "distinct (wm_threads wm)"
  using assms by (auto simp: wm_inv_def)

lemma fresh_thread:
  assumes "wm_inv wm" and "wm_next wm \<le> x"
  shows "Reply_Worker x \<notin> set (wm_threads wm)" "Unicast_Worker x \<notin> set (wm_threads wm)" "Multicast_Worker x \<notin> set (wm_threads wm)"
    "wm_groups wm x = None" "wm_clients wm x = None"
  using wm_invD(1,2) [OF assms(1), of x] wm_invD(7) [OF assms(1)] assms(2) by (fastforce simp: thread_ok_def)+

lemma new_group_inv:
  assumes "wm_inv wm" and "initialize_dest_group ok (alloc_dest_group ok') d len wm = Inr (g, wm')"
  shows "wm_inv wm' \<and> wm_groups wm' g \<noteq> None \<and> Multicast_Worker g \<notin> set (wm_threads wm')"
proof -
  let ?dg = "\<lparr>dg_destination = take len d @ [NUL], dg_len = len, dg_clients = [], dg_status = CLR 0\<rparr>"
  have g: "g = wm_next wm"
    and wm': "wm' = wm\<lparr>wm_groups := (wm_groups wm)(g \<mapsto> ?dg), wm_list := wm_list wm @ [g], wm_next := g + 1\<rparr>"
    using assms(2) by (auto simp: initialize_dest_group_def alloc_dest_group_def Let_def split: if_splits)
  have "Multicast_Worker g \<notin> set (wm_threads wm)" using fresh_thread(3) [OF assms(1)] g by simp
  with wm' show ?thesis using assms(1) fresh_thread(4,5) [OF assms(1), of g] g
    by (auto simp: wm_inv_def thread_ok_def less_Suc_eq split: thread.splits)
qed

lemma new_client_inv:
  assumes "wm_inv wm" and "wm_groups wm g \<noteq> None" and "register_client ok sock g wm = Inr (c, wm')"
  shows "wm_inv wm' \<and> wm_clients wm' c \<noteq> None \<and> Reply_Worker c \<notin> set (wm_threads wm') \<and> Unicast_Worker c \<notin> set (wm_threads wm')"
proof -
  let ?ci = "\<lparr>ci_sock = sock, ci_id = None, ci_id_live = False, ci_dgroup = g\<rparr>"
  have c: "c = wm_next wm" and wm': "wm' = wm\<lparr>wm_clients := (wm_clients wm)(c \<mapsto> ?ci),
      wm_groups := (wm_groups wm)(g := map_option (\<lambda>dg. dg\<lparr>dg_clients := dg_clients dg @ [c]\<rparr>) (wm_groups wm g)), wm_next := c + 1\<rparr>"
    using assms(3) by (auto simp: register_client_def alloc_client_info_def Let_def split: if_splits)
  note f = fresh_thread [OF assms(1), of c]
  have "c \<notin> set (dg_clients dg)" if "wm_groups wm g' = Some dg" for g' dg
    using wm_invD(4) [OF assms(1) that] f(5) c by force
  with wm' show ?thesis using assms(1,2) f c
    by (auto simp: wm_inv_def thread_ok_def less_Suc_eq split: thread.splits)
qed

lemma new_thread_inv: "wm_inv wm \<Longrightarrow> thread_ok wm t \<Longrightarrow> t \<notin> set (wm_threads wm) \<Longrightarrow> wm_inv (create_thread t wm)"
  by (simp add: wm_inv_def create_thread_def thread_ok_def) (auto split: thread.splits)

lemma search_dest_group_live: "search_dest_group d len wm = Some g \<Longrightarrow> wm_groups wm g \<noteq> None"
  by (auto simp: search_dest_group_def find_Some_iff split: option.splits)

lemma registrations_inv: "registrations wm wm' \<Longrightarrow> wm_inv wm \<Longrightarrow> wm_inv wm'"
proof (induction rule: registrations.induct)
  case (reply wm x m sock d r y)
  show ?case
  proof (cases "search_dest_group d (strlen d) x")
    case None
    with reply obtain g wm1 c wm2 where *: "initialize_dest_group (m_dest m) (alloc_dest_group (m_group m)) d (strlen d) x = Inr (g, wm1)"
      "register_client (m_client m) sock g wm1 = Inr (c, wm2)" "y = create_thread (Reply_Worker c) wm2"
      by (auto simp: register_reply_worker_def Let_def and_then_eq_Inr)
    then show ?thesis using reply new_group_inv [OF _ *(1)] new_client_inv [OF _ _ *(2)]
      by (auto intro!: new_thread_inv simp: thread_ok_def)
  qed (use reply in \<open>auto simp: register_reply_worker_def Let_def\<close>)
next
  case (unicast wm x m sock d i r y)
  then obtain g wm1 c wm2 where g: "(case search_dest_group d (strlen d) x of Some g \<Rightarrow> Inr (g, x)
        | None \<Rightarrow> initialize_dest_group (m_dest m) (alloc_dest_group (m_group m)) d (strlen d) x) = Inr (g, wm1)"
      and c: "register_client (m_client m) sock g wm1 = Inr (c, wm2)" and y: "y = create_thread (Unicast_Worker c) wm2"
    by (auto simp: register_unicast_worker_def Let_def and_then_eq_Inr)
  have "wm_inv wm1 \<and> wm_groups wm1 g \<noteq> None"
    using g unicast search_dest_group_live [of d _ x] new_group_inv by (auto split: option.splits)
  with c y show ?case using new_client_inv [OF _ _ c] by (auto intro!: new_thread_inv simp: thread_ok_def)
next
  case (multicast wm x m sock d i r y)
  then obtain g wm1 c where g: "(case search_dest_group d (strlen d) x of Some g \<Rightarrow> Inr (g, x)
        | None \<Rightarrow> and_then (initialize_dest_group (m_dest m) (alloc_dest_group (m_group m)) d (strlen d) x) (\<lambda>(g, wm).
                    Inr (g, create_thread (Multicast_Worker g) wm))) = Inr (g, wm1)"
      and c: "register_client (m_client m) sock g wm1 = Inr (c, y)"
    by (auto simp: register_multicast_worker_def Let_def and_then_eq_Inr)
  have "wm_inv wm1 \<and> wm_groups wm1 g \<noteq> None"
  proof (cases "search_dest_group d (strlen d) x")
    case None
    then obtain wm0 where "initialize_dest_group (m_dest m) (alloc_dest_group (m_group m)) d (strlen d) x = Inr (g, wm0)"
      "wm1 = create_thread (Multicast_Worker g) wm0" using g by (auto simp: and_then_eq_Inr)
    then show ?thesis using multicast new_group_inv [of x _ _ d _ g wm0]
      by (auto intro!: new_thread_inv simp: thread_ok_def) (auto simp: create_thread_def)
  qed (use g multicast search_dest_group_live [of d _ x] in auto)
  with new_client_inv [OF _ _ c] show ?case by simp
qed simp

lemma fold_remove1:
  fixes xs :: "'a list"
  shows "set (fold remove1 cs xs) \<subseteq> set xs" "distinct xs \<Longrightarrow> distinct (fold remove1 cs xs)"
proof (induction cs arbitrary: xs)
  case (Cons c cs)
  { case 1 then show ?case using Cons.IH(1) [of "remove1 c xs"] set_remove1_subset [of c xs] by auto }
  { case 2 then show ?case using Cons.IH(2) [of "remove1 c xs"] by simp }
qed simp_all

lemma unlink_clients_inv:
  assumes "wm_inv wm"
  shows "wm_inv (unlink_clients g cs wm)"
proof -
  have "c \<in> set (fold remove1 cs xs) \<Longrightarrow> c \<in> set xs" for c xs using fold_remove1(1) [of cs xs] by blast
  with assms fold_remove1(2) [of _ cs] show ?thesis
    by (fastforce simp: wm_inv_def unlink_clients_def thread_ok_def split: thread.splits)
qed

section \<open>Steps\<close>

text \<open>One round of a sending worker, and the end of a thread.\<close>

definition thread_pass :: "os \<Rightarrow> thread \<Rightarrow> world \<Rightarrow> (bool \<times> world) res" where
  "thread_pass os t w = (case t of Reply_Worker c \<Rightarrow> reply_worker os c w | Unicast_Worker c \<Rightarrow> unicast_worker os c w
     | Multicast_Worker g \<Rightarrow> multicast_worker os g w)"

definition end_thread :: "thread \<Rightarrow> world \<Rightarrow> world" where
  "end_thread t w = w\<lparr>bk_wm := (bk_wm w)\<lparr>wm_threads := remove1 t (wm_threads (bk_wm w))\<rparr>\<rparr>"

text \<open>
  Each step has surroundings of its own out of \<open>E\<close>: which allocations succeed (those of the
  queues do, by \<open>plain_env\<close> below), what \<^verbatim>\<open>rand\<close>,
  \<^verbatim>\<open>getsockopt\<close> and \<^verbatim>\<open>send\<close> return and which files open may change from step to step.
\<close>

inductive server_step :: "env set \<Rightarrow> world \<Rightarrow> world \<Rightarrow> bool" for E where
  connect: "env \<in> E \<Longrightarrow> conn_init True (e_os env) (bk_stomp w) = (Some cinfo, st) \<Longrightarrow>
    server_step E w (w\<lparr>bk_stomp := st, w_conns := (w_conns w)(c \<mapsto> cinfo)\<rparr>)"
| receive: "env \<in> E \<Longrightarrow> w_conns w c = Some cinfo \<Longrightarrow>
    recv_data (e_os env) buf len sock c cinfo (bk_stomp w) = Some (Inr (r, cinfo', st)) \<Longrightarrow>
    server_step E w (w\<lparr>bk_stomp := st, w_conns := (w_conns w)(c \<mapsto> cinfo')\<rparr>)"
| close: "env \<in> E \<Longrightarrow> w_conns w c = Some cinfo \<Longrightarrow> conn_finish (e_os env) (Some cinfo) (bk_stomp w) = Inr (r, st) \<Longrightarrow>
    server_step E w (w\<lparr>bk_stomp := st\<rparr>)"
| manage: "env \<in> E \<Longrightarrow> management_round env w = Some (Inr w') \<Longrightarrow> server_step E w w'"
| serve: "env \<in> E \<Longrightarrow> t \<in> set (wm_threads (bk_wm w)) \<Longrightarrow> thread_pass (e_os env) t w = Inr (True, w') \<Longrightarrow> server_step E w w'"
| quit: "env \<in> E \<Longrightarrow> t \<in> set (wm_threads (bk_wm w)) \<Longrightarrow> thread_pass (e_os env) t w = Inr (False, w') \<Longrightarrow> server_step E w (end_thread t w')"
| persist: "persistent_worker (ss_frames (bk_stomp w)) (bk_pm w) = Inr (True, pm) \<Longrightarrow> server_step E w (w\<lparr>bk_pm := pm\<rparr>)"

inductive_cases server_stepE: "server_step E w w'"

abbreviation server_run :: "env set \<Rightarrow> world \<Rightarrow> world \<Rightarrow> bool" where
  "server_run E \<equiv> (server_step E)\<^sup>*\<^sup>*"

definition server_inv :: "world \<Rightarrow> bool" where
  "server_inv w \<longleftrightarrow> qb_inv (bk_box w) \<and> pm_live (bk_pm w) \<and> wm_inv (bk_wm w)"

text \<open>Rounds of the management worker keep the invariant.\<close>

definition intact :: "env \<Rightarrow> world \<Rightarrow> world \<Rightarrow> bool" where
  "intact env w w' \<longleftrightarrow> e_queue env = all_mallocs \<longrightarrow> server_inv w \<longrightarrow> server_inv w'"

lemma upd_qinfo_live: "pm_live (upd_qinfo q f pm) = pm_live pm"
  by (auto simp: pm_live_def list_all_iff)

definition entries_kept :: "persistent_manager \<Rightarrow> ('q \<times> persistent_manager) res \<Rightarrow> bool" where
  "entries_kept pm r \<longleftrightarrow> (\<forall>q pm'. r = Inr (q, pm') \<longrightarrow> pm_heap pm' = pm_heap pm \<and> pm_list pm' = pm_list pm)"

lemma entries_kept_Inr: "entries_kept pm (Inr (q, pm))" "entries_kept pm (Inr (q, pm\<lparr>pm_fs := fs\<rparr>))"
  by (simp_all add: entries_kept_def)

lemma entries_kept_seq: "(\<And>x. entries_kept pm (k x)) \<Longrightarrow> entries_kept pm (and_then r k)"
  by (cases r) (simp_all add: entries_kept_def)

lemma entries_kept_if:
  "(c \<Longrightarrow> entries_kept pm r1) \<Longrightarrow> (\<not> c \<Longrightarrow> entries_kept pm r2) \<Longrightarrow> entries_kept pm (if c then r1 else r2)"
  by simp

lemma alloc_qinfo_live: "entries_kept pm (alloc_qinfo o_ok m_ok d pm)"
  unfolding alloc_qinfo_def Let_def by (intro entries_kept_Inr entries_kept_seq entries_kept_if)

lemma create_qinfo_live:
  assumes "create_qinfo o_ok m_ok d pm = Inr (q, pm')" and "pm_live pm"
  shows "pm_live pm'"
proof -
  obtain found where f: "get_qinfo (get_hash d) pm = Inr found"
    using assms(1) by (cases "get_qinfo (get_hash d) pm") (simp_all add: create_qinfo_def)
  show ?thesis
  proof (cases found)
    case None
    then obtain qi pm1 where "alloc_qinfo o_ok m_ok d pm = Inr (Some qi, pm1)"
      "pm' = pm1\<lparr>pm_heap := (pm_heap pm1)(pm_next pm1 \<mapsto> qi), pm_list := pm_list pm1 @ [pm_next pm1], pm_next := pm_next pm1 + 1\<rparr>"
      using assms(1) f by (auto simp: create_qinfo_def and_then_eq_Inr split: option.splits)
    with alloc_qinfo_live [of pm o_ok m_ok d] assms(2) show ?thesis
      by (auto simp: entries_kept_def pm_live_def list_all_iff)
  qed (use assms f in \<open>simp add: create_qinfo_def\<close>)
qed

lemma persist_frame_live:
  assumes "persist_frame o_ok m_ok frames p d pm = Inr (r, pm')" and "pm_live pm"
  shows "pm_live pm'"
proof -
  obtain q pm1 where c: "create_qinfo o_ok m_ok d pm = Inr (q, pm1)" "\<exists>f. pm' = upd_qinfo q f pm1"
    using assms(1) unfolding persist_frame_def and_then_eq_Inr by (fastforce split: option.splits)
  from create_qinfo_live [OF c(1) assms(2)] c(2) show ?thesis by (auto simp: upd_qinfo_live)
qed

interpretation intact: world_relation env "intact env" for env
proof unfold_locales
  fix w :: world and p q r pm r' b
  assume "persist_frame (e_open env) (e_qinfo env) (ss_frames (bk_stomp w)) p q (bk_pm w) = Inr (r, pm)"
    and b: "enqueue (e_queue env) (Some p) q (bk_box w) = Inr (r', b)"
  then show "intact env w (w\<lparr>bk_pm := pm, bk_box := b\<rparr>)"
    using enqueue_ok [of "bk_box w" p q] by (auto simp: intact_def server_inv_def dest: persist_frame_live)
qed (auto simp: intact_def server_inv_def dest: registrations_inv)

section \<open>The invariant\<close>

lemma dequeue_inv: "dequeue all_mallocs q b = Inr (x, b') \<Longrightarrow> qb_inv b \<Longrightarrow> qb_inv b'"
  using dequeue_ok [of b q] by auto

lemma update_index_live: "update_index_sent d f pm = Inr (r, pm') \<Longrightarrow> pm_live pm \<Longrightarrow> pm_live pm'"
  using update_index_sent_live [of pm d f] by auto

lemma send_to_client_inv:
  assumes "send_to_client os sock hs d p w = Inr w'"
  shows "bk_wm w' = bk_wm w \<and> bk_box w' = bk_box w \<and> (pm_live (bk_pm w) \<longrightarrow> pm_live (bk_pm w'))"
  using assms update_index_live by (fastforce simp: send_to_client_def Let_def and_then_eq_Inr split: option.splits)

lemma serve_client_inv:
  assumes "serve_client os sock hs g w = Inr (go, w')" and "server_inv w"
  shows "server_inv w' \<and> bk_wm w' = bk_wm w"
proof (cases "is_socket_valid os sock = RET_SUCCESS")
  case True
  obtain dg p b where d: "wm_groups (bk_wm w) g = Some dg" "dequeue all_mallocs (dg_destination dg) (bk_box w) = Inr (p, b)"
    using assms(1) True by (auto simp: serve_client_def and_then_eq_Inr split: option.splits)
  have b: "qb_inv b" using dequeue_inv [OF d(2)] assms(2) by (simp add: server_inv_def)
  show ?thesis
  proof (cases p)
    case (Some x)
    then have "send_to_client os sock hs (dg_destination dg) x (w\<lparr>bk_box := b\<rparr>) = Inr w'"
      using assms(1) True d by (auto simp: serve_client_def and_then_eq_Inr)
    from send_to_client_inv [OF this] show ?thesis using assms(2) b by (simp add: server_inv_def)
  qed (use assms True d b in \<open>auto simp: serve_client_def server_inv_def\<close>)
qed (use assms in \<open>auto simp: serve_client_def\<close>)

lemma multicast_client_inv:
  assumes "multicast_client os g f c w = Inr w'" and "server_inv w"
  shows "server_inv w' \<and> wm_threads (bk_wm w') = wm_threads (bk_wm w) \<and> dom (wm_groups (bk_wm w')) = dom (wm_groups (bk_wm w))"
proof -
  have "(\<exists>h. w' = send_out h w) \<or> w' = w\<lparr>bk_wm := unlink_clients g [c] (bk_wm w)\<rparr>"
    using assms(1) by (auto simp: multicast_client_def unlink_clients_def Let_def and_then_eq_Inr split: option.splits if_splits)
  with assms(2) unlink_clients_inv [of "bk_wm w" g "[c]"] show ?thesis
    by (auto simp: server_inv_def) (auto simp: unlink_clients_def dom_def split: if_splits)
qed

lemma multicast_clients_inv:
  "each_res (multicast_client os g f) cs w = Inr w' \<Longrightarrow> server_inv w \<Longrightarrow>
     server_inv w' \<and> wm_threads (bk_wm w') = wm_threads (bk_wm w) \<and> dom (wm_groups (bk_wm w')) = dom (wm_groups (bk_wm w))"
proof (induction cs arbitrary: w)
  case (Cons c cs)
  then obtain w1 where "multicast_client os g f c w = Inr w1" "each_res (multicast_client os g f) cs w1 = Inr w'"
    by (auto simp: and_then_eq_Inr)
  with multicast_client_inv [of os g f c w w1] Cons show ?case by auto
qed simp

lemma multicast_worker_inv:
  assumes "multicast_worker os g w = Inr (go, w')" and "server_inv w"
  shows "server_inv w' \<and> wm_threads (bk_wm w') = wm_threads (bk_wm w) \<and> dom (wm_groups (bk_wm w')) = dom (wm_groups (bk_wm w))"
proof -
  obtain dg where dg: "wm_groups (bk_wm w) g = Some dg" using assms(1) by (auto simp: multicast_worker_def split: option.splits)
  show ?thesis
  proof (cases "dg_clients dg = []")
    case False
    then obtain p b where d: "dequeue all_mallocs (dg_destination dg) (bk_box w) = Inr (p, b)"
      using assms(1) dg by (auto simp: multicast_worker_def and_then_eq_Inr)
    define w1 where "w1 = w\<lparr>bk_box := b\<rparr>"
    have w1: "server_inv w1" using dequeue_inv [OF d] assms(2) by (simp add: server_inv_def w1_def)
    show ?thesis
    proof (cases p)
      case (Some x)
      then obtain f where f: "ss_frames (bk_stomp w1) x = Some f"
        using assms(1) dg d False by (auto simp: multicast_worker_def w1_def split: option.splits)
      from assms(1) dg d False Some f have
        "and_then (each_res (multicast_client os g f) (dg_clients dg) w1) (\<lambda>w.
          and_then (update_index_sent (dg_destination dg) f (bk_pm w)) (\<lambda>(_, pm).
          and_then (free_frame x (bk_stomp w)) (\<lambda>st. Inr (True, w\<lparr>bk_pm := pm, bk_stomp := st\<rparr>)))) = Inr (go, w')"
        by (simp add: multicast_worker_def w1_def)
      then obtain wa r pm st where w2: "each_res (multicast_client os g f) (dg_clients dg) w1 = Inr wa"
        and u: "update_index_sent (dg_destination dg) f (bk_pm wa) = Inr (r, pm)" and w': "w' = wa\<lparr>bk_pm := pm, bk_stomp := st\<rparr>"
        by (auto simp: and_then_eq_Inr)
      from multicast_clients_inv [OF w2 w1] update_index_live [OF u] show ?thesis
        by (simp add: w' server_inv_def w1_def)
    qed (use assms(1) dg d False w1 in \<open>auto simp: multicast_worker_def w1_def\<close>)
  qed (use assms dg in \<open>auto simp: multicast_worker_def\<close>)
qed

lemma thread_pass_inv:
  assumes "thread_pass os t w = Inr (go, w')" and "server_inv w"
  shows "server_inv w' \<and> wm_threads (bk_wm w') = wm_threads (bk_wm w) \<and> dom (wm_groups (bk_wm w')) = dom (wm_groups (bk_wm w))"
  using assms serve_client_inv [of os _ _ _ w go w'] multicast_worker_inv [of os _ w go w']
  by (auto simp: thread_pass_def reply_worker_def unicast_worker_def and_then_eq_Inr split: thread.splits option.splits)

lemma end_thread_inv: "server_inv w \<Longrightarrow> server_inv (end_thread t w)"
  by (auto simp: server_inv_def end_thread_def wm_inv_def thread_ok_def distinct_remove1
      dest: set_remove1_subset [THEN subsetD] split: thread.splits)

lemma persist_entry_live: "persist_entry frames p pm = Inr pm' \<Longrightarrow> pm_live pm \<Longrightarrow> pm_live pm'"
  by (auto simp: persist_entry_def Let_def and_then_eq_Inr pm_live_def list_all_iff split: option.splits if_splits)

lemma persist_round_live: "each_res (persist_entry frames) ps pm = Inr pm' \<Longrightarrow> pm_live pm \<Longrightarrow> pm_live pm'"
  by (induction ps arbitrary: pm) (auto simp: and_then_eq_Inr dest: persist_entry_live)

text \<open>
  The hypothesis on the environment: allocations of the queues succeed, and the callbacks of
  frames, which the server does not have, change nothing.
\<close>

definition plain_env :: "env \<Rightarrow> bool" where
  "plain_env env \<longleftrightarrow> e_queue env = all_mallocs \<and> (\<forall>cb p w. snd (e_call env cb p w) = w)"

lemma server_step_inv:
  assumes "server_step E w w'" and "server_inv w" and env: "\<forall>env\<in>E. plain_env env"
  shows "server_inv w'"
  using assms(1)
proof (cases rule: server_step.cases)
  case (manage env)
  then have e: "plain_env env" using env by simp
  then have "intact env w (snd (e_call env cb p w))" for cb p w by (simp add: plain_env_def intact.R_refl)
  from intact.management_round_keeps [OF this manage(2)] assms(2) e show ?thesis by (simp add: intact_def plain_env_def)
next
  case (quit env t w1)
  then show ?thesis using thread_pass_inv assms(2) end_thread_inv by blast
next
  case (serve env t)
  then show ?thesis using thread_pass_inv assms(2) by blast
next
  case (persist pm)
  then have "pm_live pm" using assms(2) persist_round_live
    by (auto simp: persistent_worker_def persist_round_def and_then_eq_Inr server_inv_def split: if_splits)
  with persist assms(2) show ?thesis by (simp add: server_inv_def)
qed (use assms(2) in \<open>simp_all add: server_inv_def\<close>)

lemma server_run_inv: "server_run E w w' \<Longrightarrow> server_inv w \<Longrightarrow> \<forall>env\<in>E. plain_env env \<Longrightarrow> server_inv w'"
  by (induction rule: rtranclp_induct) (auto intro: server_step_inv)

section \<open>No worker gets stuck\<close>

text \<open>Every frame that waits in a queue is on the heap and can be freed.\<close>

definition queued_live :: "world \<Rightarrow> bool" where
  "queued_live w \<longleftrightarrow> (\<forall>h. \<forall>p\<in>set (contents (bk_box w) h). \<exists>f. ss_frames (bk_stomp w) p = Some f \<and> f_tdata f = None)"

lemma serve_client_progress:
  assumes "server_inv w" and "queued_live w" and "wm_groups (bk_wm w) g = Some dg"
  shows "\<exists>go w'. serve_client os sock hs g w = Inr (go, w')"
proof (cases "is_socket_valid os sock = RET_SUCCESS")
  case True
  have "serve_inv (bk_wm w) (ss_frames (bk_stomp w)) (dg_destination dg) w"
    using assms(1,2) by (fastforce simp: serve_inv_def server_inv_def queued_live_def)
  from serve_client_law [OF this assms(3) refl True] show ?thesis by blast
qed (auto simp: serve_client_def)

lemma multicast_progress:
  assumes "server_inv w" and "queued_live w" and g: "wm_groups (bk_wm w) g = Some dg"
  shows "\<exists>go w'. multicast_worker os g w = Inr (go, w')"
proof (cases "dg_clients dg = []")
  case False
  have wm: "wm_inv (bk_wm w)" and box: "qb_inv (bk_box w)" using assms(1) by (simp_all add: server_inv_def)
  show ?thesis
  proof (cases "contents (bk_box w) (get_hash (dg_destination dg))")
    case Nil
    with dequeue_ok [OF box, of "dg_destination dg"] obtain b where "dequeue all_mallocs (dg_destination dg) (bk_box w) = Inr (None, b)"
      by auto
    then show ?thesis using g False by (auto simp: multicast_worker_def)
  next
    case (Cons p ps)
    then obtain f where f: "ss_frames (bk_stomp w) p = Some f" "f_tdata f = None" using assms(2) unfolding queued_live_def by (metis list.set_intros(1))
    have "\<forall>c\<in>set (dg_clients dg). \<exists>ci hs. wm_clients (bk_wm w) c = Some ci \<and> subscription_header (ci_id ci) = Inr hs"
      using wm_invD(4) [OF wm g] wm_invD(5) [OF wm] by (fastforce simp: subscription_header_def)
    then have "topic_ready g dg p f w"
      using g False f Cons wm_invD(3) [OF wm g] assms(1) by (simp add: topic_ready_def pending_of_def server_inv_def)
    from multicast_pass [OF this] show ?thesis by blast
  qed
qed (use g in \<open>auto simp: multicast_worker_def\<close>)

lemma thread_pass_progress:
  assumes "server_inv w" and "queued_live w" and "t \<in> set (wm_threads (bk_wm w))"
  shows "\<exists>go w'. thread_pass os t w = Inr (go, w')"
proof -
  have wm: "wm_inv (bk_wm w)" using assms(1) by (simp add: server_inv_def)
  have client: "\<exists>go w'. serve_client os (ci_sock ci) hs (ci_dgroup ci) w = Inr (go, w')" if "wm_clients (bk_wm w) c = Some ci" for c ci hs
    using wm_invD(6) [OF wm that] serve_client_progress [OF assms(1,2)] by blast
  show ?thesis
  proof (cases t)
    case (Reply_Worker c)
    with wm_invD(7) [OF wm assms(3)] client show ?thesis
      by (auto simp: thread_ok_def thread_pass_def reply_worker_def)
  next
    case (Unicast_Worker c)
    with wm_invD(7) [OF wm assms(3)] obtain ci where ci: "wm_clients (bk_wm w) c = Some ci" by (auto simp: thread_ok_def)
    with client [OF ci] wm_invD(5) [OF wm ci] Unicast_Worker show ?thesis
      by (simp add: thread_pass_def unicast_worker_def subscription_header_def)
  next
    case (Multicast_Worker g)
    with wm_invD(7) [OF wm assms(3)] multicast_progress [OF assms(1,2)] show ?thesis
      by (auto simp: thread_ok_def thread_pass_def)
  qed
qed

section \<open>A topic without worker\<close>

definition unserved :: "ptr \<Rightarrow> worker_manager_t \<Rightarrow> bool" where
  "unserved g wm \<longleftrightarrow> wm_inv wm \<and> wm_groups wm g \<noteq> None \<and> Multicast_Worker g \<notin> set (wm_threads wm)"

lemma registrations_unserved: "registrations wm wm' \<Longrightarrow> unserved g wm \<Longrightarrow> unserved g wm'"
proof (induction rule: registrations.induct)
  case (reply wm x m sock d r y)
  then have "wm_inv y" using registrations_inv [OF registrations.reply] by (auto simp: unserved_def)
  with reply show ?case
    by (auto simp: unserved_def register_reply_worker_def initialize_dest_group_def register_client_def create_thread_def
        and_then_eq_Inr Let_def split: option.splits if_splits)
next
  case (unicast wm x m sock d i r y)
  then have "wm_inv y" using registrations_inv [OF registrations.unicast] by (auto simp: unserved_def)
  with unicast show ?case
    by (auto simp: unserved_def register_unicast_worker_def initialize_dest_group_def register_client_def create_thread_def
        and_then_eq_Inr Let_def split: option.splits if_splits)
next
  case (multicast wm x m sock d i r y)
  then have "wm_inv y" using registrations_inv [OF registrations.multicast] by (auto simp: unserved_def)
  moreover have "g < wm_next x" using multicast wm_invD(1) [of x g] by (auto simp: unserved_def)
  ultimately show ?case using multicast
    by (auto simp: unserved_def register_multicast_worker_def initialize_dest_group_def register_client_def create_thread_def
        and_then_eq_Inr Let_def split: option.splits if_splits)
qed simp

interpretation unserved: world_relation env "\<lambda>w w'. unserved g (bk_wm w) \<longrightarrow> unserved g (bk_wm w')" for env g
  by unfold_locales (auto dest: registrations_unserved)

lemma server_step_unserved:
  assumes "server_step E w w'" and "server_inv w" and env: "\<forall>env\<in>E. plain_env env" and g: "unserved g (bk_wm w)"
  shows "unserved g (bk_wm w')"
proof -
  have inv: "wm_inv (bk_wm w')" using server_step_inv [OF assms(1-3)] by (simp add: server_inv_def)
  have pass: "unserved g (bk_wm w2)" if "thread_pass os t w = Inr (go, w2)" for os t go w2
    using thread_pass_inv [OF that assms(2)] g by (auto simp: unserved_def server_inv_def)
  show ?thesis using assms(1)
  proof (cases rule: server_step.cases)
    case (manage env)
    have "unserved g (bk_wm w) \<longrightarrow> unserved g (bk_wm (snd (e_call env cb p w)))" for cb p w
      using env manage(1) by (simp add: plain_env_def)
    from unserved.management_round_keeps [OF this manage(2)] g show ?thesis by simp
  next
    case (quit env t w1)
    with pass [OF quit(4)] inv show ?thesis
      by (auto simp: unserved_def end_thread_def dest: set_remove1_subset [THEN subsetD])
  qed (use g pass in simp_all)
qed

lemma server_run_unserved:
  assumes "server_run E w w'" and "server_inv w" and "\<forall>env\<in>E. plain_env env" and "unserved g (bk_wm w)"
  shows "unserved g (bk_wm w')"
  using assms(1)
  by (induction rule: rtranclp_induct)
    (use assms server_run_inv in \<open>auto intro: server_step_unserved [OF _ _ assms(3)]\<close>)

section \<open>Properties\<close>

text \<open>
  C4. The server's state stays well formed, and no sending worker runs into a dangling group or client.
  From a well-formed state, whatever the threads do, in whatever order and in whatever
  surroundings, the queues are
  well formed, the persistence list has no freed entry, every client of a group is alive and
  belongs to it, and every running thread's client or group is alive; so a round of a
  running sending worker returns as long as the frames waiting in the queues are alive.
\<close>

theorem server_stays_wellformed:
  assumes "server_run E w w'" and "server_inv w" and "\<forall>env\<in>E. plain_env env"
  shows "server_inv w' \<and> (\<forall>t\<in>set (wm_threads (bk_wm w')). queued_live w' \<longrightarrow> (\<exists>go w2. thread_pass os t w' = Inr (go, w2)))"
  using server_run_inv [OF assms] thread_pass_progress by blast

text \<open>
  C36. A subscriber's identifier is lost. In every reachable state and for every client, a pass of
  \<^verbatim>\<open>unicast_worker\<close> is a pass of \<^verbatim>\<open>reply_worker\<close>, which has no subscription header to send; and for a
  topic, a client whose socket is open gets the frame from \<^verbatim>\<open>stomp_send_message\<close> without additional
  headers. No MESSAGE carries the subscription header, whatever \<^verbatim>\<open>id\<close> the SUBSCRIBE frames had.
\<close>

theorem subscription_id_lost:
  assumes "server_run E w w'" and "server_inv w" and "\<forall>env\<in>E. plain_env env"
  shows "unicast_worker os c w' = reply_worker os c w' \<and>
    (case wm_clients (bk_wm w') c of None \<Rightarrow> True
     | Some ci \<Rightarrow> is_socket_valid os (ci_sock ci) = RET_SUCCESS \<longrightarrow>
         multicast_client os g f c w' = Inr (send_out (stomp_send_message os (ci_sock ci) f None) w'))"
proof -
  have "ci_id ci = None" if "wm_clients (bk_wm w') c = Some ci" for ci
    using wm_invD(5) [of "bk_wm w'" c] server_run_inv [OF assms] that by (auto simp: server_inv_def)
  moreover have "stomp_send_message os sock f (Some []) = stomp_send_message os sock f None" for sock
    by (rule ext) (simp add: stomp_send_message_def send_lines_def)
  ultimately show ?thesis
    by (auto simp: unicast_worker_def reply_worker_def multicast_client_def subscription_header_def split: option.split)
qed

text \<open>
  C15. A topic is served once. When all clients of a topic's group are gone, its multicast worker
  ends; afterwards no run of the server starts a worker for the group again, and a SUBSCRIBE to the
  topic adds its client to the group without creating a thread.
\<close>

theorem topic_worker_never_returns:
  assumes "server_inv w" and "\<forall>env\<in>E. plain_env env" and "E \<noteq> {}" and "Multicast_Worker g \<in> set (wm_threads (bk_wm w))"
    and "wm_groups (bk_wm w) g = Some dg" and "dg_clients dg = []"
  shows "server_step E w (end_thread (Multicast_Worker g) w) \<and>
    (\<forall>w'. server_run E (end_thread (Multicast_Worker g) w) w' \<longrightarrow> Multicast_Worker g \<notin> set (wm_threads (bk_wm w')) \<and>
      (search_dest_group d (strlen d) (bk_wm w') = Some g \<longrightarrow>
        (\<exists>wm. register_multicast_worker all_send_mallocs sock d i (bk_wm w') = Inr (RET_SUCCESS, wm) \<and>
           wm_threads wm = wm_threads (bk_wm w'))))"
proof (intro conjI allI impI)
  show "server_step E w (end_thread (Multicast_Worker g) w)"
    using assms(3-6) by (auto intro!: server_step.quit simp: thread_pass_def multicast_worker_def)
  have inv: "server_inv (end_thread (Multicast_Worker g) w)" using end_thread_inv [OF assms(1)] .
  have "distinct (wm_threads (bk_wm w))" using assms(1) wm_invD(8) by (auto simp: server_inv_def)
  with inv assms(5) have g: "unserved g (bk_wm (end_thread (Multicast_Worker g) w))"
    by (simp add: unserved_def server_inv_def end_thread_def)
  fix w'
  assume "server_run E (end_thread (Multicast_Worker g) w) w'"
  from server_run_unserved [OF this inv assms(2) g] show "Multicast_Worker g \<notin> set (wm_threads (bk_wm w'))"
    by (simp add: unserved_def)
  assume "search_dest_group d (strlen d) (bk_wm w') = Some g"
  then show "\<exists>wm. register_multicast_worker all_send_mallocs sock d i (bk_wm w') = Inr (RET_SUCCESS, wm) \<and>
      wm_threads wm = wm_threads (bk_wm w')"
    by (simp add: register_multicast_worker_def Let_def register_client_def alloc_client_info_def all_send_mallocs_def)
qed

text \<open>Small instances.\<close>

lemma wm_inv_registered:
  "wm_inv wm0" "registrations wm0 wm2" "registrations wm0 wm3"
proof -
  show "wm_inv wm0" by (simp add: wm_inv_def wm0_def)
  have u: "register_unicast_worker all_send_mallocs s d i wm = Inr (RET_SUCCESS, snd (projr (register_unicast_worker all_send_mallocs s d i wm)))"
    for s d i wm
    by (simp add: register_unicast_worker_def all_send_mallocs_def initialize_dest_group_def alloc_dest_group_def register_client_def
        alloc_client_info_def Let_def split: option.split)
  show "registrations wm0 wm2" unfolding wm2_def
    by (rule registrations.unicast [OF _ u], rule registrations.unicast [OF _ u], rule registrations.none)
  have m: "register_multicast_worker all_send_mallocs s d i wm = Inr (RET_SUCCESS, snd (projr (register_multicast_worker all_send_mallocs s d i wm)))"
    for s d i wm
    by (simp add: register_multicast_worker_def all_send_mallocs_def initialize_dest_group_def alloc_dest_group_def register_client_def
        alloc_client_info_def Let_def split: option.split)
  show "registrations wm0 wm3" unfolding wm3_def
    by (rule registrations.multicast [OF _ m], rule registrations.multicast [OF _ m], rule registrations.none)
qed

lemma server_inv_world0: "server_inv (world0 [])"
  using registrations_inv [OF wm_inv_registered(2,1)] by (simp add: server_inv_def world0_def qb_inv_empty pm_live_def pm2_def)

lemma plain_env0: "\<forall>env\<in>{env0}. plain_env env" "{env0} \<noteq> {}"
  by (simp_all add: plain_env_def env0_def)

theorem server_stays_wellformed_witness:
  "\<exists>w go w2. server_run {env0} (world0 []) w \<and> thread_pass os0 (Unicast_Worker 2) w = Inr (go, w2)"
proof -
  have "\<exists>w. server_run {env0} (world0 []) w \<and> bk_wm w = wm2 \<and> queued_live w"
    by (rule exI [of _ "world0 []"]) (simp add: world0_def queued_live_def contents_empty)
  then obtain w where w: "server_run {env0} (world0 []) w" "bk_wm w = wm2" "queued_live w" by blast
  with server_stays_wellformed [OF w(1) server_inv_world0 plain_env0(1), of os0] wm2_clients(4) show ?thesis by auto
qed

theorem subscription_id_lost_witness:
  "unicast_worker os0 2 (world0 []) = reply_worker os0 2 (world0 []) \<and>
   multicast_client os0 1 (delivered os0 4 9 0 msg1) 2 (world0 []) =
     Inr (send_out (stomp_send_message os0 4 (delivered os0 4 9 0 msg1) None) (world0 []))"
  using subscription_id_lost [OF rtranclp.rtrancl_refl server_inv_world0 plain_env0(1), of os0 2 1 "delivered os0 4 9 0 msg1"]
  by (simp add: world0_def wm2_clients is_socket_valid_def os0_def)

definition world1 :: world where
  "world1 = (world0 [])\<lparr>bk_wm := unlink_clients 1 [2, 3] wm3\<rparr>"

lemma world1_topic:
  "server_inv world1" "Multicast_Worker 1 \<in> set (wm_threads (bk_wm world1))"
  "\<exists>dg. wm_groups (bk_wm world1) 1 = Some dg \<and> dg_clients dg = []"
proof -
  show "server_inv world1"
    using registrations_inv [OF wm_inv_registered(3,1)] server_inv_world0
    by (simp add: world1_def server_inv_def unlink_clients_inv)
qed (simp_all add: world1_def unlink_clients_def wm3_clients dg3_def del: One_nat_def)

theorem topic_worker_never_returns_witness:
  "server_step {env0} world1 (end_thread (Multicast_Worker 1) world1) \<and>
   (\<exists>wm. register_multicast_worker all_send_mallocs 4 ''/topic/a'' None (bk_wm (end_thread (Multicast_Worker 1) world1)) = Inr (RET_SUCCESS, wm) \<and>
      wm_threads wm = [])"
proof -
  let ?w = "end_thread (Multicast_Worker 1) world1"
  obtain dg where dg: "wm_groups (bk_wm world1) 1 = Some dg" "dg_clients dg = []" using world1_topic(3) by blast
  have "wm_list wm3 = [1]"
    by (simp add: wm3_def wm0_def register_multicast_worker_def search_dest_group_def initialize_dest_group_def
        alloc_dest_group_def register_client_def alloc_client_info_def create_thread_def all_send_mallocs_def
        strlen_def strncmp0.simps CLR_def Let_def eval_nat_numeral)
  moreover have "strlen ''/topic/a'' = 8" by (simp add: strlen_def)
  moreover have "strncmp0 (''/topic/a'' @ [NUL]) ''/topic/a'' 8" by (simp add: strncmp0.simps eval_nat_numeral)
  moreover have "\<exists>dg. wm_groups (bk_wm ?w) 1 = Some dg \<and> dg_len dg = 8 \<and> dg_destination dg = ''/topic/a'' @ [NUL]"
    by (simp add: end_thread_def world1_def unlink_clients_def wm3_clients dg3_def del: One_nat_def)
  ultimately have "search_dest_group ''/topic/a'' (strlen ''/topic/a'') (bk_wm ?w) = Some 1"
    by (auto simp: search_dest_group_def end_thread_def world1_def unlink_clients_def)
  moreover have "wm_threads (bk_wm ?w) = []"
    by (simp add: end_thread_def world1_def unlink_clients_def wm3_clients)
  ultimately show ?thesis
    using topic_worker_never_returns [OF world1_topic(1) plain_env0 world1_topic(2) dg] by (metis rtranclp.rtrancl_refl)
qed

end
