(* ===== verification/Spec2Isabelle.thy ===== *)
theory Spec2Isabelle
  imports Intrusive_List Stomp_Receive Server
begin

text \<open>
  A verification development for NewtMQ, a message broker that speaks STOMP 1.2 over TCP.

  THE PROGRAM. A connection thread (\<^verbatim>\<open>lib/connection.c\<close>, \<^verbatim>\<open>lib/stomp.c\<close>) receives bytes, cuts them into
  lines and builds frames (\<^verbatim>\<open>lib/frame.c\<close>), which it puts into the bucket. The management worker
  (\<^verbatim>\<open>lib/stomp_management_worker.c\<close>) takes frames from the bucket and runs the handler of the
  command (\<^verbatim>\<open>lib/stomp_proto_*.c\<close>): SEND puts the frame into a queue (\<^verbatim>\<open>lib/queue.c\<close>) or a transaction
  (\<^verbatim>\<open>lib/transaction.c\<close>) and hands it to persistence, SUBSCRIBE starts sending workers
  (\<^verbatim>\<open>lib/stomp_sending_worker.c\<close>). The sending workers take frames from the queues and write MESSAGE
  frames to the clients' sockets. The persistent worker (\<^verbatim>\<open>lib/persistent_worker.c\<close>) appends the frames
  of a queue to its file and notes how much has been sent; at the start the files are read back.
  A second port answers control requests (\<^verbatim>\<open>lib/newtctl.c\<close>), and an interrupt runs the
  registered cleanup functions (\<^verbatim>\<open>lib/signal.c\<close>).

  THEORIES, in the order of their imports.
  \<^item> \<open>Prelude\<close>: results with faults, C strings and memory copies, status words, list lemmas.
  \<^item> \<open>Intrusive_List\<close>: \<^verbatim>\<open>newt/list.h\<close> on an explicit heap of cells. The other theories use plain
    lists of addresses, which the lemmas of this theory justify.
  \<^item> \<open>Common\<close>: \<^verbatim>\<open>lib/common.c\<close> (random identifiers, the hash of a queue name, directories).
  \<^item> \<open>Queue_Box\<close>: \<^verbatim>\<open>lib/queue.c\<close>, the hash table of queues with its lock and every allocation's outcome;
    the locale \<open>fifo_store\<close> is the contract of a store of queues, interpreted on the box.
  \<^item> \<open>Frame\<close>, \<open>Wire_Format\<close>: \<^verbatim>\<open>lib/frame.c\<close>; messages, their wire form, and what \<^verbatim>\<open>parse_frame\<close> makes of it.
  \<^item> \<open>Stomp\<close>, \<open>Stomp_Receive\<close>: \<^verbatim>\<open>lib/stomp.c\<close>, the receive loop with partial lines, the connection worker,
    receipts, errors and messages.
  \<^item> \<open>Transaction\<close>: \<^verbatim>\<open>lib/transaction.c\<close> with its mutex.
  \<^item> \<open>Persistent\<close>: \<^verbatim>\<open>lib/persistent_worker.c\<close> over a file system of paths and contents.
  \<^item> \<open>Sending\<close>: \<^verbatim>\<open>lib/stomp_sending_worker.c\<close>; the locale \<open>frame_server\<close> is what serving one queue means,
    interpreted for unicast and for reply workers.
  \<^item> \<open>Protocol\<close>, \<open>Handlers\<close>: the management worker and the handlers of all commands on one record \<open>world\<close>.
  \<^item> \<open>Runs\<close>: the locale \<open>world_relation\<close>: a relation that survives the single updates of the
    handlers holds over whole runs of the management worker. \<open>Subscriptions\<close> and \<open>Server\<close> interpret it.
  \<^item> \<open>Subscriptions\<close>: what runs do to subscriptions, and the \<^verbatim>\<open>reply-to\<close> header.
  \<^item> \<open>Signals\<close>, \<open>Network\<close>: \<^verbatim>\<open>lib/signal.c\<close>, and \<^verbatim>\<open>lib/connection.c\<close> with the cleanup functions.
  \<^item> \<open>Control\<close>: \<^verbatim>\<open>lib/newtctl.c\<close> and \<^verbatim>\<open>lib/newtctl_commands.c\<close>.
  \<^item> \<open>Startup\<close>, \<open>Restart\<close>: \<^verbatim>\<open>lib/logger.c\<close>, \<^verbatim>\<open>lib/config.c\<close>, \<^verbatim>\<open>lib/optparse.c\<close>, \<^verbatim>\<open>lib/daemon.c\<close>, \<^verbatim>\<open>newtd.c\<close>; what a
    start over saved queues gives back.
  \<^item> \<open>Delivery\<close>: the path of a message from a receive buffer to a subscriber.
  \<^item> \<open>Server\<close>: all threads as a step relation on the world, and its invariant.

  HOW THE MODEL READS. Every C structure is a record, every function a definition with the source's name; a
  name that clashes has a prefix (\<open>stomp_frame_update\<close> is the function of \<^verbatim>\<open>lib/stomp.c\<close>, \<open>frame_update\<close>
  the one of \<^verbatim>\<open>lib/frame.c\<close>; \<open>log_info\<close> is \<^verbatim>\<open>info\<close>). Bytes are characters, buffers are lists of bytes,
  addresses are numbers into a heap (a map). A result of type \<open>'a res\<close> is a value or a fault:
  a null dereference, a use after free, a bad free, an overflow of a buffer, a failed assertion
  or a mutex locked twice. Status words and hashes are machine words; \<^verbatim>\<open>int\<close> sizes that only count
  bytes received are unbounded integers.

  LOOPS. A loop that may not end is \<open>while_option\<close>, and not returning is the value \<open>None\<close>: the receive loop,
  the commit loop and the block loop of the file reader. No definition uses fuel; termination
  and divergence are theorems (\<open>recv_data_terminates\<close>, \<open>recv_data_null_in_body_diverges\<close>,
  \<open>commit_without_callback_diverges\<close>, \<open>transaction_commit_hangs_server\<close>). The endless loops of the workers
  are given round by round (\<open>management_round\<close>, \<open>persistent_worker\<close>, \<open>serve_client\<close>,
  \<open>multicast_worker\<close>) or over the list of the results of their system call (\<open>conn_loop\<close>, \<open>ctl_loop\<close>,
  \<open>accept_loop\<close>), and theorems hold for any number of rounds.

  WHAT THE LEMMAS SHOW.
  \<^item> Delivery: complete messages in a buffer become exactly their frames, also when they are split between
    buffers at the places shown; queues are first in first out per hash; workers of one queue
    serve it in order; \<open>send_reaches_subscriber\<close> composes these from the socket of the sender to the
    socket of the subscriber.
  \<^item> Persistence: a history of one queue (frames handed over, frames sent, passes of the worker, in any
    order) leaves files from which exactly the unsent messages are read back (\<open>queue_survives_restart\<close>),
    except that messages without a body are counted one byte short (\<open>sent_index_accounting\<close>);
    \<open>restart_restores_queues\<close> is the whole start over saved queues. Both within one read block per queue.
  \<^item> Invariants: the queue table, the persistence list and the groups and clients of the sending workers stay
    well formed under every interleaving of the threads (\<open>server_stays_wellformed\<close>).
  \<^item> Dispatch: every command has its own handler function (\<open>every_command_dispatched\<close>).
  \<^item> Faults: where the code overflows, hangs, frees twice or loses data, a theorem gives a condition
    under which it does, stated with its limits.

  SURROUNDINGS. What the operating system returns is an argument (\<open>os\<close>, \<open>env\<close>): random numbers, the state of
  sockets, the outcome of \<^verbatim>\<open>send\<close>, of opening files and of allocations. One such argument stands for one
  step of a thread; the passes of the sending workers and the steps of \<open>Server\<close> take a new one each
  time, so that a socket may fail and recover in between. Allocations that can fail are branches of
  their definitions (queues, groups, clients, transactions, connections, frames, line nodes); the receive
  path is used with successful allocations of frames and line nodes (\<open>prepare_frame True\<close>,
  \<open>allocated\<close>), because the first failure ends the program in an assertion and the second loses the
  rest of a line.

  BOUNDS. Header lines of a well-formed message (\<open>msg_ok\<close>) fit into a line node of 1024 bytes; receipts have
  at most 1011 bytes; a queue that is read back has at most 1024 unsent bytes. Each bound is the source's
  buffer size, and theorems show what happens beyond it.

  NOT MODELLED. Interleavings inside one round of a thread: a step of \<open>Server\<close> is a whole round, so the races
  that the findings mention (the list of signal handlers, the search and insertion of queues, the start of
  a multicast worker) are not steps. Mutexes are state only where a path leaves one locked (the queue
  table, the transaction manager). Failing writes and partial sends: \<^verbatim>\<open>send\<close> takes all bytes, as the
  source assumes. The text of log messages and the formatting of time. The libraries
  libconfuse, argp and MessagePack are parameters; nothing is assumed about MessagePack, so that reading
  an object as something else or an object that was never written may be a fault. \<^verbatim>\<open>newt/stomp_message_worker.h\<close> declares
  functions that do not exist; the test programs are clients of the broker.

  NEXT. An invariant on the ownership of frames (bucket, queues, transactions, persistence list), so that
  \<open>queued_live\<close> follows for runs without topics; the parser of \<^verbatim>\<open>lib/frame.c\<close> on inputs cut at any place; the
  equivalence of \<open>frame_update\<close> and \<open>stomp_frame_update\<close> on the same lines; restarts with more than one
  read block.
\<close>

end
